(* ===== verification/Prelude.thy ===== *)
theory Prelude
  imports Main "HOL-Library.Word" "HOL-Library.Monad_Syntax"
begin

text \<open>
  Shared vocabulary of the development: the C library functions the linker calls on character
  and item buffers (\<open>memchr\<close>, \<open>memrchr\<close>, \<open>memmove\<close>, \<open>memcpy\<close>, \<open>memset\<close>, \<open>realloc\<close>, the C view of a
  buffer as a zero-terminated string), and the generic list and option lemmas the component
  theories use. A buffer is a list; an access outside it is undefined behaviour of the source
  and is the value \<^term>\<open>None\<close> here, so that a proof that an operation returns \<^term>\<open>Some\<close> is
  also a proof that it stays inside its buffers.
\<close>

named_theorems buf_simps \<open>reads and writes of buffers\<close>
named_theorems inv_intros \<open>well-formedness of the results of operations\<close>

abbreviation NUL :: char where
  "NUL \<equiv> CHR 0x00"

abbreviation NEWLINE :: char where
  "NEWLINE \<equiv> CHR 0x0A"

type_synonym byte = "8 word"

section \<open>C library functions on buffers\<close>

text \<open>\<open>memchr\<close> and \<open>strchr\<close>: the offset of the first occurrence.\<close>

fun memchr :: "'a \<Rightarrow> 'a list \<Rightarrow> nat option" where
  "memchr c [] = None"
| "memchr c (x # xs) = (if x = c then Some 0 else map_option Suc (memchr c xs))"

text \<open>\<open>memrchr\<close> and \<open>strrchr\<close>: the offset of the last occurrence.\<close>

fun memrchr :: "'a \<Rightarrow> 'a list \<Rightarrow> nat option" where
  "memrchr c [] = None"
| "memrchr c (x # xs) =
     (case memrchr c xs of
        Some i \<Rightarrow> Some (Suc i)
      | None \<Rightarrow> if x = c then Some 0 else None)"

text \<open>The zero-terminated string that starts a buffer.\<close>

definition c_str :: "char list \<Rightarrow> char list" where
  "c_str b = takeWhile (\<lambda>c. c \<noteq> NUL) b"

text \<open>
  \<open>realloc\<close>: the common prefix is kept, what is new has no defined content; the function
  \<open>junk\<close> stands for it, and no lemma depends on which one it is.
\<close>

definition realloc :: "(nat \<Rightarrow> 'a) \<Rightarrow> nat \<Rightarrow> 'a list \<Rightarrow> 'a list" where
  "realloc junk n b = take n b @ map junk [length b..<n]"

text \<open>Writing a run of items at an offset (\<open>memcpy\<close> into a buffer, \<open>b[i] = x\<close>).\<close>

definition buf_write :: "nat \<Rightarrow> 'a list \<Rightarrow> 'a list \<Rightarrow> 'a list option" where
  "buf_write off src b =
     (if off + length src \<le> length b
      then Some (take off b @ src @ drop (off + length src) b) else None)"

text \<open>Reading a run of items at an offset.\<close>

definition buf_read :: "nat \<Rightarrow> nat \<Rightarrow> 'a list \<Rightarrow> 'a list option" where
  "buf_read off n b = (if off + n \<le> length b then Some (take n (drop off b)) else None)"

definition memset :: "nat \<Rightarrow> 'a \<Rightarrow> nat \<Rightarrow> 'a list \<Rightarrow> 'a list option" where
  "memset off x n b = buf_write off (replicate n x) b"

definition memmove :: "nat \<Rightarrow> nat \<Rightarrow> nat \<Rightarrow> 'a list \<Rightarrow> 'a list option" where
  "memmove dst src n b = buf_read src n b \<bind> (\<lambda>run. buf_write dst run b)"

text \<open>
  Cutting a buffer into the pieces a separator ends; a last piece without a separator counts,
  an empty one does not.
\<close>

function split_terminated :: "'a \<Rightarrow> 'a list \<Rightarrow> 'a list list" where
  "split_terminated sep xs =
     (if xs = [] then []
      else takeWhile (\<lambda>x. x \<noteq> sep) xs # split_terminated sep (tl (dropWhile (\<lambda>x. x \<noteq> sep) xs)))"
  by pat_completeness auto
termination
proof (relation "measure (\<lambda>(sep, xs). length xs)", simp_all)
  fix sep :: 'a and xs :: "'a list"
  assume "xs \<noteq> []"
  then show "length (dropWhile (\<lambda>x. x \<noteq> sep) xs) - Suc 0 < length xs"
    using length_dropWhile_le [of "\<lambda>x. x \<noteq> sep" xs] by (cases xs) auto
qed

declare split_terminated.simps [simp del]

text \<open>Appending a list after a separator that is added only where one is missing.\<close>

definition join_with :: "'a \<Rightarrow> 'a list \<Rightarrow> 'a list \<Rightarrow> 'a list" where
  "join_with sep xs ys = (if xs \<noteq> [] \<and> last xs \<noteq> sep then xs @ [sep] else xs) @ ys"

text \<open>The first result of a search that may go on.\<close>

fun first_some :: "('a \<Rightarrow> 'b option) \<Rightarrow> 'a list \<Rightarrow> 'b option" where
  "first_some f [] = None"
| "first_some f (x # xs) = (case f x of None \<Rightarrow> first_some f xs | Some y \<Rightarrow> Some y)"

text \<open>The conversion \<open>static_cast<int>\<close> of a \<open>size_t\<close>: the low 32 bits, read as signed.\<close>

definition int_of_size :: "nat \<Rightarrow> int" where
  "int_of_size n = sint (word_of_nat n :: 32 word)"

section \<open>Lemmas on the library functions\<close>

lemma memchr_None_iff: "memchr c xs = None \<longleftrightarrow> c \<notin> set xs"
  by (induction xs) auto

lemma memchr_SomeD:
  assumes "memchr c xs = Some i"
  shows "i < length xs \<and> xs ! i = c \<and> take i xs = takeWhile (\<lambda>x. x \<noteq> c) xs"
  using assms by (induction xs arbitrary: i) (auto split: if_splits)

lemma memchr_append:
  "memchr c (xs @ ys) =
     (case memchr c xs of
        Some i \<Rightarrow> Some i
      | None \<Rightarrow> map_option (\<lambda>i. length xs + i) (memchr c ys))"
  by (cases "memchr c ys"; induction xs) (simp_all split: option.splits)

lemma memchr_append_mem: "c \<notin> set xs \<Longrightarrow> memchr c (xs @ c # ys) = Some (length xs)"
  by (simp add: memchr_append memchr_None_iff [THEN iffD2])

lemma memrchr_None_iff: "memrchr c xs = None \<longleftrightarrow> c \<notin> set xs"
  by (induction xs) (auto split: option.splits)

lemma memrchr_SomeD:
  assumes "memrchr c xs = Some i"
  shows "i < length xs \<and> xs ! i = c \<and> c \<notin> set (drop (Suc i) xs)"
  using assms
proof (induction xs arbitrary: i)
  case (Cons x xs)
  then show ?case
    by (auto split: option.splits if_splits simp flip: memrchr_None_iff)
qed simp

lemma memrchr_append_mem: "c \<notin> set ys \<Longrightarrow> memrchr c (xs @ c # ys) = Some (length xs)"
proof (induction xs)
  case Nil
  then have "memrchr c ys = None" by (simp add: memrchr_None_iff)
  then show ?case by simp
qed simp

lemma c_str_id: "NUL \<notin> set s \<Longrightarrow> c_str s = s"
  by (auto simp: c_str_def takeWhile_eq_all_conv)

lemma c_str_append_NUL: "NUL \<notin> set s \<Longrightarrow> c_str (s @ NUL # r) = s"
  unfolding c_str_def by (subst takeWhile_append2) auto

lemma c_str_no_NUL: "NUL \<notin> set (c_str s)"
  by (auto simp: c_str_def dest: set_takeWhileD)

lemma length_realloc [simp]: "length (realloc junk n b) = n"
  by (simp add: realloc_def)

lemma take_realloc: "k \<le> n \<Longrightarrow> k \<le> length b \<Longrightarrow> take k (realloc junk n b) = take k b"
  by (simp add: realloc_def)

lemma buf_write_ok [buf_simps]:
  "off + length src \<le> length b \<Longrightarrow>
     buf_write off src b = Some (take off b @ src @ drop (off + length src) b)"
  by (simp add: buf_write_def)

lemma buf_write_length: "buf_write off src b = Some b' \<Longrightarrow> length b' = length b"
  by (auto simp: buf_write_def split: if_splits)

lemma buf_read_ok [buf_simps]: "off + n \<le> length b \<Longrightarrow> buf_read off n b = Some (take n (drop off b))"
  by (simp add: buf_read_def)

lemma memset_ok [buf_simps]:
  "off + n \<le> length b \<Longrightarrow>
     memset off x n b = Some (take off b @ replicate n x @ drop (off + n) b)"
  by (simp add: memset_def buf_simps)

lemma memmove_ok [buf_simps]:
  "dst + n \<le> length b \<Longrightarrow> src + n \<le> length b \<Longrightarrow>
     memmove dst src n b = Some (take dst b @ take n (drop src b) @ drop (dst + n) b)"
  by (simp add: memmove_def buf_simps)

lemma int_of_size_small [simp]: "n < 2 ^ 31 \<Longrightarrow> int_of_size n = int n"
  by (simp add: int_of_size_def signed_of_nat signed_take_bit_int_eq_self)

section \<open>Generic lemmas on lists\<close>

lemma take_Suc_append_nth: "n < length xs \<Longrightarrow> take (Suc n) xs = take n xs @ [xs ! n]"
  by (simp add: take_Suc_conv_app_nth)

lemma drop_append_exact: "length xs = n \<Longrightarrow> drop n (xs @ ys) = ys"
  by simp

lemma take_append_exact: "length xs = n \<Longrightarrow> take n (xs @ ys) = xs"
  by simp

lemma takeWhile_neq_append: "c \<notin> set xs \<Longrightarrow> takeWhile (\<lambda>x. x \<noteq> c) (xs @ c # ys) = xs"
  by (subst takeWhile_append2) auto

lemma dropWhile_neq_append: "c \<notin> set xs \<Longrightarrow> dropWhile (\<lambda>x. x \<noteq> c) (xs @ c # ys) = c # ys"
  by (subst dropWhile_append2) auto

text \<open>Moving the tail of a used prefix by one item, as insertion and removal do.\<close>

lemma memmove_up:
  "memmove (Suc (length xs)) (length xs) (length ys) (xs @ ys @ z # zs) =
     Some (xs @ hd (ys @ [z]) # ys @ zs)"
  by (cases ys) (simp_all add: memmove_ok)

lemma memmove_down:
  "memmove (length xs) (Suc (length xs)) (length ys) (xs @ x # ys @ zs) =
     Some (xs @ ys @ drop (length ys) (x # ys) @ zs)"
  using drop_append [of "length ys" "x # ys" zs] by (simp add: memmove_ok)

lemma buf_write_one: "buf_write (length xs) [y] (xs @ x # zs) = Some (xs @ y # zs)"
  by (simp add: buf_write_ok)

lemma used_prefix_split:
  assumes "n \<le> c" and "c \<le> length b"
  obtains xs ys zs where "b = xs @ ys @ zs" "length xs = n" "length ys = c - n" "take c b = xs @ ys"
proof (rule that)
  have "b = take c b @ drop c b" by simp
  also have "take c b = take n (take c b) @ drop n (take c b)" by (rule append_take_drop_id [symmetric])
  finally show "b = take n (take c b) @ drop n (take c b) @ drop c b" by simp
  show "length (take n (take c b)) = n" "length (drop n (take c b)) = c - n" using assms by simp_all
  show "take c b = take n (take c b) @ drop n (take c b)" by (rule append_take_drop_id [symmetric])
qed

section \<open>Lemmas on separated lists\<close>

lemma split_terminated_Nil [simp]: "split_terminated sep [] = []"
  by (simp add: split_terminated.simps)

lemma split_terminated_no_sep:
  "sep \<notin> set xs \<Longrightarrow> xs \<noteq> [] \<Longrightarrow> split_terminated sep xs = [xs]"
  by (subst split_terminated.simps)
    (metis (mono_tags, lifting) dropWhile_eq_Nil_conv list.sel(2) split_terminated_Nil takeWhile_eq_all_conv)

lemma split_terminated_sep:
  "sep \<notin> set xs \<Longrightarrow> split_terminated sep (xs @ sep # ys) = xs # split_terminated sep ys"
  by (subst split_terminated.simps) (auto simp: takeWhile_neq_append dropWhile_neq_append)

lemma split_terminated_append:
  "split_terminated sep (xs @ sep # ys) = split_terminated sep (xs @ [sep]) @ split_terminated sep ys"
proof (induction "length xs" arbitrary: xs rule: less_induct)
  case less
  show ?case
  proof (cases "sep \<in> set xs")
    case False
    then show ?thesis using split_terminated_sep [of sep xs "[]"] by (simp add: split_terminated_sep)
  next
    case True
    then obtain as bs where xs: "xs = as @ sep # bs" "sep \<notin> set as"
      by (meson split_list_first)
    with less [of bs] show ?thesis by (simp add: split_terminated_sep)
  qed
qed

lemma split_terminated_snoc:
  "xs \<noteq> [] \<Longrightarrow> last xs \<noteq> sep \<Longrightarrow> split_terminated sep (xs @ [sep]) = split_terminated sep xs"
proof (induction "length xs" arbitrary: xs rule: less_induct)
  case less
  show ?case
  proof (cases "sep \<in> set xs")
    case False
    with less(2) show ?thesis
      using split_terminated_sep [of sep xs "[]"] by (simp add: split_terminated_no_sep)
  next
    case True
    then obtain as bs where xs: "xs = as @ sep # bs" "sep \<notin> set as"
      by (meson split_list_first)
    with less(3) have "bs \<noteq> []" by auto
    with xs less(1) [of bs] less(3) show ?thesis by (simp add: split_terminated_sep)
  qed
qed

lemma split_terminated_join:
  "split_terminated sep (join_with sep xs ys) = split_terminated sep xs @ split_terminated sep ys"
proof (cases "xs = [] \<or> last xs \<noteq> sep")
  case True
  then show ?thesis
    using split_terminated_append [of sep xs ys] split_terminated_snoc [of xs sep]
    by (auto simp: join_with_def)
next
  case False
  then obtain zs where "xs = zs @ [sep]" by (metis append_butlast_last_id)
  then show ?thesis
    using split_terminated_append [of sep zs ys] by (simp add: join_with_def)
qed

lemma first_some_find:
  "first_some (\<lambda>x. if P x then Some (f x) else None) xs = map_option f (find P xs)"
  by (induction xs) auto

lemma first_some_None_iff: "first_some f xs = None \<longleftrightarrow> (\<forall>x \<in> set xs. f x = None)"
  by (induction xs) (auto split: option.splits)

lemma first_some_SomeD:
  "first_some f xs = Some y \<Longrightarrow> \<exists>x \<in> set xs. f x = Some y"
  by (induction xs) (auto split: option.splits)

end
