(* ===== verification/Crazy_Util.thy ===== *)
theory Crazy_Util
  imports Prelude
begin

text \<open>
  \<^verbatim>\<open>crazy_linker_util.h\<close> and \<^verbatim>\<open>crazy_linker_util.cpp\<close>: the base name of a path, the growable
  \<open>String\<close>, the growable \<open>Vector\<close> of plain items and the \<open>Set\<close> built on it. Each class is the
  record of its fields; the buffer behind \<open>ptr_\<close> or \<open>items_\<close> is a list, and \<open>String\<close>'s shared
  empty constant \<open>kEmpty\<close> is \<^term>\<open>None\<close>. Sizes are natural numbers (a process cannot hold
  \<open>2^31\<close> items of the kinds stored here, which is the only place where the width shows: the
  conversion of an index to \<open>int\<close>). An allocation is assumed to succeed, as the source does.
\<close>

section \<open>GetBaseNamePtr\<close>

definition GetBaseNamePtr :: "char list \<Rightarrow> char list" where
  "GetBaseNamePtr path =
     (case memrchr (CHR ''/'') path of
        None \<Rightarrow> path
      | Some p \<Rightarrow> drop (p + 1) path)"

lemma GetBaseNamePtr_no_slash: "CHR ''/'' \<notin> set (GetBaseNamePtr path)"
  by (auto simp: GetBaseNamePtr_def memrchr_None_iff dest: memrchr_SomeD split: option.splits)

lemma GetBaseNamePtr_id: "CHR ''/'' \<notin> set path \<Longrightarrow> GetBaseNamePtr path = path"
  by (simp add: GetBaseNamePtr_def memrchr_None_iff [THEN iffD2])

lemma GetBaseNamePtr_idem [simp]: "GetBaseNamePtr (GetBaseNamePtr path) = GetBaseNamePtr path"
  by (rule GetBaseNamePtr_id [OF GetBaseNamePtr_no_slash])

lemma GetBaseNamePtr_append:
  "CHR ''/'' \<notin> set base \<Longrightarrow> GetBaseNamePtr (dir @ CHR ''/'' # base) = base"
  by (simp add: GetBaseNamePtr_def memrchr_append_mem)

section \<open>String\<close>

record cstring =
  str_ptr :: "char list option"
  str_size :: nat
  str_capacity :: nat

text \<open>The buffer behind \<open>ptr_\<close>: \<open>kEmpty\<close> is the one-character array that holds the terminator.\<close>

definition str_buf :: "cstring \<Rightarrow> char list" where
  "str_buf s = (case str_ptr s of None \<Rightarrow> [NUL] | Some b \<Rightarrow> b)"

definition String_Init :: cstring where
  "String_Init = \<lparr>str_ptr = None, str_size = 0, str_capacity = 0\<rparr>"

text \<open>A write through \<open>ptr_\<close>; \<open>kEmpty\<close> is constant, writing it is undefined.\<close>

definition str_poke :: "(char list \<Rightarrow> char list option) \<Rightarrow> cstring \<Rightarrow> cstring option" where
  "str_poke f s =
     (case str_ptr s of
        None \<Rightarrow> None
      | Some b \<Rightarrow> map_option (\<lambda>b'. s\<lparr>str_ptr := Some b'\<rparr>) (f b))"

definition String_Reserve :: "(nat \<Rightarrow> char) \<Rightarrow> nat \<Rightarrow> cstring \<Rightarrow> cstring option" where
  "String_Reserve junk new_capacity s =
     (let old = (case str_ptr s of None \<Rightarrow> [] | Some b \<Rightarrow> b) in
      do {
        b \<leftarrow> buf_write new_capacity [NUL] (realloc junk (new_capacity + 1) old);
        Some \<lparr>str_ptr = Some b,
              str_size = (if str_size s > new_capacity then new_capacity else str_size s),
              str_capacity = new_capacity\<rparr>
      })"

text \<open>The growth loop of \<open>Resize\<close>.\<close>

function grow_capacity :: "nat \<Rightarrow> nat \<Rightarrow> nat" where
  "grow_capacity new_capacity new_size =
     (if new_capacity < new_size
      then grow_capacity (new_capacity + (new_capacity div 2 + 16)) new_size
      else new_capacity)"
  by pat_completeness auto
termination
  by (relation "measure (\<lambda>(c, n). n - c)") auto

declare grow_capacity.simps [simp del]

definition String_Resize :: "(nat \<Rightarrow> char) \<Rightarrow> nat \<Rightarrow> cstring \<Rightarrow> cstring option" where
  "String_Resize junk new_size s =
     do {
       s \<leftarrow> (if new_size > str_capacity s
            then String_Reserve junk (grow_capacity (str_capacity s) new_size) s
            else Some s);
       s \<leftarrow> (if new_size > str_size s
            then str_poke (memset (str_size s) NUL (new_size - str_size s)) s
            else Some s);
       let s = s\<lparr>str_size := new_size\<rparr>;
       if str_ptr s \<noteq> None then str_poke (buf_write new_size [NUL]) s else Some s
     }"

definition String_Assign :: "(nat \<Rightarrow> char) \<Rightarrow> char list \<Rightarrow> cstring \<Rightarrow> cstring option" where
  "String_Assign junk str s =
     do {
       s \<leftarrow> String_Resize junk (length str) s;
       if length str > 0
       then do {
         s \<leftarrow> str_poke (buf_write 0 str) s;
         s \<leftarrow> str_poke (buf_write (length str) [NUL]) s;
         Some (s\<lparr>str_size := length str\<rparr>)
       }
       else Some s
     }"

definition String_Append :: "(nat \<Rightarrow> char) \<Rightarrow> char list \<Rightarrow> cstring \<Rightarrow> cstring option" where
  "String_Append junk str s =
     (if length str > 0
      then do {
        let old_size = str_size s;
        s \<leftarrow> String_Resize junk (str_size s + length str) s;
        str_poke (buf_write old_size str) s
      }
      else Some s)"

text \<open>The constructors from a character array, from another string and from one character.\<close>

definition String_of_chars :: "(nat \<Rightarrow> char) \<Rightarrow> char list \<Rightarrow> cstring option" where
  "String_of_chars junk str = String_Assign junk str String_Init"

definition String_of_char :: "(nat \<Rightarrow> char) \<Rightarrow> char \<Rightarrow> cstring option" where
  "String_of_char junk ch = String_Assign junk [ch] String_Init"

definition String_copy :: "(nat \<Rightarrow> char) \<Rightarrow> cstring \<Rightarrow> cstring option" where
  "String_copy junk other = String_Assign junk (take (str_size other) (str_buf other)) String_Init"

definition String_IsEmpty :: "cstring \<Rightarrow> bool" where
  "String_IsEmpty s \<longleftrightarrow> str_size s = 0"

text \<open>What a string stores, and the invariant of the class.\<close>

definition str_chars :: "cstring \<Rightarrow> char list" where
  "str_chars s = take (str_size s) (str_buf s)"

definition str_inv :: "cstring \<Rightarrow> bool" where
  "str_inv s \<longleftrightarrow>
     (case str_ptr s of
        None \<Rightarrow> str_size s = 0 \<and> str_capacity s = 0
      | Some b \<Rightarrow> length b = str_capacity s + 1 \<and> str_size s \<le> str_capacity s \<and>
                  b ! str_size s = NUL)"

section \<open>The class \<open>Vector\<close>\<close>

text \<open>
  \<open>vec_items\<close> is the allocation behind \<open>items_\<close>, \<open>vec_count\<close> items of it are in use. The items past
  \<open>count_\<close> have no defined value; \<open>zero_item\<close> is the item whose bytes are all zero.
\<close>

record 'a vector =
  vec_items :: "'a list"
  vec_count :: nat
  vec_capacity :: nat

definition Vector_Init :: "'a vector" where
  "Vector_Init = \<lparr>vec_items = [], vec_count = 0, vec_capacity = 0\<rparr>"

definition Vector_IsEmpty :: "'a vector \<Rightarrow> bool" where
  "Vector_IsEmpty v \<longleftrightarrow> vec_count v = 0"

definition Vector_GetCount :: "'a vector \<Rightarrow> nat" where
  "Vector_GetCount v = vec_count v"

definition Vector_Get :: "'a vector \<Rightarrow> nat \<Rightarrow> 'a option" where
  "Vector_Get v index = (if index < length (vec_items v) then Some (vec_items v ! index) else None)"

fun IndexOf_loop :: "'a vector \<Rightarrow> 'a \<Rightarrow> nat list \<Rightarrow> int option" where
  "IndexOf_loop v item [] = Some (- 1)"
| "IndexOf_loop v item (n # ns) =
     do {
       x \<leftarrow> Vector_Get v n;
       if x = item then Some (int_of_size n) else IndexOf_loop v item ns
     }"

definition Vector_IndexOf :: "'a vector \<Rightarrow> 'a \<Rightarrow> int option" where
  "Vector_IndexOf v item = IndexOf_loop v item [0..<vec_count v]"

definition Vector_Reserve :: "(nat \<Rightarrow> 'a) \<Rightarrow> nat \<Rightarrow> 'a vector \<Rightarrow> 'a vector" where
  "Vector_Reserve junk new_capacity v =
     \<lparr>vec_items = realloc junk new_capacity (vec_items v),
      vec_count = (if vec_count v > new_capacity then new_capacity else vec_count v),
      vec_capacity = new_capacity\<rparr>"

definition Vector_InsertAt :: "(nat \<Rightarrow> 'a) \<Rightarrow> int \<Rightarrow> 'a \<Rightarrow> 'a vector \<Rightarrow> 'a vector option" where
  "Vector_InsertAt junk index item v =
     (let v = (if vec_count v \<ge> vec_capacity v
               then Vector_Reserve junk (vec_capacity v + vec_capacity v div 2 + 4) v else v);
          index = (if index < 0 then 0 else index);
          n = nat index
      in do {
        (n, b) \<leftarrow> (if n > vec_count v then Some (vec_count v, vec_items v)
                  else do {
                    b \<leftarrow> memmove (n + 1) n (vec_count v - n) (vec_items v);
                    Some (n, b)
                  });
        b \<leftarrow> buf_write n [item] b;
        Some (v\<lparr>vec_items := b, vec_count := vec_count v + 1\<rparr>)
      })"

definition Vector_RemoveAt :: "int \<Rightarrow> 'a vector \<Rightarrow> 'a vector option" where
  "Vector_RemoveAt index v =
     (if index < 0 then Some v
      else let n = nat index in
        if n \<ge> vec_count v then Some v
        else do {
          b \<leftarrow> memmove n (n + 1) (vec_count v - n - 1) (vec_items v);
          Some (v\<lparr>vec_items := b, vec_count := vec_count v - 1\<rparr>)
        })"

definition Vector_Resize :: "(nat \<Rightarrow> 'a) \<Rightarrow> 'a \<Rightarrow> nat \<Rightarrow> 'a vector \<Rightarrow> 'a vector option" where
  "Vector_Resize junk zero_item new_size v =
     (let v = (if new_size > vec_capacity v then Vector_Reserve junk new_size v else v)
      in do {
        b \<leftarrow> (if new_size > vec_count v
             then memset (vec_count v) zero_item (new_size - vec_count v) (vec_items v)
             else Some (vec_items v));
        Some (v\<lparr>vec_items := b, vec_count := new_size\<rparr>)
      })"

definition Vector_PushBack :: "(nat \<Rightarrow> 'a) \<Rightarrow> 'a \<Rightarrow> 'a vector \<Rightarrow> 'a vector option" where
  "Vector_PushBack junk item v = Vector_InsertAt junk (int_of_size (vec_count v)) item v"

definition Vector_PopFirst :: "'a vector \<Rightarrow> ('a \<times> 'a vector) option" where
  "Vector_PopFirst v =
     do {
       result \<leftarrow> Vector_Get v 0;
       v \<leftarrow> Vector_RemoveAt 0 v;
       Some (result, v)
     }"

definition Vector_PopLast :: "(nat \<Rightarrow> 'a) \<Rightarrow> 'a \<Rightarrow> 'a vector \<Rightarrow> ('a \<times> 'a vector) option" where
  "Vector_PopLast junk zero_item v =
     (if vec_count v = 0 then None
      else do {
        result \<leftarrow> Vector_Get v (vec_count v - 1);
        v \<leftarrow> Vector_Resize junk zero_item (vec_count v - 1) v;
        Some (result, v)
      })"

definition Vector_Remove :: "'a \<Rightarrow> 'a vector \<Rightarrow> 'a vector option" where
  "Vector_Remove item v =
     do {
       index \<leftarrow> Vector_IndexOf v item;
       if index \<ge> 0 then Vector_RemoveAt index v else Some v
     }"

definition Vector_Has :: "'a vector \<Rightarrow> 'a \<Rightarrow> bool option" where
  "Vector_Has v item = map_option (\<lambda>index. index \<ge> 0) (Vector_IndexOf v item)"

text \<open>What a vector stores, and the invariant of the class.\<close>

definition vec_list :: "'a vector \<Rightarrow> 'a list" where
  "vec_list v = take (vec_count v) (vec_items v)"

definition vec_inv :: "'a vector \<Rightarrow> bool" where
  "vec_inv v \<longleftrightarrow> length (vec_items v) = vec_capacity v \<and> vec_count v \<le> vec_capacity v"

section \<open>The class \<open>Set\<close>\<close>

definition Set_Has :: "'a vector \<Rightarrow> 'a \<Rightarrow> bool option" where
  "Set_Has items item = Vector_Has items item"

definition Set_Add :: "(nat \<Rightarrow> 'a) \<Rightarrow> 'a \<Rightarrow> 'a vector \<Rightarrow> (bool \<times> 'a vector) option" where
  "Set_Add junk item items =
     do {
       idx \<leftarrow> Vector_IndexOf items item;
       if idx \<ge> 0 then Some (False, items)
       else do {
         items \<leftarrow> Vector_PushBack junk item items;
         Some (True, items)
       }
     }"

definition Set_Del :: "'a \<Rightarrow> 'a vector \<Rightarrow> (bool \<times> 'a vector) option" where
  "Set_Del item items =
     do {
       idx \<leftarrow> Vector_IndexOf items item;
       if idx < 0 then Some (False, items)
       else do {
         items \<leftarrow> Vector_RemoveAt idx items;
         Some (True, items)
       }
     }"

section \<open>Sequences of operations and their specification on lists\<close>

datatype str_op = OpAssign "char list" | OpAppend "char list" | OpResize nat

fun str_exec :: "(nat \<Rightarrow> char) \<Rightarrow> str_op \<Rightarrow> cstring \<Rightarrow> cstring option" where
  "str_exec junk (OpAssign str) s = String_Assign junk str s"
| "str_exec junk (OpAppend str) s = String_Append junk str s"
| "str_exec junk (OpResize n) s = String_Resize junk n s"

fun str_abs :: "str_op \<Rightarrow> char list \<Rightarrow> char list" where
  "str_abs (OpAssign str) cs = str"
| "str_abs (OpAppend str) cs = cs @ str"
| "str_abs (OpResize n) cs = take n cs @ replicate (n - length cs) NUL"

datatype 'a vec_op = OpPushBack 'a | OpInsertAt int 'a | OpRemoveAt int | OpRemove 'a

fun vec_exec :: "(nat \<Rightarrow> 'a) \<Rightarrow> 'a vec_op \<Rightarrow> 'a vector \<Rightarrow> 'a vector option" where
  "vec_exec junk (OpPushBack x) v = Vector_PushBack junk x v"
| "vec_exec junk (OpInsertAt i x) v = Vector_InsertAt junk i x v"
| "vec_exec junk (OpRemoveAt i) v = Vector_RemoveAt i v"
| "vec_exec junk (OpRemove x) v = Vector_Remove x v"

fun vec_abs :: "'a vec_op \<Rightarrow> 'a list \<Rightarrow> 'a list" where
  "vec_abs (OpPushBack x) xs = xs @ [x]"
| "vec_abs (OpInsertAt i x) xs = take (nat i) xs @ x # drop (nat i) xs"
| "vec_abs (OpRemoveAt i) xs = (if i < 0 then xs else take (nat i) xs @ drop (nat i + 1) xs)"
| "vec_abs (OpRemove x) xs = remove1 x xs"

text \<open>Running a sequence of operations, the first one first.\<close>

fun run_ops :: "('op \<Rightarrow> 's \<Rightarrow> 's option) \<Rightarrow> 'op list \<Rightarrow> 's \<Rightarrow> 's option" where
  "run_ops exec [] s = Some s"
| "run_ops exec (op # ops) s = exec op s \<bind> run_ops exec ops"

section \<open>Lemmas on \<open>String\<close>\<close>

lemma grow_capacity_bounds: "new_size \<le> grow_capacity c new_size \<and> c \<le> grow_capacity c new_size"
proof (induction c new_size rule: grow_capacity.induct)
  case (1 c n)
  then show ?case
    by (cases "c < n") (simp_all add: grow_capacity.simps [of c n])
qed

lemma str_inv_Init [simp, inv_intros]: "str_inv String_Init"
  by (simp add: str_inv_def String_Init_def)

lemma str_chars_Init [simp]: "str_chars String_Init = []"
  by (simp add: str_chars_def String_Init_def)

lemma length_str_chars [simp]: "str_inv s \<Longrightarrow> length (str_chars s) = str_size s"
  by (auto simp: str_inv_def str_chars_def str_buf_def split: option.splits)

lemma str_inv_rec:
  "str_inv \<lparr>str_ptr = Some b, str_size = n, str_capacity = c\<rparr> \<longleftrightarrow> length b = c + 1 \<and> n \<le> c \<and> b ! n = NUL"
  by (simp add: str_inv_def)

lemma str_chars_rec: "str_chars \<lparr>str_ptr = Some b, str_size = n, str_capacity = c\<rparr> = take n b"
  by (simp add: str_chars_def str_buf_def)

lemmas str_rec = str_inv_rec str_chars_rec nth_append min_def

text \<open>\<open>Reserve\<close> keeps the content; the terminator is only in place again after \<open>Resize\<close>.\<close>

lemma String_Reserve_spec:
  assumes "str_inv s" and "str_size s \<le> n"
  shows "\<exists>b. String_Reserve junk n s = Some \<lparr>str_ptr = Some b, str_size = str_size s, str_capacity = n\<rparr> \<and>
             length b = n + 1 \<and> take (str_size s) b = str_chars s"
  using assms
  by (auto simp: String_Reserve_def str_inv_def str_chars_def str_buf_def buf_simps take_realloc
      split: option.splits)

lemma String_Resize_spec:
  assumes inv: "str_inv s"
  shows "\<exists>s'. String_Resize junk n s = Some s' \<and> str_inv s' \<and>
              str_chars s' = take n (str_chars s) @ replicate (n - str_size s) NUL"
proof -
  have fill: "\<exists>s'. (do {
       s \<leftarrow> (if n > str_size t then str_poke (memset (str_size t) NUL (n - str_size t)) t else Some t);
       let s = s\<lparr>str_size := n\<rparr>;
       if str_ptr s \<noteq> None then str_poke (buf_write n [NUL]) s else Some s}) = Some s' \<and> str_inv s' \<and>
       str_chars s' = take n (str_chars s) @ replicate (n - str_size s) NUL"
    if t: "t = \<lparr>str_ptr = Some b, str_size = str_size s, str_capacity = c\<rparr>"
      "length b = c + 1" "n \<le> c" "str_size s \<le> c" "take (str_size s) b = str_chars s" for t b c
  proof (cases "n > str_size s")
    case True
    with t inv show ?thesis by (simp add: str_poke_def buf_simps str_rec)
  next
    case False
    then have "take n b = take n (str_chars s)" by (simp flip: t(5))
    with False t inv show ?thesis by (simp add: str_poke_def buf_simps str_rec)
  qed
  show ?thesis
  proof (cases "n > str_capacity s")
    case True
    let ?c = "grow_capacity (str_capacity s) n"
    have c: "n \<le> ?c" "str_size s \<le> ?c"
      using grow_capacity_bounds [of n "str_capacity s"] inv
      by (auto simp: str_inv_def split: option.splits)
    from String_Reserve_spec [OF inv c(2), of junk] obtain b where
      "String_Reserve junk ?c s = Some \<lparr>str_ptr = Some b, str_size = str_size s, str_capacity = ?c\<rparr>"
      "length b = ?c + 1" "take (str_size s) b = str_chars s" by blast
    with fill [OF refl _ c] True show ?thesis
      by (simp add: String_Resize_def)
  next
    case False
    show ?thesis
    proof (cases "str_ptr s")
      case None
      with inv False show ?thesis
        by (auto simp: String_Resize_def str_inv_def str_chars_def str_buf_def Let_def)
    next
      case (Some b)
      with inv have "length b = str_capacity s + 1" "str_size s \<le> str_capacity s"
        "take (str_size s) b = str_chars s" "s = \<lparr>str_ptr = Some b, str_size = str_size s, str_capacity = str_capacity s\<rparr>"
        by (auto simp: str_inv_def str_chars_def str_buf_def)
      with fill [of s b "str_capacity s"] False show ?thesis
        by (simp add: String_Resize_def)
    qed
  qed
qed

text \<open>\<open>Assign\<close> and \<open>Append\<close> stay inside the buffer, keep the invariant and store what they say.\<close>

lemma str_inv_SomeD:
  assumes "str_inv s" and "0 < str_size s"
  obtains b where "str_ptr s = Some b" "length b = str_capacity s + 1" "str_size s \<le> str_capacity s"
    "b ! str_size s = NUL"
  using assms by (auto simp: str_inv_def split: option.splits)

lemma String_Assign_spec:
  assumes inv: "str_inv s"
  shows "\<exists>s'. String_Assign junk str s = Some s' \<and> str_inv s' \<and> str_chars s' = str"
proof -
  from String_Resize_spec [OF inv, of junk "length str"] obtain t where
    t: "String_Resize junk (length str) s = Some t" "str_inv t" and
    ct: "str_chars t = take (length str) (str_chars s) @ replicate (length str - str_size s) NUL"
    by blast
  have sz: "str_size t = length str"
    using arg_cong [OF ct, of length] t(2) inv by simp
  show ?thesis
  proof (cases "str = []")
    case True
    with t ct show ?thesis by (simp add: String_Assign_def)
  next
    case False
    with sz have "0 < str_size t" by simp
    with t(2) obtain b where b: "str_ptr t = Some b" "length b = str_capacity t + 1"
      "str_size t \<le> str_capacity t" by (rule str_inv_SomeD)
    with t False sz show ?thesis
      by (auto simp: String_Assign_def str_poke_def buf_simps str_inv_def str_chars_def str_buf_def
          nth_append min_def)
  qed
qed

lemma String_Append_spec:
  assumes inv: "str_inv s"
  shows "\<exists>s'. String_Append junk str s = Some s' \<and> str_inv s' \<and> str_chars s' = str_chars s @ str"
proof (cases "str = []")
  case True
  with inv show ?thesis by (simp add: String_Append_def)
next
  case False
  from String_Resize_spec [OF inv, of junk "str_size s + length str"] obtain t where
    t: "String_Resize junk (str_size s + length str) s = Some t" "str_inv t" and
    ct: "str_chars t = str_chars s @ replicate (length str) NUL"
    using inv by auto
  have sz: "str_size t = str_size s + length str"
    using arg_cong [OF ct, of length] t(2) inv by simp
  with False have "0 < str_size t" by simp
  with t(2) obtain b where b: "str_ptr t = Some b" "length b = str_capacity t + 1"
    "str_size t \<le> str_capacity t" "b ! str_size t = NUL" by (rule str_inv_SomeD)
  have "take (str_size s) b = str_chars s"
    using arg_cong [OF ct, of "take (str_size s)"] b sz inv
    by (simp add: str_chars_def [of t] str_buf_def)
  with t(1) False sz b inv show ?thesis
    by (auto simp: String_Append_def str_poke_def buf_simps nth_append str_buf_def
        str_inv_def [of "t\<lparr>str_ptr := x\<rparr>" for x] str_chars_def [of "t\<lparr>str_ptr := x\<rparr>" for x])
qed

section \<open>Lemmas on \<open>Vector\<close>\<close>

lemma vec_inv_Init [simp, inv_intros]: "vec_inv Vector_Init"
  by (simp add: vec_inv_def Vector_Init_def)

lemma vec_list_Init [simp]: "vec_list Vector_Init = []"
  by (simp add: vec_list_def Vector_Init_def)

lemma length_vec_list [simp]: "vec_inv v \<Longrightarrow> length (vec_list v) = vec_count v"
  by (simp add: vec_list_def vec_inv_def)

lemma Vector_Get_ok [simp]:
  "vec_inv v \<Longrightarrow> n < vec_count v \<Longrightarrow> Vector_Get v n = Some (vec_list v ! n)"
  by (simp add: Vector_Get_def vec_list_def vec_inv_def)

lemma IndexOf_loop_from:
  assumes "vec_inv v" and "vec_count v \<le> 2 ^ 31" and "k \<le> vec_count v"
  shows "IndexOf_loop v item [k..<vec_count v] =
     Some (case memchr item (drop k (vec_list v)) of None \<Rightarrow> - 1 | Some n \<Rightarrow> int (k + n))"
  using assms(3)
proof (induction "vec_count v - k" arbitrary: k)
  case 0
  with assms(1) show ?case by simp
next
  case (Suc d)
  then have k: "k < vec_count v" by simp
  have "drop k (vec_list v) = vec_list v ! k # drop (Suc k) (vec_list v)"
    using k assms(1) by (simp add: Cons_nth_drop_Suc)
  with Suc.hyps(1) [of "Suc k"] Suc.hyps(2) k assms(1,2) show ?case
    by (simp add: upt_conv_Cons split: option.splits)
qed

lemma Vector_IndexOf_spec:
  assumes "vec_inv v" and "vec_count v \<le> 2 ^ 31"
  shows "Vector_IndexOf v item =
     Some (case memchr item (vec_list v) of None \<Rightarrow> - 1 | Some n \<Rightarrow> int n)"
  using IndexOf_loop_from [OF assms, of 0 item]
  by (simp add: Vector_IndexOf_def split: option.splits)

lemma Vector_Reserve_spec:
  assumes "vec_inv v" and "vec_count v \<le> n"
  shows "vec_inv (Vector_Reserve junk n v)" "vec_list (Vector_Reserve junk n v) = vec_list v"
    "vec_count (Vector_Reserve junk n v) = vec_count v" "vec_capacity (Vector_Reserve junk n v) = n"
  using assms by (auto simp: vec_inv_def Vector_Reserve_def vec_list_def take_realloc)

lemma Vector_InsertAt_spec:
  assumes inv: "vec_inv v"
  shows "\<exists>v'. Vector_InsertAt junk i item v = Some v' \<and> vec_inv v' \<and>
              vec_list v' = take (nat i) (vec_list v) @ item # drop (nat i) (vec_list v)"
proof -
  define w where "w = (if vec_count v \<ge> vec_capacity v
               then Vector_Reserve junk (vec_capacity v + vec_capacity v div 2 + 4) v else v)"
  have w: "vec_inv w" "vec_list w = vec_list v" "vec_count w = vec_count v" "vec_count w < vec_capacity w"
    using inv Vector_Reserve_spec [of v "vec_capacity v + vec_capacity v div 2 + 4" junk]
    by (auto simp: w_def vec_inv_def)
  have n: "nat (if i < 0 then 0 else i) = nat i" by simp
  have eq: "Vector_InsertAt junk i item v = do {
        (n, b) \<leftarrow> (if nat i > vec_count w then Some (vec_count w, vec_items w)
                  else do {
                    b \<leftarrow> memmove (nat i + 1) (nat i) (vec_count w - nat i) (vec_items w);
                    Some (nat i, b)
                  });
        b \<leftarrow> buf_write n [item] b;
        Some (w\<lparr>vec_items := b, vec_count := vec_count w + 1\<rparr>)
      }"
    unfolding Vector_InsertAt_def Let_def n w_def [symmetric] by (rule refl)
  show ?thesis
  proof (cases "nat i > vec_count w")
    case True
    with w show ?thesis
      unfolding eq w(2) [symmetric]
      by (auto simp: buf_simps vec_inv_def vec_list_def min_def)
  next
    case False
    then obtain xs ys zs where b: "vec_items w = xs @ ys @ zs" "length xs = nat i"
      "length ys = vec_count w - nat i" "take (vec_count w) (vec_items w) = xs @ ys"
      using used_prefix_split [of "nat i" "vec_count w" "vec_items w"] w(1,4)
      by (auto simp: vec_inv_def)
    moreover from b w False obtain z zs' where zs: "zs = z # zs'"
      by (cases zs) (auto simp: vec_inv_def)
    moreover from b False have "Suc (vec_count w) - nat i = Suc (length ys)" by simp
    ultimately show ?thesis
      using False w(1,3,4) memmove_up [of xs ys z zs'] buf_write_one [of xs item "hd (ys @ [z])" "ys @ zs'"]
      unfolding eq w(2) [symmetric] by (auto simp: vec_inv_def vec_list_def)
  qed
qed

lemma Vector_RemoveAt_spec:
  assumes "vec_inv v" and "i \<ge> 0"
  shows "\<exists>v'. Vector_RemoveAt i v = Some v' \<and> vec_inv v' \<and>
              vec_list v' = take (nat i) (vec_list v) @ drop (nat i + 1) (vec_list v)"
proof (cases "nat i < vec_count v")
  case False
  with assms show ?thesis by (simp add: Vector_RemoveAt_def)
next
  case True
  then obtain xs ys zs where b: "vec_items v = xs @ ys @ zs" "length xs = nat i"
    "length ys = vec_count v - nat i" "take (vec_count v) (vec_items v) = xs @ ys"
    using used_prefix_split [of "nat i" "vec_count v" "vec_items v"] assms(1)
    by (auto simp: vec_inv_def)
  moreover from b True obtain y ys' where y: "ys = y # ys'" by (cases ys) auto
  moreover from b y True have "vec_count v - Suc (nat i) = length ys'"
    "vec_count v - Suc 0 = nat i + length ys'" by simp_all
  ultimately show ?thesis
    using assms True memmove_down [of xs ys' y zs]
    by (auto simp: Vector_RemoveAt_def vec_inv_def vec_list_def Let_def)
qed

lemma Vector_RemoveAt_negative [simp]: "i < 0 \<Longrightarrow> Vector_RemoveAt i v = Some v"
  by (simp add: Vector_RemoveAt_def)

lemma Vector_Resize_spec:
  assumes "vec_inv v"
  shows "\<exists>v'. Vector_Resize junk zero_item n v = Some v' \<and> vec_inv v' \<and>
              vec_list v' = take n (vec_list v) @ replicate (n - vec_count v) zero_item"
  using assms
  by (auto simp: Vector_Resize_def Let_def buf_simps vec_inv_def vec_list_def min_def
      Vector_Reserve_def take_realloc)

lemma Vector_PushBack_spec:
  assumes "vec_inv v" and "vec_count v < 2 ^ 31"
  shows "\<exists>v'. Vector_PushBack junk item v = Some v' \<and> vec_inv v' \<and> vec_list v' = vec_list v @ [item]"
  using Vector_InsertAt_spec [OF assms(1), of junk "int (vec_count v)" item] assms
  by (simp add: Vector_PushBack_def)

lemma Vector_PopFirst_spec:
  assumes "vec_inv v" and "vec_list v = x # xs"
  shows "\<exists>v'. Vector_PopFirst v = Some (x, v') \<and> vec_inv v' \<and> vec_list v' = xs"
proof -
  have "0 < vec_count v" using length_vec_list [OF assms(1)] assms(2) by simp
  with assms Vector_RemoveAt_spec [of v 0] show ?thesis
    by (auto simp: Vector_PopFirst_def)
qed

lemma Vector_PopLast_spec:
  assumes "vec_inv v" and "vec_list v = xs @ [x]"
  shows "\<exists>v'. Vector_PopLast junk zero_item v = Some (x, v') \<and> vec_inv v' \<and> vec_list v' = xs"
proof -
  have "vec_count v = Suc (length xs)" using length_vec_list [OF assms(1)] assms(2) by simp
  with assms Vector_Resize_spec [OF assms(1), of junk zero_item "length xs"] show ?thesis
    by (auto simp: Vector_PopLast_def)
qed

lemma Vector_Has_spec:
  assumes "vec_inv v" and "vec_count v \<le> 2 ^ 31"
  shows "Vector_Has v x = Some (x \<in> set (vec_list v))"
  using Vector_IndexOf_spec [OF assms, of x] memchr_None_iff [of x "vec_list v"]
  by (auto simp: Vector_Has_def split: option.splits)

section \<open>What \<open>Set\<close> relies on\<close>

lemma remove_nth_distinct:
  assumes "distinct xs" and "memchr x xs = Some n"
  shows "distinct (take n xs @ drop (Suc n) xs) \<and> set (take n xs @ drop (Suc n) xs) = set xs - {x}"
proof -
  have "xs = take n xs @ x # drop (Suc n) xs"
    using memchr_SomeD [OF assms(2)] id_take_nth_drop [of n xs] by simp
  then obtain ys zs where "xs = ys @ x # zs" "take n xs = ys" "drop (Suc n) xs = zs" by blast
  with assms(1) show ?thesis by auto
qed

text \<open>
  The contract between \<open>Set\<close> and the container under it: the three operations \<open>Add\<close> and \<open>Del\<close>
  call, described on the list of the items stored. The limit is the number of items up to which
  an index fits the \<open>int\<close> the source returns it in.
\<close>

locale item_store =
  fixes inv :: "'s \<Rightarrow> bool"
    and content :: "'s \<Rightarrow> 'a list"
    and limit :: nat
    and index_of :: "'s \<Rightarrow> 'a \<Rightarrow> int option"
    and push_back :: "'a \<Rightarrow> 's \<Rightarrow> 's option"
    and remove_at :: "int \<Rightarrow> 's \<Rightarrow> 's option"
  assumes index_of_law: "inv s \<Longrightarrow> length (content s) \<le> limit \<Longrightarrow>
      index_of s x = Some (case memchr x (content s) of None \<Rightarrow> - 1 | Some n \<Rightarrow> int n)"
    and push_back_law: "inv s \<Longrightarrow> length (content s) < limit \<Longrightarrow>
      \<exists>s'. push_back x s = Some s' \<and> inv s' \<and> content s' = content s @ [x]"
    and remove_at_law: "inv s \<Longrightarrow> 0 \<le> i \<Longrightarrow>
      \<exists>s'. remove_at i s = Some s' \<and> inv s' \<and>
           content s' = take (nat i) (content s) @ drop (nat i + 1) (content s)"
begin

lemma add_spec:
  assumes "inv s" and "distinct (content s)" and "length (content s) < limit"
  shows "\<exists>s'. do {
       idx \<leftarrow> index_of s x;
       if idx \<ge> 0 then Some (False, s)
       else do {
         s \<leftarrow> push_back x s;
         Some (True, s)
       }
     } = Some (x \<notin> set (content s), s') \<and> inv s' \<and> distinct (content s') \<and>
     set (content s') = insert x (set (content s))"
proof (cases "memchr x (content s)")
  case None
  with assms push_back_law [of s x] index_of_law [of s x] show ?thesis
    by (auto simp: memchr_None_iff)
next
  case (Some n)
  moreover from Some have "x \<in> set (content s)" using memchr_None_iff [of x "content s"] by auto
  ultimately show ?thesis using assms index_of_law [of s x] by auto
qed

lemma del_spec:
  assumes "inv s" and "distinct (content s)" and "length (content s) \<le> limit"
  shows "\<exists>s'. do {
       idx \<leftarrow> index_of s x;
       if idx < 0 then Some (False, s)
       else do {
         s \<leftarrow> remove_at idx s;
         Some (True, s)
       }
     } = Some (x \<in> set (content s), s') \<and> inv s' \<and> distinct (content s') \<and>
     set (content s') = set (content s) - {x}"
proof (cases "memchr x (content s)")
  case None
  with assms index_of_law [of s x] show ?thesis
    by (auto simp: memchr_None_iff)
next
  case (Some n)
  moreover from Some have "x \<in> set (content s)" using memchr_None_iff [of x "content s"] by auto
  ultimately show ?thesis
    using assms index_of_law [of s x] remove_at_law [of s "int n"] remove_nth_distinct [of "content s" x n]
    by auto
qed

end

interpretation vector_store: item_store vec_inv vec_list "2 ^ 31" Vector_IndexOf "Vector_PushBack junk"
  Vector_RemoveAt
  for junk :: "nat \<Rightarrow> 'a"
  by unfold_locales (simp_all add: Vector_IndexOf_spec Vector_PushBack_spec Vector_RemoveAt_spec [simplified])

section \<open>Properties\<close>

lemma run_ops_refine:
  assumes "R s a" and "\<And>op s a. op \<in> set ops \<Longrightarrow> R s a \<Longrightarrow> \<exists>s'. exec op s = Some s' \<and> R s' (spec op a)"
  shows "\<exists>s'. run_ops exec ops s = Some s' \<and> R s' (fold spec ops a)"
  using assms
proof (induction ops arbitrary: s a)
  case (Cons op ops)
  from Cons.prems(2) [of op s a] Cons.prems(1) obtain s1 where
    "exec op s = Some s1" "R s1 (spec op a)" by auto
  with Cons.IH [of s1 "spec op a"] Cons.prems(2) show ?case by auto
qed simp

lemma str_exec_refines:
  assumes "str_inv s"
  shows "\<exists>s'. str_exec junk op s = Some s' \<and> str_inv s' \<and> str_chars s' = str_abs op (str_chars s)"
  using assms String_Assign_spec String_Append_spec String_Resize_spec by (cases op) simp_all

lemma remove1_memchr:
  "remove1 x xs = (case memchr x xs of None \<Rightarrow> xs | Some n \<Rightarrow> take n xs @ drop (Suc n) xs)"
  by (induction xs) (auto split: option.splits)

lemma Vector_Remove_spec:
  assumes "vec_inv v" and "vec_count v \<le> 2 ^ 31"
  shows "\<exists>v'. Vector_Remove x v = Some v' \<and> vec_inv v' \<and> vec_list v' = remove1 x (vec_list v)"
proof (cases "memchr x (vec_list v)")
  case None
  with Vector_IndexOf_spec [OF assms, of x] assms(1) show ?thesis
    by (simp add: Vector_Remove_def remove1_memchr)
next
  case (Some n)
  with Vector_IndexOf_spec [OF assms, of x] Vector_RemoveAt_spec [OF assms(1), of "int n"] show ?thesis
    by (simp add: Vector_Remove_def remove1_memchr)
qed

text \<open>Bounded growth: every operation adds at most one item.\<close>

lemma length_vec_abs: "length (vec_abs op xs) \<le> Suc (length xs)"
  by (cases op) (auto simp: length_remove1)

lemma vec_run_refines:
  assumes "vec_inv v" and "length (vec_list v) + length ops \<le> 2 ^ 31"
  shows "\<exists>v'. run_ops (vec_exec junk) ops v = Some v' \<and> vec_inv v' \<and>
              vec_list v' = fold vec_abs ops (vec_list v)"
  using assms
proof (induction ops arbitrary: v)
  case (Cons op ops)
  have "\<exists>v'. vec_exec junk op v = Some v' \<and> vec_inv v' \<and> vec_list v' = vec_abs op (vec_list v)"
  proof (cases op)
    case (OpPushBack x)
    with Vector_PushBack_spec [of v junk x] Cons.prems show ?thesis by simp
  next
    case (OpInsertAt i x)
    with Vector_InsertAt_spec [of v junk i x] Cons.prems show ?thesis by simp
  next
    case (OpRemoveAt i)
    with Vector_RemoveAt_spec [of v i] Cons.prems show ?thesis by simp
  next
    case (OpRemove x)
    with Vector_Remove_spec [of v x] Cons.prems show ?thesis by simp
  qed
  then obtain v1 where v1: "vec_exec junk op v = Some v1" "vec_inv v1"
    "vec_list v1 = vec_abs op (vec_list v)" by blast
  have "length (vec_list v1) + length ops \<le> 2 ^ 31"
    using Cons.prems(2) length_vec_abs [of op "vec_list v"] v1(3) by simp
  with Cons.IH [OF v1(2)] v1 show ?case by simp
qed simp


text \<open>C35: Every sequence of fewer than \<open>2 ^ 31\<close> insertions and removals on a \<open>Vector\<close> stays inside
  the allocation, keeps the invariant and yields the list that the sequence describes. The bound
  is the one the conversion of an index to \<open>int\<close> imposes.\<close>

theorem Vector_ops_refine_lists:
  assumes "length ops \<le> 2 ^ 31"
  shows "\<exists>v. run_ops (vec_exec junk) ops Vector_Init = Some v \<and> vec_inv v \<and>
             vec_list v = fold vec_abs ops []"
  using vec_run_refines [of Vector_Init ops junk] assms by simp

theorem Vector_ops_refine_lists_witness:
  "\<exists>v. run_ops (vec_exec (\<lambda>_. 7)) [OpPushBack 1, OpPushBack 2, OpInsertAt 1 (3::int), OpRemove 2, OpRemoveAt 5]
        Vector_Init = Some v \<and> vec_inv v \<and> vec_list v = [1, 3]"
  using Vector_ops_refine_lists [of "[OpPushBack 1, OpPushBack 2, OpInsertAt 1 (3::int), OpRemove 2, OpRemoveAt 5]"]
  by simp

text \<open>\<open>Set\<close> is a set: \<open>Add\<close> and \<open>Del\<close> report whether the item was new or present, insert or
  delete exactly that item, never store it twice, and \<open>Has\<close> answers membership.\<close>

theorem Set_is_a_set:
  assumes "vec_inv v" and "distinct (vec_list v)" and "length (vec_list v) < 2 ^ 31"
  shows "Set_Has v x = Some (x \<in> set (vec_list v)) \<and>
    (\<exists>v'. Set_Add junk x v = Some (x \<notin> set (vec_list v), v') \<and> vec_inv v' \<and> distinct (vec_list v') \<and>
          set (vec_list v') = insert x (set (vec_list v))) \<and>
    (\<exists>v'. Set_Del x v = Some (x \<in> set (vec_list v), v') \<and> vec_inv v' \<and> distinct (vec_list v') \<and>
          set (vec_list v') = set (vec_list v) - {x})"
  using Vector_Has_spec [of v x] vector_store.add_spec [of v x junk] vector_store.del_spec [of v x] assms
  by (simp add: Set_Has_def Set_Add_def Set_Del_def)

theorem Set_is_a_set_witness:
  "Set_Has \<lparr>vec_items = [4, 5, 9::nat], vec_count = 2, vec_capacity = 3\<rparr> 4 = Some True \<and>
   (\<exists>v'. Set_Del 4 \<lparr>vec_items = [4, 5, 9::nat], vec_count = 2, vec_capacity = 3\<rparr> = Some (True, v') \<and>
         vec_inv v' \<and> distinct (vec_list v') \<and> set (vec_list v') = {4, 5} - {4})"
  using Set_is_a_set [of "\<lparr>vec_items = [4, 5, 9::nat], vec_count = 2, vec_capacity = 3\<rparr>" 4]
  by (simp add: vec_inv_def vec_list_def)

end
