(* ===== verification/Search_Path.thy ===== *)
theory Search_Path
  imports Crazy_Util
begin

text \<open>
  The list of directories the linker looks libraries up in, class \<open>SearchPathList\<close> of
  \<open>crazy_linker_search_path_list.cpp\<close>. The three \<open>String\<close> members are the characters they store
  (\<open>Crazy_Util\<close> shows that the string class implements lists of characters); the file system
  probe \<open>PathIsFile\<close> and the environment are arguments.
\<close>

record search_path_list =
  sp_list :: "char list"
  sp_env_list :: "char list"
  sp_full_path :: "char list"

definition SearchPathList_Init :: search_path_list where
  "SearchPathList_Init = \<lparr>sp_list = [], sp_env_list = [], sp_full_path = []\<rparr>"

definition SearchPathList_Reset :: "search_path_list \<Rightarrow> search_path_list" where
  "SearchPathList_Reset s = s\<lparr>sp_list := [], sp_env_list := [], sp_full_path := []\<rparr>"

definition ResetFromEnv :: "(char list \<Rightarrow> char list option) \<Rightarrow> char list \<Rightarrow> search_path_list \<Rightarrow> search_path_list" where
  "ResetFromEnv GetEnv var_name s =
     (let s = SearchPathList_Reset s in
      case GetEnv var_name of
        None \<Rightarrow> s
      | Some env \<Rightarrow> if env \<noteq> [] then s\<lparr>sp_env_list := env\<rparr> else s)"

definition AddPaths :: "char list \<Rightarrow> search_path_list \<Rightarrow> search_path_list" where
  "AddPaths lst s =
     (let s = (if length (sp_list s) > 0 \<and> sp_list s ! (length (sp_list s) - 1) \<noteq> CHR '':''
               then s\<lparr>sp_list := sp_list s @ [CHR '':'']\<rparr> else s)
      in s\<lparr>sp_list := sp_list s @ lst\<rparr>)"

text \<open>One round of the loop of \<open>FindFile\<close> takes the item up to the next colon.\<close>

definition next_item :: "char list \<Rightarrow> char list \<times> char list" where
  "next_item p =
     (case memchr (CHR '':'') p of
        Some n \<Rightarrow> (take n p, drop (n + 1) p)
      | None \<Rightarrow> (p, []))"

definition item_path :: "char list \<Rightarrow> char list \<Rightarrow> char list" where
  "item_path item file_name =
     (let full_path = item;
          full_path = (if length full_path > 0 \<and> full_path ! (length full_path - 1) \<noteq> CHR ''/''
                       then full_path @ [CHR ''/''] else full_path)
      in full_path @ file_name)"

function FindFile_loop ::
  "(char list \<Rightarrow> bool) \<Rightarrow> char list \<Rightarrow> char list \<Rightarrow> char list \<Rightarrow> char list option \<times> char list" where
  "FindFile_loop PathIsFile file_name full_path p =
     (if p = [] then (None, full_path)
      else let (item, p') = next_item p; full_path = item_path item file_name in
        if PathIsFile (c_str full_path) then (Some (c_str full_path), full_path)
        else FindFile_loop PathIsFile file_name full_path p')"
  by pat_completeness auto
termination
  by (relation "measure (\<lambda>(_, _, _, p). length p)")
    (auto simp: next_item_def split: option.splits dest: memchr_SomeD)

declare FindFile_loop.simps [simp del]

definition FindFile ::
  "(char list \<Rightarrow> bool) \<Rightarrow> char list option \<Rightarrow> search_path_list \<Rightarrow> char list option \<times> search_path_list" where
  "FindFile PathIsFile file_name s =
     (case file_name of
        None \<Rightarrow> (None, s)
      | Some name \<Rightarrow>
          if name = [] then (None, s)
          else
            let full_list = sp_list s;
                full_list =
                  (if length (sp_env_list s) > 0
                   then (if length full_list > 0 \<and> full_list ! (length full_list - 1) \<noteq> CHR '':''
                         then full_list @ [CHR '':''] else full_list) @ sp_env_list s
                   else full_list);
                (found, path) = FindFile_loop PathIsFile name (sp_full_path s) full_list
            in (found, s\<lparr>sp_full_path := path\<rparr>))"

text \<open>The reference: the directories of a colon-separated list, probed in their order.\<close>

definition candidates :: "char list \<Rightarrow> char list \<Rightarrow> char list list" where
  "candidates name lst = map (\<lambda>item. c_str (item_path item name)) (split_terminated (CHR '':'') lst)"

section \<open>Lemmas\<close>

lemma next_item_split:
  assumes "p \<noteq> []"
  shows "split_terminated (CHR '':'') p = fst (next_item p) # split_terminated (CHR '':'') (snd (next_item p))"
proof (cases "memchr (CHR '':'') p")
  case None
  then have "CHR '':'' \<notin> set p" by (simp add: memchr_None_iff)
  with None assms show ?thesis by (simp add: next_item_def split_terminated_no_sep)
next
  case (Some n)
  have p: "p = take n p @ CHR '':'' # drop (Suc n) p"
    using memchr_SomeD [OF Some] id_take_nth_drop [of n p] by simp
  have "CHR '':'' \<notin> set (take n p)"
    using memchr_SomeD [OF Some] by (metis (mono_tags, lifting) set_takeWhileD)
  with Some show ?thesis
    using split_terminated_sep [of "CHR '':''" "take n p" "drop (Suc n) p"] p
    by (simp add: next_item_def)
qed

lemma FindFile_loop_find:
  "fst (FindFile_loop is_file name fp p) = find is_file (candidates name p)"
proof (induction is_file name fp p rule: FindFile_loop.induct)
  case (1 is_file name fp p)
  show ?case
  proof (cases "p = []")
    case True
    then show ?thesis by (simp add: FindFile_loop.simps candidates_def)
  next
    case False
    with 1 [of "next_item p" "fst (next_item p)" "snd (next_item p)"] show ?thesis
      by (simp add: FindFile_loop.simps [of is_file name fp p] candidates_def
          next_item_split [OF False] case_prod_beta Let_def)
  qed
qed

lemma candidates_Nil: "candidates name [] = []"
  by (simp add: candidates_def)

lemma AddPaths_join: "sp_list (AddPaths lst s) = join_with (CHR '':'') (sp_list s) lst"
  by (cases "sp_list s = []") (simp_all add: AddPaths_def join_with_def last_conv_nth Let_def)

lemma AddPaths_env [simp]: "sp_env_list (AddPaths lst s) = sp_env_list s"
  by (simp add: AddPaths_def Let_def)

lemma fold_AddPaths:
  "candidates name (sp_list (fold AddPaths ps s)) = candidates name (sp_list s) @ concat (map (candidates name) ps)"
  "sp_env_list (fold AddPaths ps s) = sp_env_list s"
  by (induction ps arbitrary: s) (simp_all add: AddPaths_join candidates_def split_terminated_join)

lemma FindFile_find:
  assumes "name \<noteq> []"
  shows "fst (FindFile is_file (Some name) s) =
    find is_file (candidates name (sp_list s) @ candidates name (sp_env_list s))"
proof -
  have "fst (FindFile is_file (Some name) s) =
      find is_file (candidates name (if sp_env_list s = [] then sp_list s
        else join_with (CHR '':'') (sp_list s) (sp_env_list s)))"
    using assms by (cases "sp_list s = []")
      (simp_all add: FindFile_def FindFile_loop_find join_with_def last_conv_nth case_prod_beta Let_def)
  then show ?thesis by (simp add: candidates_def split_terminated_join)
qed

section \<open>Properties\<close>

text \<open>C40: After a reset from an environment variable and any number of \<open>AddPaths\<close> calls, \<open>FindFile\<close>
  returns the first existing file among the directories added, call by call and in the order each
  list gives, and then those of the environment variable; it returns nothing exactly when none of
  them has the file. Lists with or without a final colon make no difference.\<close>

theorem FindFile_first_match:
  assumes "name \<noteq> []"
  shows "fst (FindFile is_file (Some name) (fold AddPaths ps (ResetFromEnv GetEnv var s))) =
    find is_file (concat (map (candidates name) ps) @
      candidates name (case GetEnv var of None \<Rightarrow> [] | Some env \<Rightarrow> env))"
  by (auto simp: FindFile_find [OF assms] fold_AddPaths ResetFromEnv_def SearchPathList_Reset_def
      candidates_Nil Let_def split: option.splits)

theorem FindFile_first_match_witness:
  "fst (FindFile (\<lambda>p. p = ''/b/x'' \<or> p = ''/e/x'') (Some ''x'')
      (fold AddPaths [''/a:'', ''/b''] (ResetFromEnv (\<lambda>_. Some ''/e'') ''LD_LIBRARY_PATH''
        SearchPathList_Init))) = Some ''/b/x''"
proof -
  have "candidates ''x'' ''/a:'' = [''/a/x'']" "candidates ''x'' ''/b'' = [''/b/x'']"
    "candidates ''x'' ''/e'' = [''/e/x'']"
    by (simp_all add: candidates_def split_terminated.simps item_path_def c_str_def)
  then show ?thesis by (subst FindFile_first_match) simp_all
qed

end
