(* ===== verification/Crazy_System.thy ===== *)
theory Crazy_System
  imports Crazy_Util
begin

text \<open>
  The system layer of the linker. \<open>crazy_linker_system.cpp\<close> wraps \<open>open\<close>, \<open>read\<close>, \<open>stat\<close> and \<open>getcwd\<close>,
  which are arguments of the model; \<open>crazy_linker_system_mock.cpp\<close> replaces them by a file system
  and an environment in memory, which is modelled here and is the concrete provider of the
  interface \<open>byte_source\<close> that the line reader is proved against.
\<close>

section \<open>The list of system libraries\<close>

definition kSystemLibs :: "char list list" where
  "kSystemLibs =
     [''libandroid.so'', ''libc.so'', ''libdl.so'', ''libjnigraphics.so'',
      ''liblog.so'', ''libm.so'', ''libstdc++.so'', ''libz.so'',
      ''libEGL.so'', ''libGLESv1_CM.so'', ''libGLESv2.so'', ''libGLESv3.so'',
      ''libOpenMAXAL.so'', ''libOpenSLES.so'']"

definition IsSystemLibrary :: "char list \<Rightarrow> bool" where
  "IsSystemLibrary lib_name =
     (let base_name = (case memrchr (CHR ''/'') lib_name of
                         None \<Rightarrow> lib_name
                       | Some i \<Rightarrow> drop (i + 1) lib_name)
      in list_ex (\<lambda>lib. lib = base_name) kSystemLibs)"

section \<open>The current directory\<close>

text \<open>
  \<open>getcwd(buf, size)\<close> stores the directory and its terminator when they fit and fails otherwise.
  The loop doubles the capacity until they do; the string it returns keeps the size the buffer
  was given.
\<close>

definition getcwd :: "char list \<Rightarrow> nat \<Rightarrow> char list \<Rightarrow> char list option" where
  "getcwd cwd sz buf =
     (if length cwd < sz then buf_write 0 (cwd @ [NUL]) buf else None)"

definition resize_chars :: "nat \<Rightarrow> char list \<Rightarrow> char list" where
  "resize_chars n cs = take n cs @ replicate (n - length cs) NUL"

function GetCurrentDirectory_loop :: "char list \<Rightarrow> char list \<Rightarrow> nat \<Rightarrow> char list" where
  "GetCurrentDirectory_loop cwd result capacity =
     (if capacity = 0 then result else
      let result = resize_chars capacity result in
      case getcwd cwd capacity result of
        Some result \<Rightarrow> result
      | None \<Rightarrow> GetCurrentDirectory_loop cwd result (capacity * 2))"
  by pat_completeness auto
termination
  by (relation "measure (\<lambda>(cwd, result, capacity). Suc (length cwd) - capacity)")
    (auto simp: getcwd_def buf_write_def resize_chars_def split: if_splits)

declare GetCurrentDirectory_loop.simps [simp del]

definition GetCurrentDirectory :: "char list \<Rightarrow> char list" where
  "GetCurrentDirectory cwd = GetCurrentDirectory_loop cwd [] 128"

section \<open>The file system in memory\<close>

record mock_file_entry =
  mf_path :: "char list"
  mf_data :: "char list"

record mock_env_entry =
  var_name :: "char list"
  var_value :: "char list"

record mock_system =
  mock_files :: "mock_file_entry list"
  mock_environment :: "mock_env_entry list"
  mock_current_dir :: "char list"

definition MockSystem_AddFileEntry :: "mock_file_entry \<Rightarrow> mock_system \<Rightarrow> mock_system" where
  "MockSystem_AddFileEntry entry fs = fs\<lparr>mock_files := mock_files fs @ [entry]\<rparr>"

definition MockSystem_AddEnvEntry :: "mock_env_entry \<Rightarrow> mock_system \<Rightarrow> mock_system" where
  "MockSystem_AddEnvEntry entry fs = fs\<lparr>mock_environment := mock_environment fs @ [entry]\<rparr>"

definition MockSystem_SetCurrentDir :: "char list \<Rightarrow> mock_system \<Rightarrow> mock_system" where
  "MockSystem_SetCurrentDir path fs = fs\<lparr>mock_current_dir := path\<rparr>"

definition FindFileEntry :: "mock_system \<Rightarrow> char list \<Rightarrow> mock_file_entry option" where
  "FindFileEntry fs path = find (\<lambda>entry. path = c_str (mf_path entry)) (mock_files fs)"

definition FindEnvEntry :: "mock_system \<Rightarrow> char list \<Rightarrow> mock_env_entry option" where
  "FindEnvEntry fs name = find (\<lambda>entry. c_str (var_name entry) = name) (mock_environment fs)"

definition MockSystem_Reset :: "mock_system \<Rightarrow> mock_system" where
  "MockSystem_Reset fs = fs\<lparr>mock_files := [], mock_environment := [], mock_current_dir := ''/''\<rparr>"

definition mock_PathExists :: "mock_system \<Rightarrow> char list \<Rightarrow> bool" where
  "mock_PathExists fs path \<longleftrightarrow> FindFileEntry fs path \<noteq> None"

definition mock_PathIsFile :: "mock_system \<Rightarrow> char list \<Rightarrow> bool" where
  "mock_PathIsFile fs path = mock_PathExists fs path"

definition mock_GetEnv :: "mock_system \<Rightarrow> char list \<Rightarrow> char list option" where
  "mock_GetEnv fs name =
     (case FindEnvEntry fs name of
        None \<Rightarrow> None
      | Some entry \<Rightarrow> Some (c_str (var_value entry)))"

text \<open>
  An open file. A read returns the value of the call, the bytes it stores at the start of the
  buffer and the handle after it.
\<close>

record mock_file_handle =
  mh_data :: "char list"
  mh_offset :: nat

type_synonym 'fd read_call = "'fd \<Rightarrow> nat \<Rightarrow> int \<times> char list \<times> 'fd"

definition MockFileHandle_Open :: "mock_system \<Rightarrow> char list \<Rightarrow> mock_file_handle option" where
  "MockFileHandle_Open fs path =
     map_option (\<lambda>entry. \<lparr>mh_data = mf_data entry, mh_offset = 0\<rparr>) (FindFileEntry fs path)"

definition MockFileHandle_IsEof :: "mock_file_handle \<Rightarrow> bool" where
  "MockFileHandle_IsEof h \<longleftrightarrow> mh_offset h \<ge> length (mh_data h)"

definition MockFileHandle_Read :: "mock_file_handle read_call" where
  "MockFileHandle_Read h buffer_size =
     (if buffer_size = 0 then (0, [], h)
      else
        let avail = length (mh_data h) - mh_offset h in
        if avail = 0 then (0, [], h)
        else
          let n = (if buffer_size > avail then avail else buffer_size) in
          (int_of_size n, take n (drop (mh_offset h) (mh_data h)),
           h\<lparr>mh_offset := mh_offset h + n\<rparr>))"

definition MockFileHandle_SeekTo :: "int \<Rightarrow> mock_file_handle \<Rightarrow> int \<times> mock_file_handle" where
  "MockFileHandle_SeekTo offset h =
     (if offset < 0 then (- 1, h)
      else if offset > int (length (mh_data h)) then (- 1, h)
      else (0, h\<lparr>mh_offset := nat offset\<rparr>))"

definition mock_remaining :: "mock_file_handle \<Rightarrow> char list" where
  "mock_remaining h = drop (mh_offset h) (mh_data h)"

section \<open>What a client relies on\<close>

text \<open>
  The contract of \<open>read\<close> on a regular file: it delivers the next bytes of the file, at least one
  unless the file is at its end, and returns how many. The limit is the one of the \<open>int\<close> result.
\<close>

locale byte_source =
  fixes read :: "'fd read_call"
    and remaining :: "'fd \<Rightarrow> char list"
  assumes read_law: "0 < n \<Longrightarrow> n < 2 ^ 31 \<Longrightarrow> read fd n = (ret, bytes, fd') \<Longrightarrow>
      ret = int (length bytes) \<and> length bytes \<le> n \<and> remaining fd = bytes @ remaining fd' \<and>
      (bytes = [] \<longrightarrow> remaining fd = [])"

interpretation mock_file: byte_source MockFileHandle_Read mock_remaining
proof
  fix n :: nat and fd fd' :: mock_file_handle and ret :: int and bytes :: "char list"
  assume "0 < n" "n < 2 ^ 31" "MockFileHandle_Read fd n = (ret, bytes, fd')"
  then show "ret = int (length bytes) \<and> length bytes \<le> n \<and>
      mock_remaining fd = bytes @ mock_remaining fd' \<and> (bytes = [] \<longrightarrow> mock_remaining fd = [])"
    by (auto simp: MockFileHandle_Read_def mock_remaining_def Let_def min_def add.commute
        split: if_splits simp flip: drop_drop)
qed

end
