(* ===== verification/Line_Reader.thy ===== *)
theory Line_Reader
  imports Crazy_System
begin

text \<open>
  The class \<open>LineReader\<close> of \<open>crazy_linker_line_reader.cpp\<close>, which cuts a file into lines with a
  buffer that starts inside the object (\<open>buff0_\<close>, 128 bytes) and moves to the heap when a line
  does not fit. The function \<open>moves\<close> says for which new sizes \<open>realloc\<close> returns a block at another
  address; what it leaves in the new part of the block is \<open>junk\<close>.
\<close>

record line_reader =
  lr_eof :: bool
  line_start :: nat
  line_len :: nat
  buff_size :: nat
  buff_capacity :: nat
  lr_heap :: "char list option"
  buff0 :: "char list"

text \<open>\<open>buff_\<close> points to \<open>buff0_\<close> or to a heap block.\<close>

definition lr_buff :: "line_reader \<Rightarrow> char list" where
  "lr_buff r = (case lr_heap r of None \<Rightarrow> buff0 r | Some b \<Rightarrow> b)"

definition set_buff :: "char list \<Rightarrow> line_reader \<Rightarrow> line_reader" where
  "set_buff b r = (case lr_heap r of None \<Rightarrow> r\<lparr>buff0 := b\<rparr> | Some _ \<Rightarrow> r\<lparr>lr_heap := Some b\<rparr>)"

definition LineReader_Reset :: "line_reader \<Rightarrow> line_reader" where
  "LineReader_Reset r =
     r\<lparr>lr_eof := False, line_start := 0, line_len := 0, buff_size := 0,
       buff_capacity := length (buff0 r), lr_heap := None\<rparr>"

text \<open>\<open>Open\<close>; the flag is the result of \<open>OpenReadOnly\<close>.\<close>

definition LineReader_Open :: "bool \<Rightarrow> line_reader \<Rightarrow> line_reader" where
  "LineReader_Open opened r = (LineReader_Reset r)\<lparr>lr_eof := \<not> opened\<rparr>"

text \<open>The part of \<open>GetNextLine\<close> that makes room for more data.\<close>

definition grow_buffer :: "(nat \<Rightarrow> bool) \<Rightarrow> (nat \<Rightarrow> char) \<Rightarrow> line_reader \<Rightarrow> line_reader option" where
  "grow_buffer moves junk r =
     (let new_capacity = buff_capacity r * 2;
          old_buff = lr_heap r;
          new_buff = realloc junk new_capacity (case old_buff of None \<Rightarrow> [] | Some b \<Rightarrow> b);
          moved = (case old_buff of None \<Rightarrow> True | Some _ \<Rightarrow> moves new_capacity)
      in do {
        b \<leftarrow> (if moved
             then do {
               src \<leftarrow> buf_read 0 (buff_capacity r) (buff0 r);
               buf_write 0 src new_buff
             }
             else Some new_buff);
        Some (r\<lparr>lr_heap := Some b, buff_capacity := new_capacity\<rparr>)
      })"

text \<open>Moving what is left of the buffer to its start.\<close>

definition eat_start :: "line_reader \<Rightarrow> line_reader option" where
  "eat_start r =
     (if line_start r > 0
      then do {
        b \<leftarrow> memmove 0 (line_start r) (buff_size r - line_start r) (lr_buff r);
        Some ((set_buff b r)\<lparr>buff_size := buff_size r - line_start r, line_start := 0\<rparr>)
      }
      else Some r)"

text \<open>Filling the rest of the buffer from the file.\<close>

definition fill_buffer :: "'fd read_call \<Rightarrow> line_reader \<Rightarrow> 'fd \<Rightarrow> (line_reader \<times> 'fd) option" where
  "fill_buffer read r fd =
     (let avail = buff_capacity r - buff_size r;
          (ret, bytes, fd') = read fd avail
      in do {
        b \<leftarrow> buf_write (buff_size r) bytes (lr_buff r);
        let r = set_buff b r;
        let (r, ret) = (if ret \<le> 0 then (r\<lparr>lr_eof := True\<rparr>, 0) else (r, ret));
        Some (r\<lparr>buff_size := buff_size r + nat ret\<rparr>, fd')
      })"

text \<open>One round of the loop of \<open>GetNextLine\<close>: it returns (\<open>Inl\<close>) or goes round again (\<open>Inr\<close>).\<close>

definition GetNextLine_step ::
  "'fd read_call \<Rightarrow> (nat \<Rightarrow> bool) \<Rightarrow> (nat \<Rightarrow> char) \<Rightarrow> line_reader \<Rightarrow> 'fd \<Rightarrow>
     ((bool \<times> line_reader \<times> 'fd) + (line_reader \<times> 'fd)) option" where
  "GetNextLine_step read moves junk r fd =
     do {
       line \<leftarrow> buf_read (line_start r) (buff_size r - line_start r) (lr_buff r);
       case memchr NEWLINE line of
         Some n \<Rightarrow> Some (Inl (True, r\<lparr>line_len := n + 1\<rparr>, fd))
       | None \<Rightarrow> do {
           r \<leftarrow> eat_start r;
           if lr_eof r then
             if buff_size r > 0 \<and> buff_size r < buff_capacity r
             then do {
               b \<leftarrow> buf_write (buff_size r) [NEWLINE] (lr_buff r);
               Some (Inl (True, (set_buff b r)\<lparr>buff_size := buff_size r + 1, line_len := buff_size r + 1\<rparr>, fd))
             }
             else Some (Inl (False, r, fd))
           else do {
             r \<leftarrow> (if buff_size r = buff_capacity r then grow_buffer moves junk r else Some r);
             (r, fd) \<leftarrow> fill_buffer read r fd;
             Some (Inr (r, fd))
           }
         }
     }"

partial_function (option) GetNextLine_loop ::
  "'fd read_call \<Rightarrow> (nat \<Rightarrow> bool) \<Rightarrow> (nat \<Rightarrow> char) \<Rightarrow> line_reader \<Rightarrow> 'fd \<Rightarrow>
     (bool \<times> line_reader \<times> 'fd) option" where
  "GetNextLine_loop read moves junk r fd =
     GetNextLine_step read moves junk r fd \<bind>
       (\<lambda>out. case out of Inl res \<Rightarrow> Some res | Inr (r, fd) \<Rightarrow> GetNextLine_loop read moves junk r fd)"

definition GetNextLine ::
  "'fd read_call \<Rightarrow> (nat \<Rightarrow> bool) \<Rightarrow> (nat \<Rightarrow> char) \<Rightarrow> line_reader \<Rightarrow> 'fd \<Rightarrow>
     (bool \<times> line_reader \<times> 'fd) option" where
  "GetNextLine read moves junk r fd =
     GetNextLine_loop read moves junk (r\<lparr>line_start := line_start r + line_len r, line_len := 0\<rparr>) fd"

text \<open>The current line, as \<open>line()\<close> and \<open>length()\<close> give it.\<close>

definition LineReader_line :: "line_reader \<Rightarrow> char list option" where
  "LineReader_line r = buf_read (line_start r) (line_len r) (lr_buff r)"

text \<open>The client's loop \<open>while (reader.GetNextLine()) ...\<close>, collecting the lines.\<close>

partial_function (option) read_lines ::
  "'fd read_call \<Rightarrow> (nat \<Rightarrow> bool) \<Rightarrow> (nat \<Rightarrow> char) \<Rightarrow> line_reader \<Rightarrow> 'fd \<Rightarrow> char list list option" where
  "read_lines read moves junk r fd =
     GetNextLine read moves junk r fd \<bind>
       (\<lambda>(got, r, fd).
          if got then do {
            line \<leftarrow> LineReader_line r;
            rest \<leftarrow> read_lines read moves junk r fd;
            Some (line # rest)
          }
          else Some [])"

section \<open>The invariant\<close>

definition lr_inv :: "line_reader \<Rightarrow> bool" where
  "lr_inv r \<longleftrightarrow>
     length (buff0 r) = 128 \<and> length (lr_buff r) = buff_capacity r \<and>
     line_start r + line_len r \<le> buff_size r \<and> buff_size r \<le> buff_capacity r \<and>
     (case lr_heap r of None \<Rightarrow> buff_capacity r = 128 | Some _ \<Rightarrow> 256 \<le> buff_capacity r) \<and>
     (lr_eof r \<longrightarrow> buff_size r < buff_capacity r \<or> lr_buff r ! (buff_size r - 1) = NEWLINE)"

text \<open>What the buffer still holds past the current line.\<close>

definition lr_window :: "line_reader \<Rightarrow> char list" where
  "lr_window r = drop (line_start r + line_len r) (take (buff_size r) (lr_buff r))"

text \<open>The text a reader has not delivered yet, and the bound on its buffer.\<close>

definition lr_unread :: "('fd \<Rightarrow> char list) \<Rightarrow> line_reader \<Rightarrow> 'fd \<Rightarrow> char list" where
  "lr_unread remaining r fd = lr_window r @ (if lr_eof r then [] else remaining fd)"

definition lr_bounded :: "('fd \<Rightarrow> char list) \<Rightarrow> nat \<Rightarrow> line_reader \<Rightarrow> 'fd \<Rightarrow> bool" where
  "lr_bounded remaining N r fd \<longleftrightarrow>
     buff_capacity r \<le> max 256 (2 * N) \<and> (\<not> lr_eof r \<longrightarrow> buff_size r + length (remaining fd) \<le> N)"

text \<open>\<open>first_line\<close> and \<open>rest_lines\<close> cut a text after its first newline.\<close>

abbreviation first_line :: "char list \<Rightarrow> char list" where
  "first_line s \<equiv> takeWhile (\<lambda>c. c \<noteq> NEWLINE) s"

abbreviation rest_lines :: "char list \<Rightarrow> char list" where
  "rest_lines s \<equiv> tl (dropWhile (\<lambda>c. c \<noteq> NEWLINE) s)"

text \<open>
  The contract of one call, on the text \<open>u\<close> that was unread before it: the call succeeds iff
  there is any, delivers its first line with a newline, and leaves the rest.
\<close>

definition line_result ::
  "('fd \<Rightarrow> char list) \<Rightarrow> nat \<Rightarrow> char list \<Rightarrow> bool \<times> line_reader \<times> 'fd \<Rightarrow> bool" where
  "line_result remaining N u res = (case res of (got, r, fd) \<Rightarrow>
     (got \<longleftrightarrow> u \<noteq> []) \<and> lr_inv r \<and> lr_bounded remaining N r fd \<and>
     (got \<longrightarrow> LineReader_line r = Some (first_line u @ [NEWLINE]) \<and>
        lr_unread remaining r fd = rest_lines u))"

section \<open>Lemmas on the buffer\<close>

lemma lr_buff_set_buff [simp]: "lr_buff (set_buff b r) = b"
  by (simp add: lr_buff_def set_buff_def split: option.splits)

lemma lr_buff_updates [simp]:
  "lr_buff (r\<lparr>lr_eof := e\<rparr>) = lr_buff r" "lr_buff (r\<lparr>line_start := n\<rparr>) = lr_buff r"
  "lr_buff (r\<lparr>line_len := n\<rparr>) = lr_buff r" "lr_buff (r\<lparr>buff_size := n\<rparr>) = lr_buff r"
  "lr_buff (r\<lparr>buff_capacity := n\<rparr>) = lr_buff r" "lr_buff (r\<lparr>lr_heap := Some b\<rparr>) = b"
  by (simp_all add: lr_buff_def split: option.split)

lemma set_buff_fields [simp]:
  "lr_eof (set_buff b r) = lr_eof r" "line_start (set_buff b r) = line_start r"
  "line_len (set_buff b r) = line_len r" "buff_size (set_buff b r) = buff_size r"
  "buff_capacity (set_buff b r) = buff_capacity r"
  by (simp_all add: set_buff_def split: option.splits)

lemma set_buff_heap [simp]: "lr_heap (set_buff b r) = None \<longleftrightarrow> lr_heap r = None"
  by (simp add: set_buff_def split: option.splits)

lemma set_buff_heap_None [simp]: "lr_heap r = None \<Longrightarrow> lr_heap (set_buff b r) = None"
  by simp

lemma set_buff_buff0: "lr_heap r \<noteq> None \<Longrightarrow> buff0 (set_buff b r) = buff0 r"
  "lr_heap r = None \<Longrightarrow> buff0 (set_buff b r) = b"
  by (auto simp: set_buff_def)

lemma lr_inv_alt:
  "lr_inv r \<longleftrightarrow>
     length (buff0 r) = 128 \<and> length (lr_buff r) = buff_capacity r \<and>
     line_start r + line_len r \<le> buff_size r \<and> buff_size r \<le> buff_capacity r \<and>
     (lr_heap r = None \<longrightarrow> buff_capacity r = 128) \<and> (lr_heap r \<noteq> None \<longrightarrow> 256 \<le> buff_capacity r) \<and>
     (lr_eof r \<longrightarrow> buff_size r < buff_capacity r \<or> lr_buff r ! (buff_size r - 1) = NEWLINE)"
  by (auto simp: lr_inv_def split: option.splits)

text \<open>Writing back a buffer of the same length keeps the shape of the reader.\<close>

lemma length_buff0_set_buff:
  assumes "length (buff0 r) = 128" and "length (lr_buff r) = length b"
  shows "length (buff0 (set_buff b r)) = 128"
  using assms by (cases "lr_heap r") (simp_all add: set_buff_def lr_buff_def)

definition lr_at_start :: "line_reader \<Rightarrow> bool" where
  "lr_at_start r \<longleftrightarrow> lr_inv r \<and> line_start r = 0 \<and> line_len r = 0"

lemma eat_start_spec:
  assumes inv: "lr_inv r" and len: "line_len r = 0" and none: "NEWLINE \<notin> set (lr_window r)"
  shows "\<exists>r'. eat_start r = Some r' \<and> lr_at_start r' \<and> lr_window r' = lr_window r \<and>
     lr_eof r' = lr_eof r \<and> buff_capacity r' = buff_capacity r \<and> (lr_heap r' = None \<longleftrightarrow> lr_heap r = None) \<and>
     buff_size r' \<le> buff_size r \<and> (lr_eof r \<longrightarrow> buff_size r' < buff_capacity r)"
proof (cases "line_start r > 0")
  case True
  have bounds: "line_start r \<le> buff_size r" "buff_size r \<le> length (lr_buff r)"
    using inv len by (auto simp: lr_inv_alt)
  let ?b = "take (buff_size r - line_start r) (drop (line_start r) (lr_buff r)) @
    drop (buff_size r - line_start r) (lr_buff r)"
  have mv: "memmove 0 (line_start r) (buff_size r - line_start r) (lr_buff r) = Some ?b"
    using bounds by (simp add: buf_simps)
  have "length ?b = length (lr_buff r)" using bounds by simp
  with True mv inv len bounds show ?thesis
    by (auto simp: eat_start_def lr_at_start_def lr_inv_alt lr_window_def drop_take length_buff0_set_buff)
next
  case False
  have "buff_size r < buff_capacity r" if "lr_eof r"
  proof (rule ccontr)
    assume full: "\<not> buff_size r < buff_capacity r"
    with inv that have sz: "0 < buff_size r" "buff_size r \<le> length (lr_buff r)"
      and nl: "lr_buff r ! (buff_size r - 1) = NEWLINE"
      by (auto simp: lr_inv_alt)
    have "take (buff_size r) (lr_buff r) ! (buff_size r - 1) \<in> set (take (buff_size r) (lr_buff r))"
      using sz by (intro nth_mem) simp
    with nl sz False len none show False by (simp add: lr_window_def)
  qed
  with False inv len show ?thesis
    by (simp add: eat_start_def lr_at_start_def)
qed

lemma grow_buffer_spec:
  assumes at: "lr_at_start r" and full: "buff_size r = buff_capacity r"
    and still: "lr_heap r \<noteq> None \<Longrightarrow> \<not> moves (buff_capacity r * 2)" and eof: "\<not> lr_eof r"
  shows "\<exists>r'. grow_buffer moves junk r = Some r' \<and> lr_at_start r' \<and> lr_window r' = lr_window r \<and>
     \<not> lr_eof r' \<and> buff_capacity r' = 2 * buff_capacity r \<and> buff_size r' = buff_size r"
proof (cases "lr_heap r")
  case None
  with at full eof show ?thesis
    by (auto simp: grow_buffer_def lr_at_start_def lr_inv_alt lr_window_def lr_buff_def buf_simps Let_def)
next
  case (Some b)
  with at full eof still show ?thesis
    by (auto simp: grow_buffer_def lr_at_start_def lr_inv_alt lr_window_def lr_buff_def Let_def take_realloc)
qed

lemma memchr_first_line:
  assumes "memchr NEWLINE w = Some n"
  shows "first_line (w @ z) = take n w" "rest_lines (w @ z) = drop (Suc n) w @ z"
proof -
  have n: "n < length w" "w ! n = NEWLINE" "take n w = first_line w"
    using memchr_SomeD [OF assms] by auto
  then have mem: "NEWLINE \<in> set w" by (metis nth_mem)
  then show "first_line (w @ z) = take n w" using n(3) by (simp add: takeWhile_append1)
  have "length (first_line w) = n" using n by (metis length_take min.absorb4)
  then have "dropWhile (\<lambda>c. c \<noteq> NEWLINE) w = drop n w" by (simp add: dropWhile_eq_drop)
  with n mem show "rest_lines (w @ z) = drop (Suc n) w @ z"
    by (simp add: dropWhile_append1 drop_Suc tl_drop)
qed

lemma memchr_first_line_None:
  assumes "memchr NEWLINE w = None"
  shows "first_line (w @ z) = w @ first_line z" "rest_lines w = []" "first_line w = w"
  using assms unfolding memchr_None_iff by (induction w) auto

context byte_source
begin

lemma fill_spec:
  assumes at: "lr_at_start r" and eof: "\<not> lr_eof r" and room: "buff_size r < buff_capacity r"
    and cap: "buff_capacity r < 2 ^ 31"
  shows "\<exists>r' fd'. fill_buffer read r fd = Some (r', fd') \<and> lr_at_start r' \<and>
     lr_unread remaining r' fd' = lr_unread remaining r fd \<and>
     buff_capacity r' = buff_capacity r \<and>
     (\<not> lr_eof r' \<longrightarrow> length (remaining fd') < length (remaining fd) \<and>
        buff_size r' + length (remaining fd') = buff_size r + length (remaining fd))"
proof -
  obtain ret bytes fd' where rd: "read fd (buff_capacity r - buff_size r) = (ret, bytes, fd')"
    by (metis prod_cases3)
  have law: "ret = int (length bytes)" "length bytes \<le> buff_capacity r - buff_size r"
    "remaining fd = bytes @ remaining fd'" "bytes = [] \<longrightarrow> remaining fd = []"
    using read_law [OF _ less_imp_diff_less [OF cap] rd] room by auto
  let ?b = "take (buff_size r) (lr_buff r) @ bytes @ drop (buff_size r + length bytes) (lr_buff r)"
  have len: "buff_size r + length bytes \<le> length (lr_buff r)" "length ?b = length (lr_buff r)"
    "buff_capacity r = length (lr_buff r)" "length (buff0 r) = 128"
    using law(2) room at by (auto simp: lr_at_start_def lr_inv_alt)
  have b: "buf_write (buff_size r) bytes (lr_buff r) = Some ?b"
    using len by (simp add: buf_write_ok)
  have b0: "length (buff0 (set_buff ?b r)) = 128"
    using len by (intro length_buff0_set_buff) simp_all
  show ?thesis
  proof (cases "bytes = []")
    case True
    with rd law b b0 at eof room len show ?thesis
      by (auto simp: fill_buffer_def lr_at_start_def lr_inv_alt lr_unread_def lr_window_def)
  next
    case False
    with rd law b b0 at eof room len show ?thesis
      by (auto simp: fill_buffer_def lr_at_start_def lr_inv_alt lr_unread_def lr_window_def min_def)
  qed
qed

lemma window_read:
  assumes "lr_inv r" and "line_len r = 0"
  shows "buf_read (line_start r) (buff_size r - line_start r) (lr_buff r) = Some (lr_window r)"
  using assms by (auto simp: lr_inv_alt buf_read_ok lr_window_def drop_take)

lemma step_found:
  assumes inv: "lr_inv r" and len: "line_len r = 0" and bnd: "lr_bounded remaining N r fd"
    and found: "memchr NEWLINE (lr_window r) = Some n"
  shows "\<exists>res. GetNextLine_step read moves junk r fd = Some (Inl res) \<and>
     line_result remaining N (lr_unread remaining r fd) res"
proof -
  have n: "n < length (lr_window r)" "lr_window r ! n = NEWLINE"
    using memchr_SomeD [OF found] by auto
  have "LineReader_line (r\<lparr>line_len := n + 1\<rparr>) = Some (take (Suc n) (lr_window r))"
  proof -
    have "line_start r \<le> buff_size r" "buff_size r \<le> length (lr_buff r)"
      using inv by (auto simp: lr_inv_alt)
    moreover from this n(1) len have "n < buff_size r - line_start r" by (simp add: lr_window_def)
    ultimately show ?thesis
      using len by (simp add: LineReader_line_def buf_read_ok lr_window_def drop_take min_def)
  qed
  moreover have "take (Suc n) (lr_window r) = take n (lr_window r) @ [NEWLINE]"
    using n by (simp add: take_Suc_conv_app_nth)
  moreover have "lr_inv (r\<lparr>line_len := n + 1\<rparr>)" "lr_bounded remaining N (r\<lparr>line_len := n + 1\<rparr>) fd"
    using inv n len bnd by (auto simp: lr_inv_alt lr_window_def lr_bounded_def)
  moreover have "lr_unread remaining (r\<lparr>line_len := n + 1\<rparr>) fd = rest_lines (lr_unread remaining r fd)"
    using memchr_first_line(2) [OF found] len by (simp add: lr_unread_def lr_window_def add.commute)
  ultimately show ?thesis
    using found window_read [OF inv len] n memchr_first_line(1) [OF found]
    by (auto simp: GetNextLine_step_def lr_unread_def line_result_def)
qed

lemma step_eof:
  assumes inv: "lr_inv r" and len: "line_len r = 0" and bnd: "lr_bounded remaining N r fd"
    and none: "memchr NEWLINE (lr_window r) = None" and eof: "lr_eof r"
  shows "\<exists>res. GetNextLine_step read moves junk r fd = Some (Inl res) \<and>
     line_result remaining N (lr_unread remaining r fd) res"
proof -
  obtain r1 where r1: "eat_start r = Some r1" "lr_at_start r1" "lr_window r1 = lr_window r"
    "lr_eof r1 = lr_eof r" "buff_capacity r1 = buff_capacity r" "buff_size r1 < buff_capacity r"
    using eat_start_spec [OF inv len none [unfolded memchr_None_iff]] eof by blast
  let ?b = "take (buff_size r1) (lr_buff r1) @ NEWLINE # drop (Suc (buff_size r1)) (lr_buff r1)"
  have b: "buf_write (buff_size r1) [NEWLINE] (lr_buff r1) = Some ?b" "length ?b = length (lr_buff r1)"
    "length (buff0 (set_buff ?b r1)) = 128" "length (lr_buff r1) = buff_capacity r"
    using r1 by (auto simp: lr_at_start_def lr_inv_alt buf_write_ok length_buff0_set_buff)
  let ?r = "(set_buff ?b r1)\<lparr>buff_size := buff_size r1 + 1, line_len := buff_size r1 + 1\<rparr>"
  have w: "take (buff_size r1) (lr_buff r1) = lr_window r"
    using r1 by (simp add: lr_window_def lr_at_start_def)
  have u: "lr_unread remaining r fd = lr_window r" "first_line (lr_window r) = lr_window r"
    "rest_lines (lr_window r) = []"
    using eof memchr_first_line_None [OF none] by (simp_all add: lr_unread_def)
  have inv': "lr_inv ?r" "lr_bounded remaining N ?r fd" "lr_inv r1" "lr_bounded remaining N r1 fd"
    using r1 b eof bnd by (auto simp: lr_at_start_def lr_inv_alt lr_bounded_def nth_append)
  have lw: "length (lr_window r) = buff_size r1" using r1(6) b(4) by (simp flip: w)
  have line: "LineReader_line ?r = Some (lr_window r @ [NEWLINE])" "lr_unread remaining ?r fd = []"
  proof -
    have "lr_window ?r = []" using r1(2) by (simp add: lr_window_def lr_at_start_def)
    then show "lr_unread remaining ?r fd = []" using r1(4) eof by (simp add: lr_unread_def)
    show "LineReader_line ?r = Some (lr_window r @ [NEWLINE])"
      using r1 b w lw by (simp add: LineReader_line_def buf_read_ok lr_at_start_def)
  qed
  have empty: "0 < buff_size r1 \<longleftrightarrow> lr_window r \<noteq> []"
    by (simp flip: lw)
  have step: "GetNextLine_step read moves junk r fd =
      Some (Inl (if buff_size r1 > 0 then (True, ?r, fd) else (False, r1, fd)))"
    using window_read [OF inv len] r1 b(1) none eof by (simp add: GetNextLine_step_def)
  show ?thesis
    unfolding step u(1) using inv' line empty by (simp add: line_result_def u(2,3))
qed

lemma step_more:
  assumes inv: "lr_inv r" and len: "line_len r = 0" and bnd: "lr_bounded remaining N r fd"
    and none: "memchr NEWLINE (lr_window r) = None" and eof: "\<not> lr_eof r" and N: "N < 2 ^ 30"
    and ok: "(\<forall>c. \<not> moves c) \<or> length (first_line (lr_unread remaining r fd)) < 256"
  shows "\<exists>r' fd'. GetNextLine_step read moves junk r fd = Some (Inr (r', fd')) \<and> lr_at_start r' \<and>
     lr_unread remaining r' fd' = lr_unread remaining r fd \<and> lr_bounded remaining N r' fd' \<and>
     (\<not> lr_eof r' \<longrightarrow> length (remaining fd') < length (remaining fd))"
proof -
  obtain r1 where r1: "eat_start r = Some r1" "lr_at_start r1" "lr_window r1 = lr_window r"
    "lr_eof r1 = lr_eof r" "buff_capacity r1 = buff_capacity r" "buff_size r1 \<le> buff_size r"
    using eat_start_spec [OF inv len none [unfolded memchr_None_iff]] by blast
  have small: "length (lr_window r) \<le> length (first_line (lr_unread remaining r fd))"
    using memchr_first_line_None(1) [OF none] by (simp add: lr_unread_def)
  have still: "\<not> moves (buff_capacity r1 * 2)" if "buff_size r1 = buff_capacity r1" "lr_heap r1 \<noteq> None"
    using ok small that r1(2,3) by (auto simp: lr_at_start_def lr_inv_alt lr_window_def)
  obtain r2 where r2: "(if buff_size r1 = buff_capacity r1 then grow_buffer moves junk r1 else Some r1) = Some r2"
    "lr_at_start r2" "lr_window r2 = lr_window r" "\<not> lr_eof r2" "buff_size r2 = buff_size r1"
    "buff_size r2 < buff_capacity r2" "buff_capacity r2 \<le> max 256 (2 * N)"
  proof (cases "buff_size r1 = buff_capacity r1")
    case True
    with grow_buffer_spec [of r1 moves junk] still r1 eof obtain r2 where
      "grow_buffer moves junk r1 = Some r2" "lr_at_start r2" "lr_window r2 = lr_window r1" "\<not> lr_eof r2"
      "buff_capacity r2 = 2 * buff_capacity r1" "buff_size r2 = buff_size r1" by auto
    moreover have "0 < buff_capacity r1" using r1(2) by (auto simp: lr_at_start_def lr_inv_alt)
    ultimately show thesis
      using that [of r2] True r1 eof bnd by (auto simp: lr_bounded_def)
  next
    case False
    then show thesis
      using that [of r1] r1 eof bnd by (auto simp: lr_bounded_def lr_at_start_def lr_inv_alt)
  qed
  have "buff_capacity r2 < 2 ^ 31" using r2(7) N by (simp add: max_def split: if_splits)
  with fill_spec [OF r2(2,4,6), of fd] obtain r3 fd' where
    r3: "fill_buffer read r2 fd = Some (r3, fd')" "lr_at_start r3"
      "lr_unread remaining r3 fd' = lr_unread remaining r2 fd" "buff_capacity r3 = buff_capacity r2"
      "\<not> lr_eof r3 \<longrightarrow> length (remaining fd') < length (remaining fd) \<and>
        buff_size r3 + length (remaining fd') = buff_size r2 + length (remaining fd)"
    by blast
  show ?thesis
    using window_read [OF inv len] r1 r2 r3 none eof bnd
    by (auto simp: GetNextLine_step_def lr_unread_def lr_bounded_def)
qed

lemma loop_spec:
  assumes "lr_inv r" and "line_len r = 0" and "N < 2 ^ 30" and "lr_bounded remaining N r fd"
    and "(\<forall>c. \<not> moves c) \<or> length (first_line (lr_unread remaining r fd)) < 256"
  shows "\<exists>res. GetNextLine_loop read moves junk r fd = Some res \<and>
     line_result remaining N (lr_unread remaining r fd) res"
  using assms
proof (induction "if lr_eof r then 0 else Suc (length (remaining fd))" arbitrary: r fd rule: less_induct)
  case less
  consider n where "memchr NEWLINE (lr_window r) = Some n"
    | "memchr NEWLINE (lr_window r) = None" "lr_eof r"
    | "memchr NEWLINE (lr_window r) = None" "\<not> lr_eof r" by blast
  then show ?case
  proof cases
    case 1
    with step_found [of r N fd n moves junk] less.prems show ?thesis
      by (subst GetNextLine_loop.simps) auto
  next
    case 2
    with step_eof [of r N fd moves junk] less.prems show ?thesis
      by (subst GetNextLine_loop.simps) auto
  next
    case 3
    with step_more [of r N fd moves junk] less.prems obtain r' fd' where
      st: "GetNextLine_step read moves junk r fd = Some (Inr (r', fd'))" "lr_at_start r'"
        "lr_unread remaining r' fd' = lr_unread remaining r fd" "lr_bounded remaining N r' fd'"
        "\<not> lr_eof r' \<longrightarrow> length (remaining fd') < length (remaining fd)" by blast
    with less.hyps [of r' fd'] less.prems 3 show ?thesis
      by (subst GetNextLine_loop.simps) (auto simp: lr_at_start_def)
  qed
qed


lemma GetNextLine_spec:
  assumes "lr_inv r" and "N < 2 ^ 30" and "lr_bounded remaining N r fd"
    and "(\<forall>c. \<not> moves c) \<or> length (first_line (lr_unread remaining r fd)) < 256"
  shows "\<exists>res. GetNextLine read moves junk r fd = Some res \<and>
     line_result remaining N (lr_unread remaining r fd) res"
proof -
  let ?r = "r\<lparr>line_start := line_start r + line_len r, line_len := 0\<rparr>"
  have "lr_inv ?r" "lr_bounded remaining N ?r fd" "lr_unread remaining ?r fd = lr_unread remaining r fd"
    using assms by (auto simp: lr_inv_alt lr_bounded_def lr_unread_def lr_window_def)
  with loop_spec [of ?r N fd moves junk] assms show ?thesis
    by (simp add: GetNextLine_def)
qed

lemma read_lines_spec:
  assumes "lr_inv r" and "N < 2 ^ 30" and "lr_bounded remaining N r fd"
    and "(\<forall>c. \<not> moves c) \<or> (\<forall>l \<in> set (split_terminated NEWLINE (lr_unread remaining r fd)). length l < 256)"
  shows "read_lines read moves junk r fd =
     Some (map (\<lambda>l. l @ [NEWLINE]) (split_terminated NEWLINE (lr_unread remaining r fd)))"
  using assms
proof (induction "length (lr_unread remaining r fd)" arbitrary: r fd rule: less_induct)
  case less
  let ?u = "lr_unread remaining r fd"
  have split: "split_terminated NEWLINE ?u = first_line ?u # split_terminated NEWLINE (rest_lines ?u)"
    if "?u \<noteq> []" using that by (subst split_terminated.simps) simp
  have ok: "(\<forall>c. \<not> moves c) \<or> length (first_line ?u) < 256"
    using less.prems(4) split by (cases "?u = []") auto
  obtain got r' fd' where
    g: "GetNextLine read moves junk r fd = Some (got, r', fd')" "line_result remaining N ?u (got, r', fd')"
    using GetNextLine_spec [OF less.prems(1-3) ok, of junk] by auto
  show ?case
  proof (cases "?u = []")
    case True
    with g show ?thesis by (subst read_lines.simps) (simp add: line_result_def)
  next
    case False
    with g have g': "got" "lr_inv r'" "lr_bounded remaining N r' fd'"
      "LineReader_line r' = Some (first_line ?u @ [NEWLINE])" "lr_unread remaining r' fd' = rest_lines ?u"
      by (auto simp: line_result_def)
    have "length (rest_lines ?u) < length ?u"
      using False length_dropWhile_le [of "\<lambda>c. c \<noteq> NEWLINE" ?u] by (cases ?u) auto
    moreover have "(\<forall>c. \<not> moves c) \<or> (\<forall>l \<in> set (split_terminated NEWLINE (rest_lines ?u)). length l < 256)"
      using less.prems(4) split [OF False] by auto
    ultimately have "read_lines read moves junk r' fd' =
        Some (map (\<lambda>l. l @ [NEWLINE]) (split_terminated NEWLINE (rest_lines ?u)))"
      using less.hyps [of r' fd'] g' less.prems(2) by simp
    with g g' split [OF False] show ?thesis by (subst read_lines.simps) simp
  qed
qed

end

section \<open>Properties\<close>

lemma lr_inv_Open:
  assumes "length (buff0 r0) = 128"
  shows "lr_inv (LineReader_Open ok r0)" "lr_unread remaining (LineReader_Open True r0) fd = remaining fd"
    "lr_bounded remaining (length (remaining fd)) (LineReader_Open ok r0) fd"
  using assms by (auto simp: LineReader_Open_def LineReader_Reset_def lr_inv_def lr_buff_def lr_unread_def
      lr_window_def lr_bounded_def)

text \<open>C32: Reading a file to its end through \<open>GetNextLine\<close> terminates, stays inside the buffers and
  delivers exactly the lines of the file, each with a final newline, a last unterminated line
  included, for any file below 1 GiB. Either every line is shorter than 256 characters or
  \<open>realloc\<close> grows the heap block in place; the next property shows that this side condition is
  needed.\<close>

theorem read_lines_complete:
  assumes "byte_source read remaining"
    and "length (buff0 r0) = 128" and "length (remaining fd) < 2 ^ 30"
    and "(\<forall>c. \<not> moves c) \<or> (\<forall>l \<in> set (split_terminated NEWLINE (remaining fd)). length l < 256)"
  shows "read_lines read moves junk (LineReader_Open True r0) fd =
     Some (map (\<lambda>l. l @ [NEWLINE]) (split_terminated NEWLINE (remaining fd)))"
  using byte_source.read_lines_spec [OF assms(1) lr_inv_Open(1) [OF assms(2)] assms(3) lr_inv_Open(3) [OF assms(2)]]
    assms lr_inv_Open(2) [OF assms(2)] by metis

theorem read_lines_complete_witness:
  "read_lines MockFileHandle_Read (\<lambda>_. True) (\<lambda>_. NUL)
     (LineReader_Open True \<lparr>lr_eof = True, line_start = 0, line_len = 0, buff_size = 0,
        buff_capacity = 128, lr_heap = None, buff0 = replicate 128 NUL\<rparr>)
     \<lparr>mh_data = [CHR ''a'', NEWLINE, NEWLINE, CHR ''b''], mh_offset = 0\<rparr> =
   Some [[CHR ''a'', NEWLINE], [NEWLINE], [CHR ''b'', NEWLINE]]"
proof -
  have "split_terminated NEWLINE [CHR ''a'', NEWLINE, NEWLINE, CHR ''b''] = [[CHR ''a''], [], [CHR ''b'']]"
    by (simp add: split_terminated.simps)
  then show ?thesis
    by (subst read_lines_complete [OF mock_file.byte_source_axioms]) (simp_all add: mock_remaining_def)
qed

lemma memchr_prefix_None:
  assumes "NEWLINE \<notin> set (take m xs)" and "n \<le> m"
  shows "memchr NEWLINE (take n xs) = None"
  using assms by (metis memchr_None_iff min.absorb1 set_take_subset subsetD take_take)

text \<open>The side condition is needed. When the first 256 characters of a file hold no newline
  and \<open>realloc\<close> has to move the heap block to grow it to 512 bytes, \<open>GetNextLine\<close> copies 256 bytes
  out of the 128-byte array \<open>buff0_\<close>: the model has no result.\<close>

theorem GetNextLine_long_line_undefined:
  assumes "length (buff0 r0) = 128" and "256 \<le> length (mh_data h)" and "mh_offset h = 0"
    and "NEWLINE \<notin> set (take 256 (mh_data h))" and "moves 512"
  shows "GetNextLine MockFileHandle_Read moves junk (LineReader_Open True r0) h = None"
proof -
  let ?d = "mh_data h" and ?read = MockFileHandle_Read
  let ?r = "\<lambda>b n c hp. \<lparr>lr_eof = False, line_start = 0, line_len = 0, buff_size = n, buff_capacity = c,
      lr_heap = hp, buff0 = b, \<dots> = line_reader.more r0\<rparr>"
  let ?h = "\<lambda>n. h\<lparr>mh_offset := n\<rparr>"
  have no: "memchr NEWLINE (take n ?d) = None" if "n \<le> 256" for n
    using memchr_prefix_None [OF assms(4)] that by simp
  have start: "LineReader_Open True r0\<lparr>line_start := 0, line_len := 0\<rparr> = ?r (buff0 r0) 0 128 None"
    using assms(1) by (simp add: LineReader_Open_def LineReader_Reset_def)
  have rd: "?read h 128 = (128, take 128 ?d, ?h 128)"
    "?read (?h 128) 128 = (128, take 128 (drop 128 ?d), ?h 256)"
    using assms(2,3) by (auto simp: MockFileHandle_Read_def Let_def)
  have s1: "GetNextLine_step ?read moves junk (?r (buff0 r0) 0 128 None) h =
      Some (Inr (?r (take 128 ?d) 128 128 None, ?h 128))"
    using assms(1,2) rd
    by (simp add: GetNextLine_step_def lr_buff_def buf_read_def eat_start_def fill_buffer_def
        buf_write_def set_buff_def Let_def)
  obtain hp where hp: "hp = take 256 ?d" "length hp = 256" using assms(2) by simp
  have app: "take 128 ?d @ take 128 (drop 128 ?d) = take 256 ?d"
    using take_add [of 128 128 ?d] by simp
  have s2: "GetNextLine_step ?read moves junk (?r (take 128 ?d) 128 128 None) (?h 128) =
      Some (Inr (?r (take 128 ?d) 256 256 (Some hp), ?h 256))"
    using assms(1,2) rd no [of 128] hp app
    by (simp add: GetNextLine_step_def lr_buff_def buf_read_def eat_start_def fill_buffer_def grow_buffer_def
        buf_write_def set_buff_def Let_def)
  have s3: "GetNextLine_step ?read moves junk (?r (take 128 ?d) 256 256 (Some hp)) (?h 256) = None"
    using assms(2,5) no [of 256] hp
    by (simp add: GetNextLine_step_def lr_buff_def buf_read_def eat_start_def grow_buffer_def Let_def)
  show ?thesis
    using start s1 s2 s3
    by (simp add: GetNextLine_def GetNextLine_loop.simps LineReader_Open_def LineReader_Reset_def)
qed

theorem GetNextLine_long_line_undefined_witness:
  "GetNextLine MockFileHandle_Read (\<lambda>_. True) (\<lambda>_. NUL)
     (LineReader_Open True \<lparr>lr_eof = True, line_start = 0, line_len = 0, buff_size = 0,
        buff_capacity = 128, lr_heap = None, buff0 = replicate 128 NUL\<rparr>)
     \<lparr>mh_data = replicate 300 (CHR ''x'') @ [NEWLINE], mh_offset = 0\<rparr> = None"
  by (rule GetNextLine_long_line_undefined) simp_all

end
