(* ===== verification/Proc_Maps.thy ===== *)
theory Proc_Maps
  imports Line_Reader
begin

unbundle bit_operations_syntax

text \<open>
  The reader of \<open>/proc/$PID/maps\<close>, \<open>crazy_linker_proc_maps.cpp\<close>: the parser of one line, the class
  \<open>ProcMaps\<close> that holds the parsed entries, and the three searches the linker makes in them.
  Addresses are words of the width \<open>'w\<close> of \<open>size_t\<close>. The parser hands \<open>strtoumax\<close> a pointer into a
  line that has no terminating zero: a scan that runs past the end of the line is the outer
  \<^term>\<open>None\<close>.
\<close>

section \<open>\<open>strtoumax\<close> in base 16\<close>

definition isspace :: "char \<Rightarrow> bool" where
  "isspace c \<longleftrightarrow> c \<in> {CHR '' '', CHR 0x09, CHR 0x0A, CHR 0x0B, CHR 0x0C, CHR 0x0D}"

definition hex_digit :: "char \<Rightarrow> nat option" where
  "hex_digit c =
     (let n = of_char c :: nat in
      if 48 \<le> n \<and> n \<le> 57 then Some (n - 48)
      else if 97 \<le> n \<and> n \<le> 102 then Some (n - 87)
      else if 65 \<le> n \<and> n \<le> 70 then Some (n - 55)
      else None)"

fun scan_hex :: "nat \<Rightarrow> char list \<Rightarrow> nat option" where
  "scan_hex v [] = None"
| "scan_hex v (c # cs) =
     (case hex_digit c of None \<Rightarrow> Some v | Some d \<Rightarrow> scan_hex (16 * v + d) cs)"

definition skip_0x :: "char list \<Rightarrow> char list" where
  "skip_0x s =
     (case s of
        a # x # d # s' \<Rightarrow>
          if a = CHR ''0'' \<and> (x = CHR ''x'' \<or> x = CHR ''X'') \<and> hex_digit d \<noteq> None then d # s' else s
      | _ \<Rightarrow> s)"

definition strtoumax16 :: "char list \<Rightarrow> nat option" where
  "strtoumax16 s =
     (let s = dropWhile isspace s;
          (neg, s) = (case s of
              c # cs \<Rightarrow> if c = CHR ''-'' then (True, cs) else if c = CHR ''+'' then (False, cs) else (False, s)
            | [] \<Rightarrow> (False, s))
      in case scan_hex 0 (skip_0x s) of
           None \<Rightarrow> None
         | Some v \<Rightarrow>
             Some (if v \<ge> 2 ^ 64 then 2 ^ 64 - 1
                   else if neg then (2 ^ 64 - v) mod 2 ^ 64 else v))"

section \<open>Parsing a line\<close>

record 'addr proc_entry =
  vma_start :: 'addr
  vma_end :: 'addr
  prot_flags :: "32 word"
  load_offset :: 'addr
  entry_path :: "char list option"
  path_len :: nat

definition PROT_READ :: "32 word" where "PROT_READ = 1"
definition PROT_WRITE :: "32 word" where "PROT_WRITE = 2"
definition PROT_EXEC :: "32 word" where "PROT_EXEC = 4"

definition entry0 :: "('w::len) word proc_entry" where
  "entry0 = \<lparr>vma_start = 0, vma_end = 0, prot_flags = 0, load_offset = 0, entry_path = None, path_len = 0\<rparr>"

fun prot_of_token :: "char list \<Rightarrow> 32 word \<Rightarrow> 32 word" where
  "prot_of_token [] flags = flags"
| "prot_of_token (t # ts) flags =
     prot_of_token ts
       (let flags = (if t = CHR ''r'' then flags OR PROT_READ else flags);
            flags = (if t = CHR ''w'' then flags OR PROT_WRITE else flags)
        in if t = CHR ''x'' then flags OR PROT_EXEC else flags)"

definition strip_newlines :: "char list \<Rightarrow> char list" where
  "strip_newlines tok = rev (dropWhile (\<lambda>c. c = NEWLINE) (rev tok))"

text \<open>The \<open>switch\<close>: \<open>from\<close> is the line from the start of the token on, \<open>tok\<close> the token.\<close>

definition set_field ::
  "nat \<Rightarrow> char list \<Rightarrow> char list \<Rightarrow> ('w::len) word proc_entry \<Rightarrow> 'w word proc_entry option" where
  "set_field token from tok entry =
     (if token = 0 then map_option (\<lambda>v. entry\<lparr>vma_start := word_of_nat v\<rparr>) (strtoumax16 from)
      else if token = 1 then map_option (\<lambda>v. entry\<lparr>vma_end := word_of_nat v\<rparr>) (strtoumax16 from)
      else if token = 2 then Some (entry\<lparr>prot_flags := prot_of_token tok 0\<rparr>)
      else if token = 3 then map_option (\<lambda>v. entry\<lparr>load_offset := word_of_nat v * 4096\<rparr>) (strtoumax16 from)
      else if token = 6 then
        let path = strip_newlines tok in Some (entry\<lparr>entry_path := Some path, path_len := length path\<rparr>)
      else Some entry)"

fun parse_tokens :: "nat list \<Rightarrow> char list \<Rightarrow> ('w::len) word proc_entry \<Rightarrow> 'w word proc_entry option option" where
  "parse_tokens [] p entry = Some (Some entry)"
| "parse_tokens (token # tokens) p entry =
     (let separator = (if token = 0 then CHR ''-'' else CHR '' '');
          from = dropWhile (\<lambda>c. c = separator) p;
          (tok, p) = (case memchr separator from of
                        None \<Rightarrow> (from, [])
                      | Some n \<Rightarrow> (take n from, drop (n + 1) from))
      in if tok = [] then
           (if token = 6 then Some (Some (entry\<lparr>entry_path := None, path_len := 0\<rparr>)) else Some None)
         else do {
           entry \<leftarrow> set_field token from tok entry;
           parse_tokens tokens p entry
         })"

definition ParseProcMapsLine :: "char list \<Rightarrow> ('w::len) word proc_entry \<Rightarrow> 'w word proc_entry option option" where
  "ParseProcMapsLine line entry = parse_tokens [0..<7] line entry"

section \<open>The class \<open>ProcMaps\<close>\<close>

record 'addr proc_maps =
  pm_index :: nat
  pm_entries :: "'addr proc_entry list"

text \<open>The body of the loop of \<open>Open\<close>, over the lines the reader delivers.\<close>

fun parse_lines :: "char list list \<Rightarrow> ('w::len) word proc_entry list option" where
  "parse_lines [] = Some []"
| "parse_lines (line # lines) =
     do {
       res \<leftarrow> ParseProcMapsLine line entry0;
       entries \<leftarrow> parse_lines lines;
       Some (case res of None \<Rightarrow> entries | Some entry \<Rightarrow> entry # entries)
     }"

definition ProcMaps_Open ::
  "'fd read_call \<Rightarrow> (nat \<Rightarrow> bool) \<Rightarrow> (nat \<Rightarrow> char) \<Rightarrow> line_reader \<Rightarrow> bool \<Rightarrow> 'fd \<Rightarrow> ('w::len) word proc_maps option" where
  "ProcMaps_Open read moves junk reader opened fd =
     do {
       lines \<leftarrow> read_lines read moves junk (LineReader_Open opened reader) fd;
       entries \<leftarrow> parse_lines lines;
       Some \<lparr>pm_index = 0, pm_entries = entries\<rparr>
     }"

definition ProcMaps_Rewind :: "('w::len) word proc_maps \<Rightarrow> 'w word proc_maps" where
  "ProcMaps_Rewind m = m\<lparr>pm_index := 0\<rparr>"

definition GetNextEntry :: "('w::len) word proc_maps \<Rightarrow> 'w word proc_entry option \<times> 'w word proc_maps" where
  "GetNextEntry m =
     (if pm_index m \<ge> length (pm_entries m) then (None, m)
      else (Some (pm_entries m ! pm_index m), m\<lparr>pm_index := pm_index m + 1\<rparr>))"

text \<open>The loops \<open>while (GetNextEntry(&entry)) ...\<close>; the body returns from the function or goes on.\<close>

function entry_loop :: "(('w::len) word proc_entry \<Rightarrow> 'r option) \<Rightarrow> 'w word proc_maps \<Rightarrow> 'r option \<times> 'w word proc_maps" where
  "entry_loop body m =
     (case GetNextEntry m of
        (None, m) \<Rightarrow> (None, m)
      | (Some entry, m) \<Rightarrow> (case body entry of Some r \<Rightarrow> (Some r, m) | None \<Rightarrow> entry_loop body m))"
  by pat_completeness auto
termination
  by (relation "measure (\<lambda>(_, m). length (pm_entries m) - pm_index m)")
    (auto simp: GetNextEntry_def split: if_splits)

declare entry_loop.simps [simp del]

definition entry_contains :: "'w word \<Rightarrow> ('w::len) word proc_entry \<Rightarrow> bool" where
  "entry_contains addr entry \<longleftrightarrow> vma_start entry \<le> addr \<and> addr < vma_end entry"

definition GetProtectionFlagsForAddress :: "'w word \<Rightarrow> ('w::len) word proc_maps \<Rightarrow> 32 word \<times> 'w word proc_maps" where
  "GetProtectionFlagsForAddress vma_addr m =
     (case entry_loop (\<lambda>entry. if entry_contains vma_addr entry then Some (prot_flags entry) else None)
             (ProcMaps_Rewind m) of
        (None, m) \<Rightarrow> (0, m)
      | (Some flags, m) \<Rightarrow> (flags, m))"

text \<open>
  The searches. The first result is the value returned, the second what is stored through
  \<open>load_address\<close>, the third the path buffer after the call.
\<close>

definition FindElfBinaryForAddress ::
  "('w::len) word proc_maps \<Rightarrow> 'w word \<Rightarrow> char list \<Rightarrow> (bool \<times> 'w word option \<times> char list) option" where
  "FindElfBinaryForAddress self_maps addr path_buffer =
     (case fst (entry_loop (\<lambda>entry.
         if entry_contains addr entry
         then Some (case entry_path entry of
             None \<Rightarrow> Some (False, Some (vma_start entry), path_buffer)
           | Some path \<Rightarrow>
               if path_len entry \<ge> length path_buffer
               then Some (False, Some (vma_start entry), path_buffer)
               else do {
                 b \<leftarrow> buf_write 0 path path_buffer;
                 b \<leftarrow> buf_write (path_len entry) [NUL] b;
                 Some (True, Some (vma_start entry), b)
               })
         else None) self_maps) of
        None \<Rightarrow> Some (False, None, path_buffer)
      | Some res \<Rightarrow> res)"

definition FindProtectionFlagsForAddress :: "('w::len) word proc_maps \<Rightarrow> 'w word \<Rightarrow> 32 word option" where
  "FindProtectionFlagsForAddress self_maps addr =
     fst (entry_loop (\<lambda>entry. if entry_contains addr entry then Some (prot_flags entry) else None) self_maps)"

definition FindLoadAddressForFile ::
  "('w::len) word proc_maps \<Rightarrow> char list \<Rightarrow> ('w word \<times> 'w word) option" where
  "FindLoadAddressForFile self_maps file_name =
     (let is_base_name = (memchr (CHR ''/'') file_name = None) in
      fst (entry_loop (\<lambda>entry.
        case entry_path entry of
          None \<Rightarrow> None
        | Some path \<Rightarrow>
            if path_len entry = 0 \<or> path ! 0 = CHR ''['' then None
            else
              let entry_name =
                (if is_base_name
                 then (case memrchr (CHR ''/'') path of None \<Rightarrow> path | Some i \<Rightarrow> drop (i + 1) path)
                 else path)
              in if length file_name = length entry_name \<and> file_name = entry_name
                 then Some (vma_start entry, load_offset entry) else None) self_maps))"

section \<open>The format of the file\<close>

text \<open>
  A line of the file as the kernel prints it: two addresses, the permissions, the offset, the
  device and the inode, and for a mapped file its path after padding.
\<close>

record maps_line =
  ml_start :: "char list"
  ml_end :: "char list"
  ml_perms :: "char list"
  ml_offset :: "char list"
  ml_dev :: "char list"
  ml_inode :: "char list"
  ml_path :: "(nat \<times> char list) option"

definition print_maps_line :: "maps_line \<Rightarrow> char list" where
  "print_maps_line l =
     ml_start l @ ''-'' @ ml_end l @ '' '' @ ml_perms l @ '' '' @ ml_offset l @ '' '' @ ml_dev l @ '' '' @
     ml_inode l @ (case ml_path l of None \<Rightarrow> [] | Some (pad, path) \<Rightarrow> '' '' @ replicate pad (CHR '' '') @ path)"

definition hex_value :: "char list \<Rightarrow> nat" where
  "hex_value hs = foldl (\<lambda>v c. 16 * v + the (hex_digit c)) 0 hs"

definition hex_string :: "char list \<Rightarrow> bool" where
  "hex_string hs \<longleftrightarrow> hs \<noteq> [] \<and> list_all (\<lambda>c. hex_digit c \<noteq> None) hs \<and> hex_value hs < 2 ^ 64"

definition word_token :: "char list \<Rightarrow> bool" where
  "word_token t \<longleftrightarrow> t \<noteq> [] \<and> list_all (\<lambda>c. c \<noteq> CHR '' '' \<and> c \<noteq> NEWLINE) t"

definition maps_line_ok :: "maps_line \<Rightarrow> bool" where
  "maps_line_ok l \<longleftrightarrow>
     hex_string (ml_start l) \<and> hex_string (ml_end l) \<and> hex_string (ml_offset l) \<and>
     word_token (ml_perms l) \<and> word_token (ml_dev l) \<and> word_token (ml_inode l) \<and>
     (case ml_path l of None \<Rightarrow> True | Some (pad, path) \<Rightarrow> word_token path)"

definition entry_of_line :: "maps_line \<Rightarrow> ('w::len) word proc_entry" where
  "entry_of_line l =
     \<lparr>vma_start = word_of_nat (hex_value (ml_start l)), vma_end = word_of_nat (hex_value (ml_end l)),
      prot_flags = (if CHR ''r'' \<in> set (ml_perms l) then PROT_READ else 0) OR
                   (if CHR ''w'' \<in> set (ml_perms l) then PROT_WRITE else 0) OR
                   (if CHR ''x'' \<in> set (ml_perms l) then PROT_EXEC else 0),
      load_offset = word_of_nat (hex_value (ml_offset l)) * 4096,
      entry_path = map_option snd (ml_path l),
      path_len = (case ml_path l of None \<Rightarrow> 0 | Some (pad, path) \<Rightarrow> length path)\<rparr>"

section \<open>Lemmas on the parser\<close>

lemma scan_hex_digits:
  assumes "list_all (\<lambda>c. hex_digit c \<noteq> None) hs" and "hex_digit c = None"
  shows "scan_hex v (hs @ c # rest) = Some (foldl (\<lambda>v c. 16 * v + the (hex_digit c)) v hs)"
  using assms by (induction hs arbitrary: v) auto

lemma hex_digit_separators [simp]:
  "hex_digit (CHR ''-'') = None" "hex_digit (CHR '' '') = None" "hex_digit (CHR ''+'') = None"
  "hex_digit (CHR ''x'') = None" "hex_digit (CHR ''X'') = None" "hex_digit NEWLINE = None"
  by (simp_all add: hex_digit_def)

lemma hex_digit_not_space:
  assumes "hex_digit c \<noteq> None"
  shows "\<not> isspace c"
proof
  assume "isspace c"
  then have "hex_digit c = None"
    unfolding isspace_def by (elim insertE) (simp_all add: hex_digit_def)
  with assms show False by simp
qed

lemma skip_0x_digits:
  assumes "list_all (\<lambda>c. hex_digit c \<noteq> None) hs" and "hs \<noteq> []" and "c \<in> {CHR ''-'', CHR '' ''}"
  shows "skip_0x (hs @ c # rest) = hs @ c # rest"
proof (cases hs)
  case (Cons a hs')
  show ?thesis
  proof (cases hs')
    case Nil
    with Cons assms(3) show ?thesis by (auto simp: skip_0x_def split: list.splits)
  next
    case (Cons x hs'')
    have "x \<noteq> CHR ''x'' \<and> x \<noteq> CHR ''X''" using assms(1) \<open>hs = a # hs'\<close> Cons by auto
    with Cons \<open>hs = a # hs'\<close> show ?thesis by (auto simp: skip_0x_def split: list.splits)
  qed
qed (use assms in simp)

lemma strtoumax16_digits:
  assumes "hex_string hs" and "c \<in> {CHR ''-'', CHR '' ''}"
  shows "strtoumax16 (hs @ c # rest) = Some (hex_value hs)"
proof -
  have hs: "hs \<noteq> []" "list_all (\<lambda>c. hex_digit c \<noteq> None) hs" "hex_value hs < 2 ^ 64"
    using assms(1) by (auto simp: hex_string_def)
  then obtain a hs' where a: "hs = a # hs'" "hex_digit a \<noteq> None" by (cases hs) auto
  then have "\<not> isspace a" "a \<noteq> CHR ''-''" "a \<noteq> CHR ''+''" using hex_digit_not_space by auto
  moreover have "scan_hex 0 (hs @ c # rest) = Some (hex_value hs)"
    using scan_hex_digits [OF hs(2), of c 0 rest] assms(2) by (auto simp: hex_value_def)
  ultimately show ?thesis
    using skip_0x_digits [OF hs(2,1) assms(2), of rest] hs(3) a(1) by (simp add: strtoumax16_def Let_def)
qed

lemma prot_of_token_flags:
  "prot_of_token ts flags =
     flags OR (if CHR ''r'' \<in> set ts then PROT_READ else 0) OR
     (if CHR ''w'' \<in> set ts then PROT_WRITE else 0) OR (if CHR ''x'' \<in> set ts then PROT_EXEC else 0)"
  by (induction ts arbitrary: flags) (auto simp: ac_simps)

lemma dropWhile_separator:
  assumes "tok \<noteq> []" and "sep \<notin> set tok"
  shows "dropWhile (\<lambda>c. c = sep) (replicate k sep @ tok @ rest) = tok @ rest"
proof -
  have "dropWhile (\<lambda>c. c = sep) (tok @ rest) = tok @ rest"
    using assms by (cases tok) auto
  then show ?thesis by (induction k) auto
qed

declare parse_tokens.simps(2) [simp del]

lemma parse_token_sep:
  assumes "tok \<noteq> []" and "sep \<notin> set tok" and "sep = (if token = 0 then CHR ''-'' else CHR '' '')"
  shows "parse_tokens (token # tokens) (replicate k sep @ tok @ sep # rest) entry =
     set_field token (tok @ sep # rest) tok entry \<bind> parse_tokens tokens rest"
proof -
  have "memchr sep (tok @ sep # rest) = Some (length tok)"
    using assms(2) by (induction tok) auto
  then show ?thesis
    using assms dropWhile_separator [OF assms(1,2), of k "sep # rest"]
    by (simp add: parse_tokens.simps(2) Let_def)
qed

lemma parse_token_first:
  assumes "tok \<noteq> []" and "CHR ''-'' \<notin> set tok"
  shows "parse_tokens (0 # tokens) (tok @ CHR ''-'' # rest) entry =
     set_field 0 (tok @ CHR ''-'' # rest) tok entry \<bind> parse_tokens tokens rest"
  using parse_token_sep [OF assms, of 0 tokens 0] by simp

lemma parse_token_next:
  assumes "tok \<noteq> []" and "CHR '' '' \<notin> set tok" and "token \<noteq> 0"
  shows "parse_tokens (token # tokens) (tok @ CHR '' '' # rest) entry =
     set_field token (tok @ CHR '' '' # rest) tok entry \<bind> parse_tokens tokens rest"
  using parse_token_sep [OF assms(1,2), of token tokens 0] assms(3) by simp

lemma parse_token_last:
  assumes "tok \<noteq> []" and "CHR '' '' \<notin> set tok" and "token \<noteq> 0"
  shows "parse_tokens (token # tokens) (replicate k (CHR '' '') @ tok) entry =
     set_field token tok tok entry \<bind> parse_tokens tokens []"
  using assms dropWhile_separator [OF assms(1,2), of k "[]"]
  by (simp add: parse_tokens.simps(2) Let_def memchr_None_iff [THEN iffD2])

lemma hex_string_no_sep:
  "hex_string hs \<Longrightarrow> hs \<noteq> [] \<and> CHR ''-'' \<notin> set hs \<and> CHR '' '' \<notin> set hs \<and> NEWLINE \<notin> set hs"
  by (auto simp: hex_string_def list_all_iff)

lemma word_token_no_sep:
  "word_token t \<Longrightarrow> t \<noteq> [] \<and> CHR '' '' \<notin> set t \<and> NEWLINE \<notin> set t"
  by (auto simp: word_token_def list_all_iff)

lemma strip_newlines_snoc: "NEWLINE \<notin> set t \<Longrightarrow> strip_newlines (t @ [NEWLINE]) = t"
  by (cases t rule: rev_cases) (auto simp: strip_newlines_def)

lemma parse_print_line:
  assumes "maps_line_ok l"
  shows "ParseProcMapsLine (print_maps_line l @ [NEWLINE]) entry0 =
     Some (Some (entry_of_line l :: ('w::len) word proc_entry))"
proof -
  note ok = assms [unfolded maps_line_ok_def]
  have h: "hex_string (ml_start l)" "hex_string (ml_end l)" "hex_string (ml_offset l)"
    and w: "word_token (ml_perms l)" "word_token (ml_dev l)" "word_token (ml_inode l)"
    using ok by auto
  note sep = hex_string_no_sep [OF h(1)] hex_string_no_sep [OF h(2)] hex_string_no_sep [OF h(3)]
    word_token_no_sep [OF w(1)] word_token_no_sep [OF w(2)] word_token_no_sep [OF w(3)]
  note tok = parse_token_first parse_token_next
  have seven: "[0..<7] = [0, 1, 2, 3, 4, 5, 6::nat]" by (simp add: upt_rec)
  define tl where "tl = ml_inode l @ (case ml_path l of None \<Rightarrow> [] | Some (pad, path) \<Rightarrow>
      CHR '' '' # replicate pad (CHR '' '') @ path) @ [NEWLINE]"
  let ?e = "(entry0 :: 'w word proc_entry)\<lparr>vma_start := word_of_nat (hex_value (ml_start l)),
      vma_end := word_of_nat (hex_value (ml_end l)), prot_flags := prot_of_token (ml_perms l) 0,
      load_offset := word_of_nat (hex_value (ml_offset l)) * 4096\<rparr>"
  have front: "ParseProcMapsLine (print_maps_line l @ [NEWLINE]) entry0 = parse_tokens [5, 6] tl ?e"
    unfolding ParseProcMapsLine_def seven print_maps_line_def tl_def
    using sep h w by (simp add: tok set_field_def strtoumax16_digits split: option.splits)
  show ?thesis
  proof (cases "ml_path l")
    case None
    have "parse_tokens [5, 6] tl ?e = Some (Some (?e\<lparr>entry_path := None, path_len := 0\<rparr>))"
      using None sep parse_token_last [of "ml_inode l @ [NEWLINE]" 5 "[6]" 0 ?e]
      by (simp add: tl_def set_field_def parse_tokens.simps(2) [of 6 "[]" "[]"])
    also have "?e\<lparr>entry_path := None, path_len := 0\<rparr> = entry_of_line l"
      using None by (simp add: entry_of_line_def entry0_def prot_of_token_flags)
    finally show ?thesis using front by simp
  next
    case (Some pp)
    obtain pad path where pp: "pp = (pad, path)" by (cases pp)
    with ok Some have path: "path \<noteq> []" "CHR '' '' \<notin> set path" "NEWLINE \<notin> set path"
      using word_token_no_sep [of path] by auto
    have "parse_tokens [6] (replicate pad (CHR '' '') @ path @ [NEWLINE]) ?e =
        Some (Some (?e\<lparr>entry_path := Some path, path_len := length path\<rparr>))"
      using path parse_token_last [of "path @ [NEWLINE]" 6 "[]" pad]
      by (simp add: set_field_def strip_newlines_snoc)
    then have "parse_tokens [5, 6] tl ?e = Some (Some (?e\<lparr>entry_path := Some path, path_len := length path\<rparr>))"
      using Some pp sep by (simp add: tl_def tok set_field_def)
    also have "?e\<lparr>entry_path := Some path, path_len := length path\<rparr> = entry_of_line l"
      using Some pp by (simp add: entry_of_line_def entry0_def prot_of_token_flags)
    finally show ?thesis using front by simp
  qed
qed

lemma print_no_newline: "maps_line_ok l \<Longrightarrow> NEWLINE \<notin> set (print_maps_line l)"
  by (auto simp: maps_line_ok_def print_maps_line_def hex_string_no_sep word_token_no_sep split: option.splits)

lemma split_concat_lines:
  assumes "\<forall>l \<in> set ls. NEWLINE \<notin> set l"
  shows "split_terminated NEWLINE (concat (map (\<lambda>l. l @ [NEWLINE]) ls)) = ls"
  using assms by (induction ls) (simp_all add: split_terminated_sep)

lemma parse_lines_print:
  assumes "\<forall>l \<in> set ls. maps_line_ok l"
  shows "parse_lines (map (\<lambda>l. print_maps_line l @ [NEWLINE]) ls) = Some (map entry_of_line ls)"
  using assms by (induction ls) (simp_all add: parse_print_line)

section \<open>Lemmas on the searches\<close>

lemma entry_loop_first:
  "fst (entry_loop body m) = first_some body (drop (pm_index m) (pm_entries m))"
proof (induction body m rule: entry_loop.induct)
  case (1 body m)
  show ?case
  proof (cases "pm_index m \<ge> length (pm_entries m)")
    case True
    then show ?thesis by (simp add: entry_loop.simps GetNextEntry_def)
  next
    case False
    then have "drop (pm_index m) (pm_entries m) =
        pm_entries m ! pm_index m # drop (Suc (pm_index m)) (pm_entries m)"
      by (simp add: Cons_nth_drop_Suc)
    with False 1 show ?thesis
      by (subst entry_loop.simps) (auto simp: GetNextEntry_def split: option.splits)
  qed
qed

lemma GetProtectionFlags_find:
  "fst (GetProtectionFlagsForAddress addr m) =
     (case find (entry_contains addr) (pm_entries m) of None \<Rightarrow> 0 | Some e \<Rightarrow> prot_flags e)"
proof -
  let ?body = "\<lambda>entry. if entry_contains addr entry then Some (prot_flags entry) else None"
  obtain o' m' where "entry_loop ?body (ProcMaps_Rewind m) = (o', m')" by force
  moreover from this have "o' = map_option prot_flags (find (entry_contains addr) (pm_entries m))"
    using entry_loop_first [of ?body "ProcMaps_Rewind m"] by (simp add: first_some_find ProcMaps_Rewind_def)
  ultimately show ?thesis
    by (auto simp: GetProtectionFlagsForAddress_def split: option.splits)
qed

text \<open>The file that a search by name selects.\<close>

definition file_matches :: "char list \<Rightarrow> ('w::len) word proc_entry \<Rightarrow> bool" where
  "file_matches name e \<longleftrightarrow>
     (case entry_path e of
        None \<Rightarrow> False
      | Some path \<Rightarrow> path \<noteq> [] \<and> hd path \<noteq> CHR ''['' \<and>
          (if CHR ''/'' \<in> set name then path = name else GetBaseNamePtr path = name))"

definition entry_ok :: "('w::len) word proc_entry \<Rightarrow> bool" where
  "entry_ok e \<longleftrightarrow> path_len e = (case entry_path e of None \<Rightarrow> 0 | Some path \<Rightarrow> length path)"

lemma FindLoadAddress_find:
  assumes "list_all entry_ok (pm_entries m)" and "pm_index m = 0"
  shows "FindLoadAddressForFile m name =
     map_option (\<lambda>e. (vma_start e, load_offset e)) (find (file_matches name) (pm_entries m))"
proof -
  have "first_some (\<lambda>entry. case entry_path entry of
          None \<Rightarrow> None
        | Some path \<Rightarrow>
            if path_len entry = 0 \<or> path ! 0 = CHR ''['' then None
            else
              let entry_name =
                (if memchr (CHR ''/'') name = None
                 then (case memrchr (CHR ''/'') path of None \<Rightarrow> path | Some i \<Rightarrow> drop (i + 1) path)
                 else path)
              in if length name = length entry_name \<and> name = entry_name
                 then Some (vma_start entry, load_offset entry) else None) es =
      map_option (\<lambda>e. (vma_start e, load_offset e)) (find (file_matches name) es)"
    if "list_all entry_ok es" for es :: "'a word proc_entry list"
    using that
    by (induction es)
      (auto simp: file_matches_def entry_ok_def memchr_None_iff GetBaseNamePtr_def hd_conv_nth Let_def
        split: option.splits)
  from this [OF assms(1)] show ?thesis
    unfolding FindLoadAddressForFile_def Let_def entry_loop_first assms(2) drop_0 .
qed

section \<open>Properties\<close>

text \<open>C33: A maps file in the kernel's format, with lines shorter than 256 characters and paths
  without blanks, read through the line reader and parsed, gives exactly the entries that were
  printed: addresses, protection bits and paths, and 4096 times the offset field.\<close>

theorem ProcMaps_Open_round_trip:
  assumes "byte_source read remaining" and "length (buff0 reader) = 128"
    and "remaining fd = concat (map (\<lambda>l. print_maps_line l @ [NEWLINE]) ls)"
    and "length (remaining fd) < 2 ^ 30"
    and "\<forall>l \<in> set ls. maps_line_ok l \<and> length (print_maps_line l) < 256"
  shows "ProcMaps_Open read moves junk reader True fd =
     Some \<lparr>pm_index = 0, pm_entries = map entry_of_line ls\<rparr>"
proof -
  have split: "split_terminated NEWLINE (remaining fd) = map print_maps_line ls"
    using split_concat_lines [of "map print_maps_line ls"] assms(3,5)
    by (simp add: print_no_newline comp_def)
  have "read_lines read moves junk (LineReader_Open True reader) fd =
      Some (map (\<lambda>l. l @ [NEWLINE]) (split_terminated NEWLINE (remaining fd)))"
    using byte_source.read_lines_spec [OF assms(1) lr_inv_Open(1) [OF assms(2)] assms(4)
        lr_inv_Open(3) [OF assms(2)], of moves True junk]
      lr_inv_Open(2) [OF assms(2), of remaining fd] split assms(5) by auto
  with split assms(5) show ?thesis
    by (simp add: ProcMaps_Open_def parse_lines_print comp_def)
qed

text \<open>The searches return what the entry that holds the address, or the first entry of the
  file, says. An address outside every entry has no protection bits and no binary. A name without
  a slash is compared with the last component of the path, a name with one with the whole path,
  and the pseudo files in brackets never match.\<close>

theorem ProcMaps_searches:
  assumes "list_all entry_ok (pm_entries m)" and "pm_index m = 0" and "0 < length buf"
  shows "FindProtectionFlagsForAddress m addr =
       map_option prot_flags (find (entry_contains addr) (pm_entries m)) \<and>
     FindLoadAddressForFile m name =
       map_option (\<lambda>e. (vma_start e, load_offset e)) (find (file_matches name) (pm_entries m)) \<and>
     FindElfBinaryForAddress m addr buf =
       Some (case find (entry_contains addr) (pm_entries m) of
           None \<Rightarrow> (False, None, buf)
         | Some e \<Rightarrow>
             (case entry_path e of
                None \<Rightarrow> (False, Some (vma_start e), buf)
              | Some path \<Rightarrow>
                  if length path < length buf
                  then (True, Some (vma_start e), path @ NUL # drop (Suc (length path)) buf)
                  else (False, Some (vma_start e), buf)))"
proof (intro conjI)
  show "FindProtectionFlagsForAddress m addr =
      map_option prot_flags (find (entry_contains addr) (pm_entries m))"
    by (simp add: FindProtectionFlagsForAddress_def entry_loop_first first_some_find assms(2))
  show "FindLoadAddressForFile m name =
      map_option (\<lambda>e. (vma_start e, load_offset e)) (find (file_matches name) (pm_entries m))"
    by (rule FindLoadAddress_find [OF assms(1,2)])
  have "entry_ok e" if "find (entry_contains addr) (pm_entries m) = Some e" for e
    using that assms(1) by (auto simp: list_all_iff find_Some_iff)
  then show "FindElfBinaryForAddress m addr buf =
       Some (case find (entry_contains addr) (pm_entries m) of
           None \<Rightarrow> (False, None, buf)
         | Some e \<Rightarrow>
             (case entry_path e of
                None \<Rightarrow> (False, Some (vma_start e), buf)
              | Some path \<Rightarrow>
                  if length path < length buf
                  then (True, Some (vma_start e), path @ NUL # drop (Suc (length path)) buf)
                  else (False, Some (vma_start e), buf)))"
    unfolding FindElfBinaryForAddress_def entry_loop_first first_some_find assms(2) drop_0
    by (auto simp: entry_ok_def buf_simps split: option.splits)
qed

definition maps_example :: "maps_line list" where
  "maps_example =
     [\<lparr>ml_start = ''4000b000'', ml_end = ''4000c000'', ml_perms = ''r--p'', ml_offset = ''00000000'',
       ml_dev = ''00:00'', ml_inode = ''0'', ml_path = None\<rparr>,
      \<lparr>ml_start = ''40231000'', ml_end = ''40277000'', ml_perms = ''r-xp'', ml_offset = ''00001000'',
       ml_dev = ''b3:01'', ml_inode = ''638'', ml_path = Some (7, ''/system/lib/libc.so'')\<rparr>]"

lemma maps_example_ok:
  "\<forall>l \<in> set maps_example. maps_line_ok l \<and> length (print_maps_line l) < 256"
  by (simp add: maps_example_def maps_line_ok_def hex_string_def word_token_def hex_digit_def
      hex_value_def print_maps_line_def)

theorem ProcMaps_Open_round_trip_witness:
  "ProcMaps_Open MockFileHandle_Read (\<lambda>_. True) (\<lambda>_. NUL)
     \<lparr>lr_eof = True, line_start = 0, line_len = 0, buff_size = 0, buff_capacity = 128, lr_heap = None,
      buff0 = replicate 128 NUL\<rparr> True
     \<lparr>mh_data = concat (map (\<lambda>l. print_maps_line l @ [NEWLINE]) maps_example), mh_offset = 0\<rparr> =
   Some \<lparr>pm_index = 0, pm_entries =
     [\<lparr>vma_start = 0x4000b000, vma_end = 0x4000c000, prot_flags = 1, load_offset = 0, entry_path = None,
       path_len = 0\<rparr>,
      \<lparr>vma_start = 0x40231000, vma_end = 0x40277000, prot_flags = 5, load_offset = 0x1000000 :: 32 word,
       entry_path = Some ''/system/lib/libc.so'', path_len = 19\<rparr>]\<rparr>"
proof -
  have "map entry_of_line maps_example =
     [\<lparr>vma_start = 0x4000b000, vma_end = 0x4000c000, prot_flags = 1, load_offset = 0, entry_path = None,
       path_len = 0\<rparr>,
      \<lparr>vma_start = 0x40231000, vma_end = 0x40277000, prot_flags = 5, load_offset = 0x1000000 :: 32 word,
       entry_path = Some ''/system/lib/libc.so'', path_len = 19\<rparr>]"
    by (simp add: maps_example_def entry_of_line_def hex_value_def hex_digit_def PROT_READ_def PROT_EXEC_def)
  moreover have "length (concat (map (\<lambda>l. print_maps_line l @ [NEWLINE]) maps_example)) < 2 ^ 30"
    by (simp add: maps_example_def print_maps_line_def)
  ultimately show ?thesis
    by (subst ProcMaps_Open_round_trip [OF mock_file.byte_source_axioms, where ls = maps_example])
      (use maps_example_ok in \<open>simp_all add: mock_remaining_def\<close>)
qed

theorem ProcMaps_searches_witness:
  "FindElfBinaryForAddress \<lparr>pm_index = 0, pm_entries = map entry_of_line maps_example\<rparr> (0x40231010 :: 32 word)
     (replicate 64 (CHR ''?'')) =
   Some (True, Some 0x40231000, ''/system/lib/libc.so'' @ NUL # replicate 44 (CHR ''?''))"
proof -
  let ?m = "\<lparr>pm_index = 0, pm_entries = map entry_of_line maps_example\<rparr> :: 32 word proc_maps"
  have ok: "list_all entry_ok (pm_entries ?m)"
    by (simp add: maps_example_def entry_of_line_def entry_ok_def)
  have fnd: "find (entry_contains (0x40231010 :: 32 word)) (pm_entries ?m) = Some (pm_entries ?m ! 1)"
    by (simp add: maps_example_def entry_of_line_def entry_contains_def hex_value_def hex_digit_def)
  show ?thesis
    using ProcMaps_searches [OF ok, of "replicate 64 (CHR ''?'')" "0x40231010" "[]"]
    unfolding fnd by (simp add: maps_example_def entry_of_line_def hex_value_def hex_digit_def)
qed

end
