(* ===== verification/Elf_Types.thy ===== *)
theory Elf_Types
  imports Proc_Maps
begin

text \<open>
  Vocabulary of the ELF components: the types of \<open>elf_traits.h\<close>, whose width \<open>'w\<close> is the width of
  a pointer (32 or 64 in the source), the page macros of \<open>linker_phdr.cpp\<close>, program headers, and
  the address space of the process as the linker sees it: the bytes, and the protection of every
  mapped address. The range tests are circular, as the address arithmetic of the source is.
\<close>

section \<open>Pages\<close>

definition PAGE_MASK :: "'w::len word" where
  "PAGE_MASK = NOT (4096 - 1)"

definition PAGE_START :: "'w::len word \<Rightarrow> 'w word" where
  "PAGE_START x = x AND PAGE_MASK"

definition PAGE_OFFSET :: "'w::len word \<Rightarrow> 'w word" where
  "PAGE_OFFSET x = x AND NOT PAGE_MASK"

definition PAGE_END :: "'w::len word \<Rightarrow> 'w word" where
  "PAGE_END x = PAGE_START (x + (4096 - 1))"

section \<open>Program headers\<close>

text \<open>The fields of \<open>Elf32_Phdr\<close> and \<open>Elf64_Phdr\<close> that the linker reads.\<close>

record 'addr phdr =
  p_type :: "32 word"
  p_flags :: "32 word"
  p_offset :: 'addr
  p_vaddr :: 'addr
  p_filesz :: 'addr
  p_memsz :: 'addr

definition PT_LOAD :: "32 word" where "PT_LOAD = 1"
definition PT_DYNAMIC :: "32 word" where "PT_DYNAMIC = 2"
definition PT_PHDR :: "32 word" where "PT_PHDR = 6"
definition PT_GNU_RELRO :: "32 word" where "PT_GNU_RELRO = 0x6474e552"
definition PT_ARM_EXIDX :: "32 word" where "PT_ARM_EXIDX = 0x70000001"

definition PF_X :: "32 word" where "PF_X = 1"
definition PF_W :: "32 word" where "PF_W = 2"
definition PF_R :: "32 word" where "PF_R = 4"

definition MAYBE_MAP_FLAG :: "32 word \<Rightarrow> 32 word \<Rightarrow> 32 word \<Rightarrow> 32 word" where
  "MAYBE_MAP_FLAG x from to = (if x AND from \<noteq> 0 then to else 0)"

definition PFLAGS_TO_PROT :: "32 word \<Rightarrow> 32 word" where
  "PFLAGS_TO_PROT x =
     MAYBE_MAP_FLAG x PF_X PROT_EXEC OR MAYBE_MAP_FLAG x PF_R PROT_READ OR MAYBE_MAP_FLAG x PF_W PROT_WRITE"

text \<open>The sizes of the structures of the two ELF classes.\<close>

definition sizeof_Phdr :: "nat \<Rightarrow> nat" where
  "sizeof_Phdr bits = (if bits = 32 then 32 else 56)"

definition sizeof_Dyn :: "nat \<Rightarrow> nat" where
  "sizeof_Dyn bits = (if bits = 32 then 8 else 16)"

definition sizeof_Ehdr :: "nat \<Rightarrow> nat" where
  "sizeof_Ehdr bits = (if bits = 32 then 52 else 64)"

section \<open>The address space\<close>

record 'addr vm =
  vm_byte :: "'addr \<Rightarrow> byte"
  vm_prot :: "'addr \<Rightarrow> 32 word option"

definition in_range :: "'w::len word \<Rightarrow> 'w word \<Rightarrow> 'w word \<Rightarrow> bool" where
  "in_range a start len \<longleftrightarrow> a - start < len"

definition vm_set_prot :: "'w::len word \<Rightarrow> 'w word \<Rightarrow> 32 word option \<Rightarrow> 'w word vm \<Rightarrow> 'w word vm" where
  "vm_set_prot start len prot vm =
     vm\<lparr>vm_prot := (\<lambda>a. if in_range a start len then prot else vm_prot vm a)\<rparr>"

definition vm_set_bytes :: "'w::len word \<Rightarrow> 'w word \<Rightarrow> ('w word \<Rightarrow> byte) \<Rightarrow> 'w word vm \<Rightarrow> 'w word vm" where
  "vm_set_bytes start len f vm =
     vm\<lparr>vm_byte := (\<lambda>a. if in_range a start len then f (a - start) else vm_byte vm a)\<rparr>"

text \<open>
  The system calls on the address space. Whether the kernel refuses a call is the argument
  \<open>refuse\<close>; a call that is not refused does what it documents on the pages of its range.
\<close>

type_synonym 'addr refusal = "'addr \<Rightarrow> 'addr \<Rightarrow> bool"

definition sys_mprotect ::
  "'w word refusal \<Rightarrow> 'w::len word \<Rightarrow> 'w word \<Rightarrow> 32 word \<Rightarrow> 'w word vm \<Rightarrow> int \<times> 'w word vm" where
  "sys_mprotect refuse start len prot vm =
     (if refuse start len then (- 1, vm) else (0, vm_set_prot start (PAGE_END len) (Some prot) vm))"

text \<open>\<open>mmap\<close> with \<open>MAP_FIXED\<close>: of a file, at an offset, or of zeroed memory.\<close>

definition sys_mmap_file ::
  "'w word refusal \<Rightarrow> (nat \<Rightarrow> byte) \<Rightarrow> 'w::len word \<Rightarrow> 'w word \<Rightarrow> 32 word \<Rightarrow> nat \<Rightarrow> 'w word vm \<Rightarrow>
     'w word vm option" where
  "sys_mmap_file refuse file start len prot offset vm =
     (if refuse start len then None
      else Some (vm_set_prot start (PAGE_END len) (Some prot)
             (vm_set_bytes start (PAGE_END len) (\<lambda>i. file (offset + unat i)) vm)))"

definition sys_mmap_anon ::
  "'w word refusal \<Rightarrow> 'w::len word \<Rightarrow> 'w word \<Rightarrow> 32 word \<Rightarrow> 'w word vm \<Rightarrow> 'w word vm option" where
  "sys_mmap_anon refuse start len prot vm =
     (if refuse start len then None
      else Some (vm_set_prot start (PAGE_END len) (Some prot) (vm_set_bytes start (PAGE_END len) (\<lambda>_. 0) vm)))"

definition sys_munmap :: "'w::len word \<Rightarrow> 'w word \<Rightarrow> 'w word vm \<Rightarrow> 'w word vm" where
  "sys_munmap start len vm = vm_set_prot start (PAGE_END len) None vm"

section \<open>Little-endian values\<close>

fun le_nat :: "byte list \<Rightarrow> nat" where
  "le_nat [] = 0"
| "le_nat (b # bs) = unat b + 256 * le_nat bs"

fun le_bytes :: "nat \<Rightarrow> nat \<Rightarrow> byte list" where
  "le_bytes 0 v = []"
| "le_bytes (Suc n) v = word_of_nat v # le_bytes n (v div 256)"

text \<open>The value of \<open>n\<close> bytes at a position of a byte sequence.\<close>

definition le_at :: "(nat \<Rightarrow> byte) \<Rightarrow> nat \<Rightarrow> nat \<Rightarrow> nat" where
  "le_at f pos n = le_nat (map (\<lambda>i. f (pos + i)) [0..<n])"

text \<open>
  \<open>Elf32_Phdr\<close> and \<open>Elf64_Phdr\<close>, \<open>Elf32_Ehdr\<close> and \<open>Elf64_Ehdr\<close> as they are laid out in a file or
  in memory; the class is given by the width of an address.
\<close>

definition decode_phdr :: "(nat \<Rightarrow> byte) \<Rightarrow> nat \<Rightarrow> ('w::len) word phdr" where
  "decode_phdr f pos =
     (if LENGTH('w) = 32
      then \<lparr>p_type = word_of_nat (le_at f pos 4), p_flags = word_of_nat (le_at f (pos + 24) 4),
            p_offset = word_of_nat (le_at f (pos + 4) 4), p_vaddr = word_of_nat (le_at f (pos + 8) 4),
            p_filesz = word_of_nat (le_at f (pos + 16) 4), p_memsz = word_of_nat (le_at f (pos + 20) 4)\<rparr>
      else \<lparr>p_type = word_of_nat (le_at f pos 4), p_flags = word_of_nat (le_at f (pos + 4) 4),
            p_offset = word_of_nat (le_at f (pos + 8) 8), p_vaddr = word_of_nat (le_at f (pos + 16) 8),
            p_filesz = word_of_nat (le_at f (pos + 32) 8), p_memsz = word_of_nat (le_at f (pos + 40) 8)\<rparr>)"

record 'addr ehdr =
  e_ident :: "byte list"
  e_type :: nat
  e_machine :: nat
  e_version :: nat
  e_phoff :: 'addr
  e_phnum :: nat

definition decode_ehdr :: "(nat \<Rightarrow> byte) \<Rightarrow> nat \<Rightarrow> ('w::len) word ehdr" where
  "decode_ehdr f pos =
     \<lparr>e_ident = map (\<lambda>i. f (pos + i)) [0..<16],
      e_type = le_at f (pos + 16) 2, e_machine = le_at f (pos + 18) 2, e_version = le_at f (pos + 20) 4,
      e_phoff = (if LENGTH('w) = 32 then word_of_nat (le_at f (pos + 28) 4)
                 else word_of_nat (le_at f (pos + 32) 8)),
      e_phnum = (if LENGTH('w) = 32 then le_at f (pos + 44) 2 else le_at f (pos + 56) 2)\<rparr>"

section \<open>Lemmas on pages\<close>

lemma PAGE_START_minus: "PAGE_START x = x - take_bit 12 x"
proof -
  have m: "(4096 - 1 :: 'a word) = mask 12" by (simp add: mask_eq_exp_minus_1)
  have "x - take_bit 12 x = x AND NOT (take_bit 12 x)"
    by (rule disjunctive_diff) (simp add: bit_simps)
  also have "\<dots> = x AND NOT (mask 12)"
    by (rule bit_eqI) (auto simp: bit_simps)
  finally show ?thesis unfolding PAGE_START_def PAGE_MASK_def m by simp
qed

lemma PAGE_OFFSET_take_bit: "PAGE_OFFSET x = take_bit 12 x"
proof -
  have m: "(4096 - 1 :: 'a word) = mask 12" by (simp add: mask_eq_exp_minus_1)
  show ?thesis unfolding PAGE_OFFSET_def PAGE_MASK_def m by (simp add: take_bit_eq_mask)
qed

lemma unat_take_bit_12: "unat (take_bit 12 x) = unat x mod 4096"
  unfolding unsigned_take_bit_eq by (simp add: take_bit_eq_mod)

lemma unat_PAGE_OFFSET: "unat (PAGE_OFFSET x) = unat x mod 4096"
  by (simp add: PAGE_OFFSET_take_bit unat_take_bit_12)

lemma unat_PAGE_START: "unat (PAGE_START x) = unat x div 4096 * 4096"
proof -
  have "take_bit 12 x \<le> x" by (simp add: word_le_nat_alt unat_take_bit_12)
  then have "unat (x - take_bit 12 x) = unat x - unat x mod 4096"
    by (simp add: unat_sub unat_take_bit_12)
  then show ?thesis by (simp add: PAGE_START_minus minus_mod_eq_div_mult)
qed

lemma PAGE_START_plus_OFFSET: "PAGE_START x + PAGE_OFFSET x = x"
  by (simp add: PAGE_START_minus PAGE_OFFSET_take_bit)

lemma unat_word_of_nat_small: "n < 2 ^ LENGTH('w::len) \<Longrightarrow> unat (word_of_nat n :: 'w word) = n"
  by (simp add: unsigned_of_nat take_bit_nat_eq_self)

lemma unat_plus_small:
  fixes x y :: "'w::len word"
  assumes "unat x + unat y < 2 ^ LENGTH('w)"
  shows "unat (x + y) = unat x + unat y"
  using assms by (simp add: unat_word_ariths)

lemma unat_minus_small:
  fixes x y :: "'w::len word"
  assumes "unat y \<le> unat x"
  shows "unat (x - y) = unat x - unat y"
  using assms by (simp add: unat_sub word_le_nat_alt)

lemma unat_PAGE_END:
  fixes x :: "'w::len word"
  assumes "unat x + 4095 < 2 ^ LENGTH('w)"
  shows "unat (PAGE_END x) = (unat x + 4095) div 4096 * 4096"
proof -
  have "x + (4096 - 1) = word_of_nat (unat x + 4095)" by simp
  then show ?thesis
    using unat_word_of_nat_small [OF assms] by (simp add: PAGE_END_def unat_PAGE_START)
qed

lemma page_bounds:
  fixes n :: nat
  shows "n div 4096 * 4096 \<le> n" "n < n div 4096 * 4096 + 4096" "n \<le> (n + 4095) div 4096 * 4096"
    "(n + 4095) div 4096 * 4096 < n + 4096"
  using div_mult_mod_eq [of n 4096] mod_less_divisor [of 4096 n]
    div_mult_mod_eq [of "n + 4095" 4096] mod_less_divisor [of 4096 "n + 4095"]
  by linarith+

lemma PAGE_START_aligned:
  "unat (PAGE_START x) mod 4096 = 0"
  by (simp add: unat_PAGE_START)

lemma PAGE_START_mono: "unat x \<le> unat y \<Longrightarrow> unat (PAGE_START x) \<le> unat (PAGE_START y)"
  by (simp add: unat_PAGE_START div_le_mono)

text \<open>The page boundaries below and above a number.\<close>

definition page_down :: "nat \<Rightarrow> nat" where
  "page_down n = n div 4096 * 4096"

definition page_up :: "nat \<Rightarrow> nat" where
  "page_up n = (n + 4095) div 4096 * 4096"

lemma page_down_le: "page_down n \<le> n"
  and le_page_up: "n \<le> page_up n"
  and page_up_less: "page_up n < n + 4096"
  by (simp_all add: page_down_def page_up_def page_bounds)

lemma page_down_mod: "page_down n + n mod 4096 = n"
  by (simp add: page_down_def)

lemma page_up_shift: "page_up (page_down m + n) = page_down m + page_up n"
proof -
  have "(page_down m + n + 4095) div 4096 = m div 4096 + (n + 4095) div 4096"
    using div_mult_self1 [of 4096 "n + 4095" "m div 4096"]
    by (simp add: page_down_def ac_simps)
  then show ?thesis
    unfolding page_up_def by (simp add: page_down_def distrib_right)
qed

lemma page_up_split: "page_up n = page_down n + page_up (n mod 4096)"
  using page_up_shift [of n "n mod 4096"] by (simp add: page_down_mod)

lemma page_up_aligned: "n mod 4096 = 0 \<Longrightarrow> page_up n = n"
  using page_down_mod [of n] by (simp add: page_up_split [of n]) (simp add: page_up_def)

lemma page_up_unaligned:
  assumes "0 < n mod 4096"
  shows "page_up n = n + (4096 - n mod 4096)"
proof -
  have "n mod 4096 < 4096" by simp
  then have "(n mod 4096 + 4095) div 4096 = 1"
    using assms by (intro div_nat_eqI) simp_all
  then have "page_up (n mod 4096) = 4096" by (simp add: page_up_def)
  then show ?thesis
    using page_up_split [of n] page_down_mod [of n] \<open>n mod 4096 < 4096\<close> by linarith
qed

lemma page_up_mod [simp]: "page_up n mod 4096 = 0"
  by (simp add: page_up_def)

lemma page_down_page_up [simp]: "page_up (page_up n) = page_up n"
  by (simp add: page_up_aligned)

lemma page_up_mono: "m \<le> n \<Longrightarrow> page_up m \<le> page_up n"
  by (simp add: page_up_def div_le_mono)

lemma page_down_mono: "m \<le> n \<Longrightarrow> page_down m \<le> page_down n"
  by (simp add: page_down_def div_le_mono)

lemma page_diff_mod: "m mod 4096 = 0 \<Longrightarrow> n mod 4096 = 0 \<Longrightarrow> (m - n) mod (4096::nat) = 0"
  by (metis dvd_eq_mod_eq_0 dvd_diff_nat)

lemma in_range_nat:
  fixes a start len :: "'w::len word"
  assumes "unat start + unat len \<le> 2 ^ LENGTH('w)"
  shows "in_range a start len \<longleftrightarrow> unat start \<le> unat a \<and> unat a < unat start + unat len"
proof (cases "start \<le> a")
  case True
  then show ?thesis
    by (auto simp: in_range_def word_less_nat_alt unat_sub word_le_nat_alt)
next
  case False
  then have "unat (a - start) = 2 ^ LENGTH('w) + unat a - unat start"
    by (auto simp: unat_sub_if' word_le_nat_alt)
  with False assms show ?thesis
    by (auto simp: in_range_def word_less_nat_alt word_le_nat_alt)
qed

text \<open>The system calls in terms of unsigned addresses.\<close>

lemma vm_set_bytes_nat:
  fixes vm :: "('w::len) word vm"
  assumes "unat start + unat len \<le> 2 ^ LENGTH('w)"
  shows "vm_byte (vm_set_bytes start len f vm) a =
     (if unat start \<le> unat a \<and> unat a < unat start + unat len then f (a - start) else vm_byte vm a)"
  using in_range_nat [OF assms, of a] by (simp add: vm_set_bytes_def)

lemma vm_set_prot_nat:
  fixes vm :: "('w::len) word vm"
  assumes "unat start + unat len \<le> 2 ^ LENGTH('w)"
  shows "vm_prot (vm_set_prot start len p vm) a =
     (if unat start \<le> unat a \<and> unat a < unat start + unat len then p else vm_prot vm a)"
  using in_range_nat [OF assms, of a] by (simp add: vm_set_prot_def)

lemma vm_set_other [simp]:
  "vm_prot (vm_set_bytes start len f vm) = vm_prot vm" "vm_byte (vm_set_prot start len p vm) = vm_byte vm"
  by (simp_all add: vm_set_bytes_def vm_set_prot_def)

lemma mmap_file_nat:
  fixes vm :: "('w::len) word vm"
  assumes "sys_mmap_file refuse f start len prot off vm = Some vm'"
    and "unat start + unat (PAGE_END len) \<le> 2 ^ LENGTH('w)"
  shows "vm_byte vm' a = (if unat start \<le> unat a \<and> unat a < unat start + unat (PAGE_END len)
       then f (off + (unat a - unat start)) else vm_byte vm a)"
    "vm_prot vm' a = (if unat start \<le> unat a \<and> unat a < unat start + unat (PAGE_END len)
       then Some prot else vm_prot vm a)"
  using assms(1) vm_set_bytes_nat [OF assms(2)] vm_set_prot_nat [OF assms(2)]
  by (auto simp: sys_mmap_file_def unat_minus_small split: if_splits)

lemma mmap_anon_nat:
  fixes vm :: "('w::len) word vm"
  assumes "sys_mmap_anon refuse start len prot vm = Some vm'"
    and "unat start + unat (PAGE_END len) \<le> 2 ^ LENGTH('w)"
  shows "vm_byte vm' a = (if unat start \<le> unat a \<and> unat a < unat start + unat (PAGE_END len)
       then 0 else vm_byte vm a)"
    "vm_prot vm' a = (if unat start \<le> unat a \<and> unat a < unat start + unat (PAGE_END len)
       then Some prot else vm_prot vm a)"
  using assms(1) vm_set_bytes_nat [OF assms(2)] vm_set_prot_nat [OF assms(2)]
  by (auto simp: sys_mmap_anon_def split: if_splits)

lemma aligned_below_top:
  fixes n :: nat
  assumes "n mod 4096 = 0" and "n < 2 ^ w" and "12 \<le> w"
  shows "n + 4095 < 2 ^ w"
proof -
  obtain k where k: "n = 4096 * k" using assms(1) by (metis mod_0_imp_dvd dvd_def)
  have "(2::nat) ^ w = 2 ^ 12 * 2 ^ (w - 12)" using assms(3) by (metis le_add_diff_inverse power_add)
  then have W: "(2::nat) ^ w = 4096 * 2 ^ (w - 12)" by simp
  with assms(2) k have "k < 2 ^ (w - 12)" by simp
  then have "4096 * (k + 1) \<le> 4096 * 2 ^ (w - 12)" by (intro mult_le_mono) simp_all
  with W k show ?thesis by simp
qed

lemma unat_PAGE_END_aligned:
  fixes x :: "'w::len word"
  assumes "unat x mod 4096 = 0" and "12 \<le> LENGTH('w)"
  shows "unat (PAGE_END x) = unat x"
  using unat_PAGE_END [OF aligned_below_top [OF assms(1) unsigned_less assms(2)]] assms(1)
    page_up_aligned [of "unat x"] by (simp add: page_up_def)

lemma width_at_least_12: "4095 < (2::nat) ^ w \<Longrightarrow> 12 \<le> w"
proof (rule ccontr)
  assume "4095 < (2::nat) ^ w" "\<not> 12 \<le> w"
  then have "(2::nat) ^ w \<le> 2 ^ 11" by (intro power_increasing) auto
  with \<open>4095 < 2 ^ w\<close> show False by simp
qed

end
