(* ===== verification/Linker_Phdr.thy ===== *)
theory Linker_Phdr
  imports Elf_Types
begin

text \<open>
  The program header table, \<open>linker_phdr.cpp\<close>: the extent of the loadable segments, the protection
  of segments before and after relocation, and the \<open>PT_GNU_RELRO\<close>, \<open>PT_ARM_EXIDX\<close> and \<open>PT_DYNAMIC\<close>
  entries. A table is the list of its entries.
\<close>

section \<open>The extent of the loadable segments\<close>

text \<open>The state of the loop: \<open>min_vaddr\<close>, \<open>max_vaddr\<close>, \<open>found_pt_load\<close>.\<close>

fun load_size_loop ::
  "('w::len) word phdr list \<Rightarrow> 'w word \<Rightarrow> 'w word \<Rightarrow> bool \<Rightarrow> 'w word \<times> 'w word \<times> bool" where
  "load_size_loop [] min_vaddr max_vaddr found = (min_vaddr, max_vaddr, found)"
| "load_size_loop (ph # phs) min_vaddr max_vaddr found =
     (if p_type ph \<noteq> PT_LOAD then load_size_loop phs min_vaddr max_vaddr found
      else load_size_loop phs
             (if p_vaddr ph < min_vaddr then p_vaddr ph else min_vaddr)
             (if p_vaddr ph + p_memsz ph > max_vaddr then p_vaddr ph + p_memsz ph else max_vaddr)
             True)"

text \<open>The result: the size, and what is stored through \<open>out_min_vaddr\<close> and \<open>out_max_vaddr\<close>.\<close>

definition phdr_table_get_load_size :: "('w::len) word phdr list \<Rightarrow> 'w word \<times> 'w word \<times> 'w word" where
  "phdr_table_get_load_size phdr_table =
     (let (min_vaddr, max_vaddr, found_pt_load) = load_size_loop phdr_table (NOT 0) 0 False;
          min_vaddr = (if \<not> found_pt_load then 0 else min_vaddr);
          min_vaddr = PAGE_START min_vaddr;
          max_vaddr = PAGE_END max_vaddr
      in (max_vaddr - min_vaddr, min_vaddr, max_vaddr))"

section \<open>Protection\<close>

text \<open>\<open>mprotect\<close> is an argument: it takes the state of the address space and returns 0 or -1.\<close>

type_synonym ('addr, 's) mprotect_call = "'addr \<Rightarrow> 'addr \<Rightarrow> 32 word \<Rightarrow> 's \<Rightarrow> int \<times> 's"

fun phdr_table_set_load_prot ::
  "(('w::len) word, 's) mprotect_call \<Rightarrow> 'w word phdr list \<Rightarrow> 'w word \<Rightarrow> 32 word \<Rightarrow> 's \<Rightarrow> int \<times> 's" where
  "phdr_table_set_load_prot mprotect [] load_bias extra_prot_flags s = (0, s)"
| "phdr_table_set_load_prot mprotect (ph # phs) load_bias extra_prot_flags s =
     (if p_type ph \<noteq> PT_LOAD \<or> p_flags ph AND PF_W \<noteq> 0
      then phdr_table_set_load_prot mprotect phs load_bias extra_prot_flags s
      else
        let seg_page_start = PAGE_START (p_vaddr ph) + load_bias;
            seg_page_end = PAGE_END (p_vaddr ph + p_memsz ph) + load_bias;
            (ret, s) = mprotect seg_page_start (seg_page_end - seg_page_start)
                         (PFLAGS_TO_PROT (p_flags ph) OR extra_prot_flags) s
        in if ret < 0 then (- 1, s)
           else phdr_table_set_load_prot mprotect phs load_bias extra_prot_flags s)"

definition phdr_table_protect_segments ::
  "(('w::len) word, 's) mprotect_call \<Rightarrow> 'w word phdr list \<Rightarrow> 'w word \<Rightarrow> 's \<Rightarrow> int \<times> 's" where
  "phdr_table_protect_segments mprotect phdr_table load_bias s =
     phdr_table_set_load_prot mprotect phdr_table load_bias 0 s"

definition phdr_table_unprotect_segments ::
  "(('w::len) word, 's) mprotect_call \<Rightarrow> 'w word phdr list \<Rightarrow> 'w word \<Rightarrow> 's \<Rightarrow> int \<times> 's" where
  "phdr_table_unprotect_segments mprotect phdr_table load_bias s =
     phdr_table_set_load_prot mprotect phdr_table load_bias PROT_WRITE s"

text \<open>\<open>relro_start\<close> and \<open>relro_size\<close>, or \<^term>\<open>None\<close> for the result -1.\<close>

fun phdr_table_get_relro_info ::
  "('w::len) word phdr list \<Rightarrow> 'w word \<Rightarrow> ('w word \<times> 'w word) option" where
  "phdr_table_get_relro_info [] load_bias = None"
| "phdr_table_get_relro_info (ph # phs) load_bias =
     (if p_type ph \<noteq> PT_GNU_RELRO then phdr_table_get_relro_info phs load_bias
      else
        let relro_start = PAGE_START (p_vaddr ph) + load_bias;
            relro_size = PAGE_END (p_vaddr ph + p_memsz ph) + load_bias - relro_start
        in Some (relro_start, relro_size))"

definition phdr_table_protect_gnu_relro ::
  "(('w::len) word, 's) mprotect_call \<Rightarrow> 'w word phdr list \<Rightarrow> 'w word \<Rightarrow> 's \<Rightarrow> int \<times> 's" where
  "phdr_table_protect_gnu_relro mprotect phdr_table load_bias s =
     (case phdr_table_get_relro_info phdr_table load_bias of
        None \<Rightarrow> (- 1, s)
      | Some (relro_start, relro_size) \<Rightarrow> mprotect relro_start relro_size PROT_READ s)"

section \<open>Other entries\<close>

text \<open>The results: the value returned, \<open>arm_exidx\<close> and \<open>arm_exidx_count\<close>.\<close>

fun phdr_table_get_arm_exidx :: "('w::len) word phdr list \<Rightarrow> 'w word \<Rightarrow> int \<times> 'w word \<times> nat" where
  "phdr_table_get_arm_exidx [] load_bias = (- 1, 0, 0)"
| "phdr_table_get_arm_exidx (ph # phs) load_bias =
     (if p_type ph \<noteq> PT_ARM_EXIDX then phdr_table_get_arm_exidx phs load_bias
      else (0, load_bias + p_vaddr ph, unat (p_memsz ph) div 8))"

text \<open>The results: \<open>dynamic\<close> (0 for \<open>NULL\<close>), \<open>dynamic_count\<close>, and \<open>dynamic_flags\<close> where it is set.
  The count goes through \<open>unsigned\<close>, 32 bits.\<close>

fun phdr_table_get_dynamic_section ::
  "('w::len) word phdr list \<Rightarrow> 'w word \<Rightarrow> 'w word \<times> nat \<times> 32 word option" where
  "phdr_table_get_dynamic_section [] load_bias = (0, 0, None)"
| "phdr_table_get_dynamic_section (ph # phs) load_bias =
     (if p_type ph \<noteq> PT_DYNAMIC then phdr_table_get_dynamic_section phs load_bias
      else (load_bias + p_vaddr ph, (unat (p_memsz ph) div sizeof_Dyn LENGTH('w)) mod 2 ^ 32,
            Some (p_flags ph)))"

section \<open>Lemmas on the extent\<close>

definition loads :: "('w::len) word phdr list \<Rightarrow> 'w word phdr list" where
  "loads phs = filter (\<lambda>ph. p_type ph = PT_LOAD) phs"

text \<open>No segment reaches past the last page of the address space.\<close>

definition segment_fits :: "('w::len) word phdr \<Rightarrow> bool" where
  "segment_fits ph \<longleftrightarrow> unat (p_vaddr ph) + unat (p_memsz ph) + 4095 < 2 ^ LENGTH('w)"

definition seg_lo :: "('w::len) word phdr \<Rightarrow> nat" where
  "seg_lo ph = unat (p_vaddr ph) div 4096 * 4096"

definition seg_hi :: "('w::len) word phdr \<Rightarrow> nat" where
  "seg_hi ph = (unat (p_vaddr ph) + unat (p_memsz ph) + 4095) div 4096 * 4096"

lemma unat_seg_end:
  fixes ph :: "('w::len) word phdr"
  assumes "segment_fits ph"
  shows "unat (p_vaddr ph + p_memsz ph) = unat (p_vaddr ph) + unat (p_memsz ph)"
  using assms by (intro unat_plus_small) (simp add: segment_fits_def)

lemma load_size_loop_filter:
  "load_size_loop phs lo hi found = load_size_loop (loads phs) lo hi found"
  by (induction phs arbitrary: lo hi found) (simp_all add: loads_def)

lemma load_size_loop_bounds:
  assumes "\<forall>ph \<in> set phs. p_type ph = PT_LOAD \<and> segment_fits ph"
    and "load_size_loop phs lo hi found = (lo', hi', found')"
  shows "unat lo' = Min (insert (unat lo) ((\<lambda>ph. unat (p_vaddr ph)) ` set phs)) \<and>
    unat hi' = Max (insert (unat hi) ((\<lambda>ph. unat (p_vaddr ph) + unat (p_memsz ph)) ` set phs)) \<and>
    (found' \<longleftrightarrow> found \<or> phs \<noteq> [])"
  using assms
proof (induction phs arbitrary: lo hi found)
  case Nil
  then show ?case by simp
next
  case (Cons ph phs)
  let ?lo = "if p_vaddr ph < lo then p_vaddr ph else lo"
  let ?hi = "if p_vaddr ph + p_memsz ph > hi then p_vaddr ph + p_memsz ph else hi"
  have "load_size_loop phs ?lo ?hi True = (lo', hi', found')"
    using Cons.prems by simp
  note IH = Cons.IH [OF _ this]
  have lo: "unat ?lo = min (unat (p_vaddr ph)) (unat lo)"
    by (simp add: word_less_nat_alt min_def)
  have hi: "unat ?hi = max (unat (p_vaddr ph) + unat (p_memsz ph)) (unat hi)"
    using Cons.prems(1) by (simp add: word_less_nat_alt max_def unat_seg_end)
  have mins: "Min (insert (min a b) S) = Min (insert b (insert a S))"
    "Max (insert (max a b) S) = Max (insert b (insert a S))" if "finite S" for a b :: nat and S
    using that by (cases "S = {}"; simp add: min.left_commute max.left_commute ac_simps)+
  show ?case
    using IH Cons.prems(1) unfolding lo hi by (simp add: mins)
qed

lemma mono_page_down: "mono (\<lambda>n::nat. n div 4096 * 4096)"
  by (intro monoI mult_le_mono1 div_le_mono)

lemma mono_page_up: "mono (\<lambda>n::nat. (n + 4095) div 4096 * 4096)"
  by (intro monoI mult_le_mono1 div_le_mono) simp

lemma load_size_extent:
  fixes phs :: "('w::len) word phdr list"
  assumes fits: "\<forall>ph \<in> set (loads phs). segment_fits ph" and some: "loads phs \<noteq> []"
    and res: "phdr_table_get_load_size phs = (sz, lo, hi)"
  shows "unat lo = Min (seg_lo ` set (loads phs))" "unat hi = Max (seg_hi ` set (loads phs))"
    "unat lo \<le> unat hi" "unat sz = unat hi - unat lo"
proof -
  let ?L = "set (loads phs)"
  let ?v = "\<lambda>ph :: 'w word phdr. unat (p_vaddr ph)" and ?e = "\<lambda>ph :: 'w word phdr. unat (p_vaddr ph) + unat (p_memsz ph)"
  obtain l h f where lp: "load_size_loop phs (NOT 0) 0 False = (l, h, f)" by (metis prod_cases3)
  have isload: "\<forall>ph \<in> ?L. p_type ph = PT_LOAD" by (simp add: loads_def)
  have b: "unat l = Min (insert (unat (NOT 0 :: 'w word)) (?v ` ?L))"
    "unat h = Max (insert (unat (0 :: 'w word)) (?e ` ?L))" "f = True"
    using load_size_loop_bounds [of "loads phs" "NOT 0" 0 False l h f] lp fits isload some
    unfolding load_size_loop_filter [of phs] by blast+
  obtain x where x: "x \<in> ?L" using some by (meson list.set_sel(1))
  have fin: "finite (?v ` ?L)" "?v ` ?L \<noteq> {}" "finite (?e ` ?L)" "?e ` ?L \<noteq> {}"
    using x by auto
  have "?v x \<le> unat (NOT 0 :: 'w word)"
    unfolding word_le_nat_alt [symmetric] by simp
  moreover have "Min (?v ` ?L) \<le> ?v x" using x by simp
  ultimately have l: "unat l = Min (?v ` ?L)"
    using b(1) Min_insert [OF fin(1,2), of "unat (NOT 0 :: 'w word)"] by linarith
  have h: "unat h = Max (?e ` ?L)"
    using b(2) Max_insert [OF fin(3,4), of 0] by simp
  have "unat h \<in> ?e ` ?L" unfolding h using x by (intro Max_in) auto
  then have hf: "unat h + 4095 < 2 ^ LENGTH('w)" using fits by (auto simp: segment_fits_def)
  have lo: "lo = PAGE_START l" and hi: "hi = PAGE_END h" and sz: "sz = hi - lo"
    using res lp b(3) by (auto simp: phdr_table_get_load_size_def Let_def)
  show lo': "unat lo = Min (seg_lo ` ?L)"
    using mono_Min_commute [OF mono_page_down fin(1,2)]
    by (simp add: lo unat_PAGE_START l image_image seg_lo_def [abs_def])
  show hi': "unat hi = Max (seg_hi ` ?L)"
    using mono_Max_commute [OF mono_page_up fin(3,4)]
    by (simp add: hi unat_PAGE_END [OF hf] h image_image seg_hi_def [abs_def])
  have "unat lo \<le> seg_lo x" "seg_hi x \<le> unat hi" unfolding lo' hi' using x by simp_all
  moreover have "seg_lo x \<le> seg_hi x"
    using page_bounds(1) [of "?v x"] page_bounds(3) [of "?e x"] by (simp add: seg_lo_def seg_hi_def)
  ultimately show le: "unat lo \<le> unat hi" by simp
  show "unat sz = unat hi - unat lo" using le by (simp add: sz unat_minus_small)
qed

lemma load_size_none:
  assumes "loads phs = []"
  shows "phdr_table_get_load_size phs = (0, 0, 0)"
  by (simp add: phdr_table_get_load_size_def load_size_loop_filter [of phs] assms PAGE_END_def
      PAGE_START_minus)

section \<open>Lemmas on the protection\<close>

definition prot_range :: "('w::len) word phdr \<Rightarrow> 'w word \<Rightarrow> 'w word \<Rightarrow> bool" where
  "prot_range ph load_bias a \<longleftrightarrow>
     in_range a (PAGE_START (p_vaddr ph) + load_bias)
       (PAGE_END (PAGE_END (p_vaddr ph + p_memsz ph) - PAGE_START (p_vaddr ph)))"

definition read_only :: "('w::len) word phdr \<Rightarrow> bool" where
  "read_only ph \<longleftrightarrow> p_type ph = PT_LOAD \<and> p_flags ph AND PF_W = 0"

text \<open>The last read-only segment that covers an address decides its protection.\<close>

fun prot_after :: "('w::len) word phdr list \<Rightarrow> 'w word \<Rightarrow> 32 word \<Rightarrow> 'w word \<Rightarrow> 32 word option \<Rightarrow> 32 word option" where
  "prot_after [] load_bias extra a old = old"
| "prot_after (ph # phs) load_bias extra a old =
     prot_after phs load_bias extra a
       (if read_only ph \<and> prot_range ph load_bias a then Some (PFLAGS_TO_PROT (p_flags ph) OR extra) else old)"

lemma set_load_prot_ok:
  assumes "phdr_table_set_load_prot (sys_mprotect refuse) phs load_bias extra vm = (0, vm')"
  shows "vm_byte vm' = vm_byte vm \<and> vm_prot vm' = (\<lambda>a. prot_after phs load_bias extra a (vm_prot vm a))"
  using assms
proof (induction phs arbitrary: vm)
  case (Cons ph phs)
  show ?case
  proof (cases "read_only ph")
    case False
    with Cons show ?thesis by (auto simp: read_only_def)
  next
    case True
    let ?vm = "vm_set_prot (PAGE_START (p_vaddr ph) + load_bias)
      (PAGE_END (PAGE_END (p_vaddr ph + p_memsz ph) - PAGE_START (p_vaddr ph)))
      (Some (PFLAGS_TO_PROT (p_flags ph) OR extra)) vm"
    let ?S = "PAGE_START (p_vaddr ph) + load_bias"
    let ?L = "PAGE_END (p_vaddr ph + p_memsz ph) + load_bias - ?S"
    let ?P = "PFLAGS_TO_PROT (p_flags ph) OR extra"
    have call: "sys_mprotect refuse ?S ?L ?P vm = (if refuse ?S ?L then (- 1, vm) else (0, ?vm))"
      by (simp add: sys_mprotect_def)
    have "phdr_table_set_load_prot (sys_mprotect refuse) phs load_bias extra ?vm = (0, vm')"
      using Cons.prems True call by (simp add: read_only_def Let_def split: if_splits)
    from Cons.IH [OF this] True show ?thesis
      by (simp add: vm_set_prot_def prot_range_def)
  qed
qed simp

lemma prot_after_overwrites:
  "prot_after phs load_bias extra a (prot_after phs load_bias extra' a old) =
     prot_after phs load_bias extra a old"
proof (cases "\<exists>ph \<in> set phs. read_only ph \<and> prot_range ph load_bias a")
  case False
  then have "prot_after phs load_bias e a o' = o'" for e o'
    by (induction phs arbitrary: o') auto
  then show ?thesis by simp
next
  case True
  then have "prot_after phs load_bias extra a o1 = prot_after phs load_bias extra a o2" for o1 o2
    by (induction phs arbitrary: o1 o2) auto
  then show ?thesis .
qed

lemma set_load_prot_range:
  "phdr_table_set_load_prot mprotect phs load_bias extra s = (ret, s') \<Longrightarrow> ret = 0 \<or> ret = - 1"
  by (induction phs arbitrary: s) (auto simp: Let_def split: if_splits prod.splits)

section \<open>Properties\<close>

text \<open>C34: The address range that is reserved for a library is page aligned, covers every byte of
  every loadable segment, and is the smallest such range: it starts on the first page of the
  lowest segment and ends after the last page of the highest. Without loadable segments it is
  empty. No segment may reach into the last page of the address space; otherwise the unsigned
  sums of the source wrap around.\<close>

theorem load_size_is_tight_cover:
  fixes phs :: "('w::len) word phdr list"
  assumes "\<forall>ph \<in> set (loads phs). segment_fits ph"
    and "phdr_table_get_load_size phs = (sz, lo, hi)"
  shows "unat lo mod 4096 = 0 \<and> unat hi mod 4096 = 0 \<and> unat hi = unat lo + unat sz \<and>
     (\<forall>ph \<in> set (loads phs). unat lo \<le> unat (p_vaddr ph) \<and>
        unat (p_vaddr ph) + unat (p_memsz ph) \<le> unat hi) \<and>
     (if loads phs = [] then sz = 0
      else (\<exists>ph \<in> set (loads phs). lo = PAGE_START (p_vaddr ph)) \<and>
           (\<exists>ph \<in> set (loads phs). hi = PAGE_END (p_vaddr ph + p_memsz ph)))"
proof (cases "loads phs = []")
  case True
  with assms(2) show ?thesis by (simp add: load_size_none)
next
  case False
  let ?L = "set (loads phs)"
  note ext = load_size_extent [OF assms(1) False assms(2)]
  have lo_in: "unat lo \<in> seg_lo ` ?L" and hi_in: "unat hi \<in> seg_hi ` ?L"
    unfolding ext(1,2) using False by (auto intro!: Min_in Max_in)
  have cover: "unat lo \<le> unat (p_vaddr ph) \<and> unat (p_vaddr ph) + unat (p_memsz ph) \<le> unat hi"
    if "ph \<in> ?L" for ph
  proof -
    have "unat lo \<le> seg_lo ph" "seg_hi ph \<le> unat hi" unfolding ext(1,2) using that by simp_all
    then show ?thesis
      using page_bounds(1) [of "unat (p_vaddr ph)"] page_bounds(3) [of "unat (p_vaddr ph) + unat (p_memsz ph)"]
      by (simp add: seg_lo_def seg_hi_def)
  qed
  have "\<exists>ph \<in> ?L. lo = PAGE_START (p_vaddr ph)"
    using lo_in by (auto simp: seg_lo_def unat_PAGE_START [symmetric] word_unat_eq_iff)
  moreover have "\<exists>ph \<in> ?L. hi = PAGE_END (p_vaddr ph + p_memsz ph)"
  proof -
    obtain ph where ph: "ph \<in> ?L" "unat hi = seg_hi ph" using hi_in by auto
    then have "unat (p_vaddr ph + p_memsz ph) + 4095 < 2 ^ LENGTH('w)"
      using assms(1) by (simp add: unat_seg_end) (simp add: segment_fits_def)
    with ph assms(1) have "unat hi = unat (PAGE_END (p_vaddr ph + p_memsz ph))"
      by (simp add: unat_PAGE_END seg_hi_def unat_seg_end)
    with ph(1) show ?thesis by (metis word_unat_eq_iff)
  qed
  moreover have "unat lo mod 4096 = 0" "unat hi mod 4096 = 0"
    using lo_in hi_in by (auto simp: seg_lo_def seg_hi_def)
  ultimately show ?thesis using cover ext False by auto
qed

definition two_segments :: "32 word phdr list" where
  "two_segments =
     [\<lparr>p_type = PT_LOAD, p_flags = 5, p_offset = 0, p_vaddr = 0x30000, p_filesz = 0x4000, p_memsz = 0x4000\<rparr>,
      \<lparr>p_type = PT_DYNAMIC, p_flags = 6, p_offset = 0x4100, p_vaddr = 0x40100, p_filesz = 0x80, p_memsz = 0x80\<rparr>,
      \<lparr>p_type = PT_LOAD, p_flags = 6, p_offset = 0x4000, p_vaddr = 0x40000, p_filesz = 0x2000, p_memsz = 0x8010\<rparr>]"

lemma two_segments_load_size: "phdr_table_get_load_size two_segments = (0x19000, 0x30000, 0x49000)"
  by (simp add: two_segments_def phdr_table_get_load_size_def PT_LOAD_def PT_DYNAMIC_def PAGE_END_def
      PAGE_START_def PAGE_MASK_def)

theorem load_size_is_tight_cover_witness:
  "phdr_table_get_load_size two_segments = (0x19000, 0x30000, 0x49000) \<and>
   (\<exists>ph \<in> set (loads two_segments). 0x49000 = PAGE_END (p_vaddr ph + p_memsz ph))"
  using load_size_is_tight_cover [OF _ two_segments_load_size] two_segments_load_size
  by (simp add: loads_def two_segments_def PT_LOAD_def PT_DYNAMIC_def segment_fits_def)

text \<open>Making the read-only segments writable and restoring them leaves the protection of every
  address as restoring alone would, touches no byte of memory, and gives every address of a
  read-only loadable segment the protection its program header asks for; in between it is
  writable as well. A refused \<open>mprotect\<close> makes either call return -1.\<close>

theorem unprotect_protect_segments:
  assumes "phdr_table_unprotect_segments (sys_mprotect refuse) phs bias vm = (r1, vm1)"
    and "phdr_table_protect_segments (sys_mprotect refuse) phs bias vm1 = (r2, vm2)"
    and "phdr_table_protect_segments (sys_mprotect refuse') phs bias vm = (0, vm3)"
  shows "r1 \<in> {0, -1} \<and> r2 \<in> {0, -1} \<and>
    (r1 = 0 \<and> r2 = 0 \<longrightarrow> vm2 = vm3 \<and> vm_byte vm2 = vm_byte vm \<and>
      (\<forall>a. vm_prot vm1 a = prot_after phs bias PROT_WRITE a (vm_prot vm a)) \<and>
      (\<forall>a. vm_prot vm2 a = prot_after phs bias 0 a (vm_prot vm a)))"
proof -
  note u = assms(1) [unfolded phdr_table_unprotect_segments_def]
    and p = assms(2) [unfolded phdr_table_protect_segments_def]
    and p' = assms(3) [unfolded phdr_table_protect_segments_def]
  have "vm2 = vm3 \<and> vm_byte vm2 = vm_byte vm \<and>
      (\<forall>a. vm_prot vm1 a = prot_after phs bias PROT_WRITE a (vm_prot vm a)) \<and>
      (\<forall>a. vm_prot vm2 a = prot_after phs bias 0 a (vm_prot vm a))" if "r1 = 0" "r2 = 0"
    using set_load_prot_ok [of refuse phs bias PROT_WRITE vm vm1] set_load_prot_ok [of refuse phs bias 0 vm1 vm2]
      set_load_prot_ok [OF p'] u p that by (auto simp: prot_after_overwrites)
  then show ?thesis using set_load_prot_range [OF u] set_load_prot_range [OF p] by blast
qed

theorem unprotect_protect_segments_witness:
  "(let vm = \<lparr>vm_byte = \<lambda>_. 7, vm_prot = \<lambda>_. Some 0\<rparr>;
        vm1 = snd (phdr_table_unprotect_segments (sys_mprotect (\<lambda>_ _. False)) two_segments 0x50000000 vm);
        vm2 = snd (phdr_table_protect_segments (sys_mprotect (\<lambda>_ _. False)) two_segments 0x50000000 vm1)
    in vm_byte vm2 = vm_byte vm \<and> vm_prot vm1 0x50030000 = Some 7 \<and> vm_prot vm2 0x50030000 = Some 5)"
proof -
  let ?m = "sys_mprotect (\<lambda>_ _. False)" and ?vm = "\<lparr>vm_byte = \<lambda>_. 7, vm_prot = \<lambda>_. Some 0\<rparr> :: 32 word vm"
  have z: "fst (phdr_table_set_load_prot ?m two_segments 0x50000000 e vm) = 0" for e and vm :: "32 word vm"
    by (simp add: two_segments_def PT_LOAD_def PT_DYNAMIC_def PF_W_def sys_mprotect_def Let_def)
  obtain vm1 where v1: "phdr_table_unprotect_segments ?m two_segments 0x50000000 ?vm = (0, vm1)"
    using z [of PROT_WRITE ?vm] by (metis phdr_table_unprotect_segments_def prod.collapse)
  obtain vm2 where v2: "phdr_table_protect_segments ?m two_segments 0x50000000 vm1 = (0, vm2)"
    using z [of 0 vm1] by (metis phdr_table_protect_segments_def prod.collapse)
  obtain vm3 where v3: "phdr_table_protect_segments ?m two_segments 0x50000000 ?vm = (0, vm3)"
    using z [of 0 ?vm] by (metis phdr_table_protect_segments_def prod.collapse)
  have "prot_after two_segments 0x50000000 PROT_WRITE 0x50030000 (Some 0) = Some 7"
    "prot_after two_segments 0x50000000 0 0x50030000 (Some 0) = Some 5"
    by (simp_all add: two_segments_def read_only_def prot_range_def in_range_def PT_LOAD_def PT_DYNAMIC_def
        PF_W_def PAGE_END_def PAGE_START_def PAGE_MASK_def PFLAGS_TO_PROT_def MAYBE_MAP_FLAG_def PF_X_def
        PF_R_def PROT_EXEC_def PROT_READ_def PROT_WRITE_def)
  with unprotect_protect_segments [OF v1 v2 v3] v1 v2 show ?thesis by (auto simp: Let_def)
qed

end
