(* ===== verification/Elf_Loader.thy ===== *)
theory Elf_Loader
  imports Linker_Phdr
begin

text \<open>
  Loading an ELF file, class \<open>ElfLoader\<close> of \<open>crazy_linker_elf_loader.cpp\<close>. A file is its bytes, and
  what the kernel decides (whether a call is refused, where an address range is reserved) is
  given by the record \<open>loader_os\<close>. Every way to fail is a value of \<open>loader_error\<close>; the result
  \<^term>\<open>None\<close> of a step is the \<open>true\<close> of the source.
\<close>

datatype 'addr loader_error =
    LoadAddressNotAligned 'addr
  | FileOffsetNotAligned 'addr
  | CantOpenFile
  | CantSeek 'addr
  | CantReadFile
  | FileTooSmall
  | BadMagic
  | BadClass byte
  | NotLittleEndian byte
  | NotSharedLibrary nat
  | BadVersion nat
  | BadMachine nat
  | BadPhdrCount nat
  | PhdrMmapFailed
  | NoLoadableSegments
  | CantReserve 'addr
  | PhdrNotFound
  | PhdrNotInSegment 'addr
  | CantMapSegment nat
  | CantZeroFill

record elf_file =
  f_opens :: bool
  f_seeks :: bool
  f_reads :: bool
  f_size :: nat
  f_byte :: "nat \<Rightarrow> byte"

record 'addr loader_os =
  os_phdr_refused :: bool
  os_reserve :: "'addr \<Rightarrow> 'addr \<Rightarrow> bool \<Rightarrow> 'addr option"
  os_refuse :: "'addr refusal"

record 'addr elf_loader =
  ld_header :: "'addr ehdr"
  phdr_num :: nat
  phdr_table :: "'addr phdr list"
  phdr_size :: 'addr
  file_offset :: 'addr
  wanted_load_address :: 'addr
  load_start :: 'addr
  load_size :: 'addr
  load_bias :: 'addr
  loaded_phdr :: 'addr

definition ElfLoader_Init :: "('w::len) word elf_loader" where
  "ElfLoader_Init =
     \<lparr>ld_header = \<lparr>e_ident = [], e_type = 0, e_machine = 0, e_version = 0, e_phoff = 0, e_phnum = 0\<rparr>,
      phdr_num = 0, phdr_table = [], phdr_size = 0, file_offset = 0, wanted_load_address = 0,
      load_start = 0, load_size = 0, load_bias = 0, loaded_phdr = 0\<rparr>"

definition ELFMAG :: "byte list" where
  "ELFMAG = [0x7f, 0x45, 0x4c, 0x46]"

definition kElfClass :: "nat \<Rightarrow> byte" where
  "kElfClass bits = (if bits = 32 then 1 else 2)"

definition ReadElfHeader ::
  "nat \<Rightarrow> elf_file \<Rightarrow> ('w::len) word elf_loader \<Rightarrow> 'w word loader_error option \<times> 'w word elf_loader" where
  "ReadElfHeader ELF_MACHINE file ld =
     (let pos = unat (file_offset ld);
          ret = (if \<not> f_reads file then - 1
                 else int (min (sizeof_Ehdr LENGTH('w)) (f_size file - pos)))
      in if ret < 0 then (Some CantReadFile, ld)
         else if ret \<noteq> int (sizeof_Ehdr LENGTH('w)) then (Some FileTooSmall, ld)
         else
           let h = decode_ehdr (f_byte file) pos; ld = ld\<lparr>ld_header := h\<rparr> in
           if take 4 (e_ident h) \<noteq> ELFMAG then (Some BadMagic, ld)
           else if e_ident h ! 4 \<noteq> kElfClass LENGTH('w) then (Some (BadClass (e_ident h ! 4)), ld)
           else if e_ident h ! 5 \<noteq> 1 then (Some (NotLittleEndian (e_ident h ! 5)), ld)
           else if e_type h \<noteq> 3 then (Some (NotSharedLibrary (e_type h)), ld)
           else if e_version h \<noteq> 1 then (Some (BadVersion (e_version h)), ld)
           else if e_machine h \<noteq> ELF_MACHINE then (Some (BadMachine (e_machine h)), ld)
           else (None, ld))"

definition ReadProgramHeader ::
  "'w word loader_os \<Rightarrow> elf_file \<Rightarrow> ('w::len) word elf_loader \<Rightarrow> 'w word loader_error option \<times> 'w word elf_loader" where
  "ReadProgramHeader os file ld =
     (let ld = ld\<lparr>phdr_num := e_phnum (ld_header ld)\<rparr> in
      if phdr_num ld < 1 \<or> phdr_num ld > 65536 div sizeof_Phdr LENGTH('w)
      then (Some (BadPhdrCount (phdr_num ld)), ld)
      else
        let page_min = PAGE_START (e_phoff (ld_header ld));
            page_max = PAGE_END (e_phoff (ld_header ld) + word_of_nat (phdr_num ld * sizeof_Phdr LENGTH('w)));
            page_offset = PAGE_OFFSET (e_phoff (ld_header ld));
            ld = ld\<lparr>phdr_size := page_max - page_min\<rparr>
        in if os_phdr_refused os then (Some PhdrMmapFailed, ld)
           else
             let pos = unat (page_min + file_offset ld) + unat page_offset in
             (None, ld\<lparr>phdr_table :=
                map (\<lambda>i. decode_phdr (f_byte file) (pos + i * sizeof_Phdr LENGTH('w))) [0..<phdr_num ld]\<rparr>))"

text \<open>The reserved range has no access rights and reads as zero.\<close>

definition ReserveAddressSpace ::
  "'w word loader_os \<Rightarrow> ('w::len) word elf_loader \<Rightarrow> 'w word vm \<Rightarrow>
     'w word loader_error option \<times> 'w word elf_loader \<times> 'w word vm" where
  "ReserveAddressSpace os ld vm =
     (let (sz, min_vaddr, _) = phdr_table_get_load_size (phdr_table ld);
          ld = ld\<lparr>load_size := sz\<rparr>
      in if load_size ld = 0 then (Some NoLoadableSegments, ld, vm)
         else
           let (addr, fixed) = (if wanted_load_address ld \<noteq> 0 then (wanted_load_address ld, True)
                                else (min_vaddr, False))
           in case os_reserve os addr (load_size ld) fixed of
                None \<Rightarrow> (Some (CantReserve (load_size ld)), ld, vm)
              | Some start \<Rightarrow>
                  (None, ld\<lparr>load_start := start, load_bias := start - min_vaddr\<rparr>,
                   vm_set_prot start (PAGE_END (load_size ld)) (Some 0)
                     (vm_set_bytes start (PAGE_END (load_size ld)) (\<lambda>_. 0) vm)))"

text \<open>One segment: map its file part, clear the rest of its last file page, map the pages after it.\<close>

definition map_file_part ::
  "'w word refusal \<Rightarrow> elf_file \<Rightarrow> 'w word \<Rightarrow> 'w word \<Rightarrow> ('w::len) word phdr \<Rightarrow> 'w word vm \<Rightarrow> 'w word vm option" where
  "map_file_part refuse file file_offs seg_start ph vm =
     (let seg_page_start = PAGE_START seg_start;
          file_start = p_offset ph;
          file_end = file_start + p_filesz ph;
          file_page_start = PAGE_START file_start;
          file_length = file_end - file_page_start
      in if file_length \<noteq> 0
         then sys_mmap_file refuse (f_byte file) seg_page_start file_length (PFLAGS_TO_PROT (p_flags ph))
                (unat (file_page_start + file_offs)) vm
         else Some vm)"

definition clear_page_tail :: "'w word \<Rightarrow> ('w::len) word phdr \<Rightarrow> 'w word vm \<Rightarrow> 'w word vm" where
  "clear_page_tail seg_start ph vm =
     (let seg_file_end = seg_start + p_filesz ph
      in if p_flags ph AND PF_W \<noteq> 0 \<and> PAGE_OFFSET seg_file_end > 0
         then vm_set_bytes seg_file_end (4096 - PAGE_OFFSET seg_file_end) (\<lambda>_. 0) vm
         else vm)"

definition map_zero_pages ::
  "'w word refusal \<Rightarrow> 'w word \<Rightarrow> ('w::len) word phdr \<Rightarrow> 'w word vm \<Rightarrow> 'w word vm option" where
  "map_zero_pages refuse seg_start ph vm =
     (let seg_page_end = PAGE_END (seg_start + p_memsz ph);
          seg_file_end = PAGE_END (seg_start + p_filesz ph)
      in if seg_page_end > seg_file_end
         then sys_mmap_anon refuse seg_file_end (seg_page_end - seg_file_end) (PFLAGS_TO_PROT (p_flags ph)) vm
         else Some vm)"

definition LoadSegment ::
  "'w word refusal \<Rightarrow> elf_file \<Rightarrow> 'w word \<Rightarrow> 'w word \<Rightarrow> nat \<Rightarrow> ('w::len) word phdr \<Rightarrow> 'w word vm \<Rightarrow>
     'w word loader_error option \<times> 'w word vm" where
  "LoadSegment refuse file file_offs bias i ph vm =
     (let seg_start = p_vaddr ph + bias in
      case map_file_part refuse file file_offs seg_start ph vm of
        None \<Rightarrow> (Some (CantMapSegment i), vm)
      | Some vm \<Rightarrow>
          let vm = clear_page_tail seg_start ph vm in
          (case map_zero_pages refuse seg_start ph vm of
             None \<Rightarrow> (Some CantZeroFill, vm)
           | Some vm \<Rightarrow> (None, vm)))"

fun LoadSegments_from ::
  "'w word refusal \<Rightarrow> elf_file \<Rightarrow> 'w word \<Rightarrow> 'w word \<Rightarrow> nat \<Rightarrow> ('w::len) word phdr list \<Rightarrow> 'w word vm \<Rightarrow>
     'w word loader_error option \<times> 'w word vm" where
  "LoadSegments_from refuse file file_offs bias i [] vm = (None, vm)"
| "LoadSegments_from refuse file file_offs bias i (ph # phs) vm =
     (if p_type ph \<noteq> PT_LOAD then LoadSegments_from refuse file file_offs bias (i + 1) phs vm
      else case LoadSegment refuse file file_offs bias i ph vm of
             (Some e, vm) \<Rightarrow> (Some e, vm)
           | (None, vm) \<Rightarrow> LoadSegments_from refuse file file_offs bias (i + 1) phs vm)"

definition LoadSegments ::
  "'w word loader_os \<Rightarrow> elf_file \<Rightarrow> ('w::len) word elf_loader \<Rightarrow> 'w word vm \<Rightarrow>
     'w word loader_error option \<times> 'w word vm" where
  "LoadSegments os file ld vm =
     LoadSegments_from (os_refuse os) file (file_offset ld) (load_bias ld) 0 (phdr_table ld) vm"

fun CheckPhdr_loop :: "('w::len) word phdr list \<Rightarrow> 'w word \<Rightarrow> 'w word \<Rightarrow> 'w word \<Rightarrow> bool" where
  "CheckPhdr_loop [] bias loaded loaded_end = False"
| "CheckPhdr_loop (ph # phs) bias loaded loaded_end =
     (if p_type ph \<noteq> PT_LOAD then CheckPhdr_loop phs bias loaded loaded_end
      else
        let seg_start = p_vaddr ph + bias;
            seg_end = p_filesz ph + seg_start
        in if seg_start \<le> loaded \<and> loaded_end \<le> seg_end then True
           else CheckPhdr_loop phs bias loaded loaded_end)"

definition CheckPhdr ::
  "'w word \<Rightarrow> ('w::len) word elf_loader \<Rightarrow> 'w word loader_error option \<times> 'w word elf_loader" where
  "CheckPhdr loaded ld =
     (let loaded_end = loaded + word_of_nat (phdr_num ld * sizeof_Phdr LENGTH('w))
      in if CheckPhdr_loop (phdr_table ld) (load_bias ld) loaded loaded_end
         then (None, ld\<lparr>loaded_phdr := loaded\<rparr>)
         else (Some (PhdrNotInSegment loaded), ld))"

text \<open>The bytes of memory from an address on.\<close>

definition mem_from :: "('w::len) word vm \<Rightarrow> 'w word \<Rightarrow> nat \<Rightarrow> byte" where
  "mem_from vm a i = vm_byte vm (a + word_of_nat i)"

definition FindPhdr ::
  "('w::len) word vm \<Rightarrow> 'w word elf_loader \<Rightarrow> 'w word loader_error option \<times> 'w word elf_loader" where
  "FindPhdr vm ld =
     (case find (\<lambda>ph. p_type ph = PT_PHDR) (phdr_table ld) of
        Some ph \<Rightarrow> CheckPhdr (load_bias ld + p_vaddr ph) ld
      | None \<Rightarrow>
          (case find (\<lambda>ph. p_type ph = PT_LOAD) (phdr_table ld) of
             None \<Rightarrow> (Some PhdrNotFound, ld)
           | Some ph \<Rightarrow>
               if p_offset ph = 0
               then let elf_addr = load_bias ld + p_vaddr ph;
                        offset = e_phoff (decode_ehdr (mem_from vm elf_addr) 0 :: 'w word ehdr)
                    in CheckPhdr (elf_addr + offset) ld
               else (Some PhdrNotFound, ld)))"

definition LoadAt ::
  "nat \<Rightarrow> 'w word loader_os \<Rightarrow> elf_file \<Rightarrow> 'w word \<Rightarrow> 'w word \<Rightarrow> ('w::len) word elf_loader \<Rightarrow> 'w word vm \<Rightarrow>
     'w word loader_error option \<times> 'w word elf_loader \<times> 'w word vm" where
  "LoadAt ELF_MACHINE os file file_offs wanted_address ld vm =
     (if wanted_address \<noteq> PAGE_START wanted_address then (Some (LoadAddressNotAligned wanted_address), ld, vm)
      else
        let ld = ld\<lparr>wanted_load_address := wanted_address\<rparr> in
        if PAGE_OFFSET file_offs \<noteq> 0 then (Some (FileOffsetNotAligned file_offs), ld, vm)
        else
          let ld = ld\<lparr>file_offset := file_offs\<rparr> in
          if \<not> f_opens file then (Some CantOpenFile, ld, vm)
          else if file_offs \<noteq> 0 \<and> \<not> f_seeks file then (Some (CantSeek file_offs), ld, vm)
          else (case ReadElfHeader ELF_MACHINE file ld of
            (Some e, ld) \<Rightarrow> (Some e, ld, vm)
          | (None, ld) \<Rightarrow> (case ReadProgramHeader os file ld of
              (Some e, ld) \<Rightarrow> (Some e, ld, vm)
            | (None, ld) \<Rightarrow> (case ReserveAddressSpace os ld vm of
                (Some e, ld, vm) \<Rightarrow> (Some e, ld, vm)
              | (None, ld, vm) \<Rightarrow> (case LoadSegments os file ld vm of
                  (Some e, vm) \<Rightarrow>
                    (Some e, ld, if load_start ld \<noteq> 0 \<and> load_size ld \<noteq> 0
                                 then sys_munmap (load_start ld) (load_size ld) vm else vm)
                | (None, vm) \<Rightarrow> (case FindPhdr vm ld of
                    (Some e, ld) \<Rightarrow>
                      (Some e, ld, if load_start ld \<noteq> 0 \<and> load_size ld \<noteq> 0
                                   then sys_munmap (load_start ld) (load_size ld) vm else vm)
                  | (None, ld) \<Rightarrow> (None, ld, vm)))))))"

section \<open>Lemmas on one segment\<close>

text \<open>
  A segment can be mapped at an address \<open>start\<close>: neither its memory nor its part of the file
  reaches the end of the address space, the file part is not larger than the memory part, and
  address and file offset agree within a page, as ELF requires.
\<close>

definition mappable :: "'w word \<Rightarrow> ('w::len) word phdr \<Rightarrow> 'w word \<Rightarrow> bool" where
  "mappable file_offs ph start \<longleftrightarrow>
     unat start + unat (p_memsz ph) + 4095 < 2 ^ LENGTH('w) \<and>
     unat (p_filesz ph) \<le> unat (p_memsz ph) \<and>
     unat (p_offset ph) mod 4096 = unat start mod 4096 \<and>
     unat (p_offset ph) + unat (p_filesz ph) + unat file_offs + 4095 < 2 ^ LENGTH('w)"

text \<open>The address space after the segment is loaded, address by address.\<close>

definition segment_byte ::
  "elf_file \<Rightarrow> 'w word \<Rightarrow> ('w::len) word phdr \<Rightarrow> 'w word \<Rightarrow> 'w word vm \<Rightarrow> 'w word \<Rightarrow> byte" where
  "segment_byte file file_offs ph start vm a =
     (let n = unat a; S = unat start; F = unat (p_filesz ph); M = unat (p_memsz ph) in
      if page_up (S + F) \<le> n \<and> n < page_up (S + M) then 0
      else if p_flags ph AND PF_W \<noteq> 0 \<and> S + F \<le> n \<and> n < page_up (S + F) then 0
      else if page_down S \<le> n \<and> n < page_up (S + F)
        then f_byte file (page_down (unat (p_offset ph)) + unat file_offs + (n - page_down S))
      else vm_byte vm a)"

definition segment_prot ::
  "('w::len) word phdr \<Rightarrow> 'w word \<Rightarrow> 'w word vm \<Rightarrow> 'w word \<Rightarrow> 32 word option" where
  "segment_prot ph start vm a =
     (if page_down (unat start) \<le> unat a \<and> unat a < page_up (unat start + unat (p_memsz ph))
      then Some (PFLAGS_TO_PROT (p_flags ph)) else vm_prot vm a)"

lemma unat_PAGE_END_up:
  fixes x :: "'w::len word"
  assumes "unat x + 4095 < 2 ^ LENGTH('w)"
  shows "unat (PAGE_END x) = page_up (unat x)"
  using unat_PAGE_END [OF assms] by (simp add: page_up_def)

lemma unat_PAGE_START_down: "unat (PAGE_START x) = page_down (unat x)"
  by (simp add: unat_PAGE_START page_down_def)

lemma mappable_unats:
  fixes ph :: "('w::len) word phdr"
  assumes "mappable file_offs ph start"
  shows "unat (start + p_memsz ph) = unat start + unat (p_memsz ph)"
    "unat (start + p_filesz ph) = unat start + unat (p_filesz ph)"
    "unat (PAGE_END (start + p_memsz ph)) = page_up (unat start + unat (p_memsz ph))"
    "unat (PAGE_END (start + p_filesz ph)) = page_up (unat start + unat (p_filesz ph))"
    "page_up (unat start + unat (p_filesz ph)) \<le> page_up (unat start + unat (p_memsz ph))"
    "page_up (unat start + unat (p_memsz ph)) < 2 ^ LENGTH('w)" "12 \<le> LENGTH('w)"
proof -
  have b: "unat start + unat (p_memsz ph) + 4095 < 2 ^ LENGTH('w)" "unat (p_filesz ph) \<le> unat (p_memsz ph)"
    using assms by (simp_all add: mappable_def)
  show e: "unat (start + p_memsz ph) = unat start + unat (p_memsz ph)"
    "unat (start + p_filesz ph) = unat start + unat (p_filesz ph)"
    using b by (simp_all add: unat_plus_small)
  show "unat (PAGE_END (start + p_memsz ph)) = page_up (unat start + unat (p_memsz ph))"
    "unat (PAGE_END (start + p_filesz ph)) = page_up (unat start + unat (p_filesz ph))"
    using b e by (simp_all add: unat_PAGE_END_up)
  show "page_up (unat start + unat (p_filesz ph)) \<le> page_up (unat start + unat (p_memsz ph))"
    "page_up (unat start + unat (p_memsz ph)) < 2 ^ LENGTH('w)"
    using b page_up_less [of "unat start + unat (p_memsz ph)"] by (auto intro: page_up_mono)
  show "12 \<le> LENGTH('w)" using b(1) by (intro width_at_least_12) linarith
qed

lemma file_part_unats:
  fixes ph :: "('w::len) word phdr"
  assumes "mappable file_offs ph start"
  defines "len \<equiv> p_offset ph + p_filesz ph - PAGE_START (p_offset ph)"
  shows "unat len = unat start mod 4096 + unat (p_filesz ph)"
    "unat (PAGE_START start) + unat (PAGE_END len) = page_up (unat start + unat (p_filesz ph))"
    "unat (PAGE_START (p_offset ph) + file_offs) = page_down (unat (p_offset ph)) + unat file_offs"
proof -
  let ?S = "unat start" and ?F = "unat (p_filesz ph)" and ?P = "unat (p_offset ph)"
  have b: "?S + unat (p_memsz ph) + 4095 < 2 ^ LENGTH('w)" "?F \<le> unat (p_memsz ph)"
    "?P mod 4096 = ?S mod 4096" "?P + ?F + unat file_offs + 4095 < 2 ^ LENGTH('w)"
    using assms(1) by (simp_all add: mappable_def)
  have "unat (p_offset ph + p_filesz ph) = ?P + ?F" using b by (simp add: unat_plus_small)
  then show l: "unat len = ?S mod 4096 + ?F"
    unfolding len_def using b(3) page_down_mod [of ?P] page_down_le [of ?P]
    by (subst unat_minus_small) (simp_all add: unat_PAGE_START_down)
  have "unat (PAGE_END len) = page_up (?S mod 4096 + ?F)"
    using l b by (subst unat_PAGE_END_up) simp_all
  then show "unat (PAGE_START start) + unat (PAGE_END len) = page_up (?S + ?F)"
    using page_up_shift [of ?S "?S mod 4096 + ?F"] page_down_mod [of ?S]
    by (simp add: unat_PAGE_START_down add.assoc [symmetric])
  show "unat (PAGE_START (p_offset ph) + file_offs) = page_down ?P + unat file_offs"
    using b page_down_le [of ?P] by (subst unat_plus_small) (simp_all add: unat_PAGE_START_down)
qed

lemma map_file_part_spec:
  fixes ph :: "('w::len) word phdr"
  assumes ok: "mappable file_offs ph start"
    and run: "map_file_part refuse file file_offs start ph vm = Some vm'"
  defines "inside a \<equiv> page_down (unat start) \<le> unat a \<and> unat a < page_up (unat start + unat (p_filesz ph))"
  shows "vm_byte vm' a = (if inside a
       then f_byte file (page_down (unat (p_offset ph)) + unat file_offs + (unat a - page_down (unat start)))
       else vm_byte vm a) \<and>
     vm_prot vm' a = (if inside a then Some (PFLAGS_TO_PROT (p_flags ph)) else vm_prot vm a)"
proof (cases "p_offset ph + p_filesz ph - PAGE_START (p_offset ph) = 0")
  case True
  with file_part_unats(1) [OF ok] have "unat start mod 4096 = 0" "unat (p_filesz ph) = 0" by simp_all
  then have "page_down (unat start) = page_up (unat start + unat (p_filesz ph))"
    using page_down_mod [of "unat start"] page_up_aligned [of "unat start"] by simp
  with True run show ?thesis by (auto simp: map_file_part_def inside_def)
next
  case False
  with run have call: "sys_mmap_file refuse (f_byte file) (PAGE_START start)
      (p_offset ph + p_filesz ph - PAGE_START (p_offset ph)) (PFLAGS_TO_PROT (p_flags ph))
      (unat (PAGE_START (p_offset ph) + file_offs)) vm = Some vm'"
    by (simp add: map_file_part_def Let_def)
  show ?thesis
    using mmap_file_nat [OF call, of a] file_part_unats(2,3) [OF ok] mappable_unats(5,6) [OF ok]
    unfolding inside_def unat_PAGE_START_down by simp
qed

lemma clear_page_tail_spec:
  fixes ph :: "('w::len) word phdr"
  assumes ok: "mappable file_offs ph start"
  shows "vm_byte (clear_page_tail start ph vm) a =
     (if p_flags ph AND PF_W \<noteq> 0 \<and> unat start + unat (p_filesz ph) \<le> unat a \<and>
         unat a < page_up (unat start + unat (p_filesz ph))
      then 0 else vm_byte vm a) \<and> vm_prot (clear_page_tail start ph vm) a = vm_prot vm a"
proof -
  let ?E = "unat start + unat (p_filesz ph)" and ?fe = "start + p_filesz ph"
  have off: "unat (PAGE_OFFSET ?fe) = ?E mod 4096"
    by (simp add: unat_PAGE_OFFSET mappable_unats(2) [OF ok])
  show ?thesis
  proof (cases "0 < ?E mod 4096")
    case True
    have "(word_of_nat (4096 - ?E mod 4096) :: 'w word) = word_of_nat 4096 - word_of_nat (?E mod 4096)"
      by (rule of_nat_diff) (simp add: less_imp_le)
    then have "4096 - PAGE_OFFSET ?fe = word_of_nat (4096 - ?E mod 4096)" by (simp flip: off)
    moreover have "4096 - ?E mod 4096 < 2 ^ LENGTH('w)"
      using True ok by (simp add: mappable_def) linarith
    ultimately have "unat (4096 - PAGE_OFFSET ?fe) = 4096 - ?E mod 4096"
      by (metis unat_word_of_nat_small)
    then have "unat ?fe + unat (4096 - PAGE_OFFSET ?fe) = page_up ?E"
      using page_up_unaligned [OF True] mappable_unats(2) [OF ok] by simp
    with True off mappable_unats(2,5,6) [OF ok] show ?thesis
      using vm_set_bytes_nat [of ?fe "4096 - PAGE_OFFSET ?fe" "\<lambda>_. 0" vm a]
      by (auto simp: clear_page_tail_def word_less_nat_alt Let_def)
  next
    case False
    with off have "PAGE_OFFSET ?fe = 0" by (simp add: unat_eq_0)
    with False show ?thesis using page_up_aligned [of ?E] by (auto simp: clear_page_tail_def)
  qed
qed

lemma map_zero_pages_spec:
  fixes ph :: "('w::len) word phdr"
  assumes ok: "mappable file_offs ph start" and run: "map_zero_pages refuse start ph vm = Some vm'"
  defines "inside a \<equiv> page_up (unat start + unat (p_filesz ph)) \<le> unat a \<and>
    unat a < page_up (unat start + unat (p_memsz ph))"
  shows "vm_byte vm' a = (if inside a then 0 else vm_byte vm a) \<and>
    vm_prot vm' a = (if inside a then Some (PFLAGS_TO_PROT (p_flags ph)) else vm_prot vm a)"
proof -
  let ?pe = "PAGE_END (start + p_memsz ph)" and ?fe = "PAGE_END (start + p_filesz ph)"
  note u = mappable_unats [OF ok]
  show ?thesis
  proof (cases "?pe > ?fe")
    case True
    have L: "unat (?pe - ?fe) = page_up (unat start + unat (p_memsz ph)) - page_up (unat start + unat (p_filesz ph))"
      using u by (simp add: unat_minus_small)
    then have "unat (PAGE_END (?pe - ?fe)) = unat (?pe - ?fe)"
      using u(7) by (intro unat_PAGE_END_aligned) (simp_all add: page_diff_mod)
    with L u have "unat ?fe + unat (PAGE_END (?pe - ?fe)) = page_up (unat start + unat (p_memsz ph))" by simp
    with True run u show ?thesis
      using mmap_anon_nat [of refuse ?fe "?pe - ?fe" "PFLAGS_TO_PROT (p_flags ph)" vm vm' a]
      by (simp add: map_zero_pages_def inside_def Let_def)
  next
    case False
    with u have "page_up (unat start + unat (p_memsz ph)) = page_up (unat start + unat (p_filesz ph))"
      by (simp add: word_less_nat_alt)
    with False run show ?thesis by (auto simp: map_zero_pages_def inside_def)
  qed
qed

lemma LoadSegment_spec:
  assumes ok: "mappable file_offs ph (p_vaddr ph + bias)"
    and run: "LoadSegment refuse file file_offs bias i ph vm = (None, vm')"
  shows "vm_byte vm' a = segment_byte file file_offs ph (p_vaddr ph + bias) vm a"
    "vm_prot vm' a = segment_prot ph (p_vaddr ph + bias) vm a"
proof -
  let ?s = "p_vaddr ph + bias"
  obtain vm1 where vm1: "map_file_part refuse file file_offs ?s ph vm = Some vm1"
    "map_zero_pages refuse ?s ph (clear_page_tail ?s ph vm1) = Some vm'"
    using run by (auto simp: LoadSegment_def Let_def split: option.splits)
  note parts = map_file_part_spec [OF ok vm1(1), of a] clear_page_tail_spec [OF ok, of vm1 a]
    map_zero_pages_spec [OF ok vm1(2), of a]
  show "vm_byte vm' a = segment_byte file file_offs ph ?s vm a"
    using parts by (simp add: segment_byte_def Let_def)
  show "vm_prot vm' a = segment_prot ph ?s vm a"
    using parts mappable_unats(5) [OF ok] page_down_le [of "unat ?s"]
      le_page_up [of "unat ?s + unat (p_filesz ph)"]
    by (auto simp: segment_prot_def)
qed

section \<open>Lemmas on all segments\<close>

text \<open>The pages of a segment.\<close>

definition seg_pages :: "'w word \<Rightarrow> ('w::len) word phdr \<Rightarrow> nat set" where
  "seg_pages bias ph =
     {page_down (unat (p_vaddr ph + bias)) ..< page_up (unat (p_vaddr ph + bias) + unat (p_memsz ph))}"

lemma segment_frame:
  fixes ph :: "('w::len) word phdr"
  assumes "mappable file_offs ph (p_vaddr ph + bias)" and "unat a \<notin> seg_pages bias ph"
  shows "segment_byte file file_offs ph (p_vaddr ph + bias) vm a = vm_byte vm a"
    "segment_prot ph (p_vaddr ph + bias) vm a = vm_prot vm a"
proof -
  let ?S = "unat (p_vaddr ph + bias)"
  have "page_down ?S \<le> ?S" "?S + unat (p_filesz ph) \<le> page_up (?S + unat (p_filesz ph))"
    "page_up (?S + unat (p_filesz ph)) \<le> page_up (?S + unat (p_memsz ph))"
    using assms(1) by (auto simp: page_down_le le_page_up mappable_def intro: page_up_mono)
  with assms(2) show "segment_byte file file_offs ph (p_vaddr ph + bias) vm a = vm_byte vm a"
    "segment_prot ph (p_vaddr ph + bias) vm a = vm_prot vm a"
    unfolding seg_pages_def segment_byte_def segment_prot_def Let_def by auto
qed

lemma segment_inside:
  assumes "unat a \<in> seg_pages bias ph"
  shows "segment_byte file file_offs ph (p_vaddr ph + bias) vm a =
       segment_byte file file_offs ph (p_vaddr ph + bias) vm0 a"
    "segment_prot ph (p_vaddr ph + bias) vm a = Some (PFLAGS_TO_PROT (p_flags ph))"
  using assms by (auto simp: segment_byte_def segment_prot_def seg_pages_def Let_def)

text \<open>Whether it succeeds or not, loading a segment changes nothing outside its pages.\<close>

lemma LoadSegment_frame:
  assumes ok: "mappable file_offs ph (p_vaddr ph + bias)" and out: "unat a \<notin> seg_pages bias ph"
    and run: "LoadSegment refuse file file_offs bias i ph vm = (r, vm')"
  shows "vm_byte vm' a = vm_byte vm a \<and> vm_prot vm' a = vm_prot vm a"
proof (cases r)
  case None
  with run LoadSegment_spec [OF ok, where a = a] segment_frame [OF ok out] show ?thesis by auto
next
  case (Some e)
  let ?s = "p_vaddr ph + bias"
  show ?thesis
  proof (cases "map_file_part refuse file file_offs ?s ph vm")
    case None
    with run show ?thesis by (auto simp: LoadSegment_def)
  next
    case (Some vm1)
    with run \<open>r = Some e\<close> have "vm' = clear_page_tail ?s ph vm1"
      by (auto simp: LoadSegment_def Let_def split: option.splits)
    moreover have "\<not> (page_down (unat ?s) \<le> unat a \<and> unat a < page_up (unat ?s + unat (p_filesz ph)))"
      using out mappable_unats(5) [OF ok] by (auto simp: seg_pages_def)
    ultimately show ?thesis
      using map_file_part_spec [OF ok Some, of a] clear_page_tail_spec [OF ok, of vm1 a] page_down_le [of "unat ?s"]
      by auto
  qed
qed

lemma LoadSegments_frame:
  assumes "LoadSegments_from refuse file fo bias i phs vm = (r, vm')"
    and "\<forall>ph \<in> set (loads phs). mappable fo ph (p_vaddr ph + bias) \<and> unat a \<notin> seg_pages bias ph"
  shows "vm_byte vm' a = vm_byte vm a \<and> vm_prot vm' a = vm_prot vm a"
  using assms
proof (induction phs arbitrary: i vm)
  case (Cons ph phs)
  show ?case
  proof (cases "p_type ph = PT_LOAD")
    case False
    with Cons show ?thesis by (simp add: loads_def)
  next
    case True
    obtain r1 vm1 where vm1: "LoadSegment refuse file fo bias i ph vm = (r1, vm1)" by force
    from Cons.prems(2) True have ph: "mappable fo ph (p_vaddr ph + bias)" "unat a \<notin> seg_pages bias ph"
      and rest: "\<forall>ph \<in> set (loads phs). mappable fo ph (p_vaddr ph + bias) \<and> unat a \<notin> seg_pages bias ph"
      by (auto simp: loads_def)
    show ?thesis
      using Cons.IH [OF _ rest, of "i + 1" vm1] LoadSegment_frame [OF ph vm1] Cons.prems(1) True vm1
      by (cases r1) auto
  qed
qed simp

lemma LoadSegments_inside:
  assumes "LoadSegments_from refuse file fo bias i phs vm = (None, vm')"
    and "\<forall>ph \<in> set (loads phs). mappable fo ph (p_vaddr ph + bias)"
    and "sorted_wrt (\<lambda>p q. disjnt (seg_pages bias p) (seg_pages bias q)) (loads phs)"
    and "ph \<in> set (loads phs)" and "unat a \<in> seg_pages bias ph"
  shows "vm_byte vm' a = segment_byte file fo ph (p_vaddr ph + bias) vm0 a \<and>
    vm_prot vm' a = Some (PFLAGS_TO_PROT (p_flags ph))"
  using assms
proof (induction phs arbitrary: i vm)
  case (Cons q phs)
  show ?case
  proof (cases "p_type q = PT_LOAD")
    case False
    with Cons show ?thesis by (simp add: loads_def)
  next
    case True
    with Cons.prems(1) obtain vm1 where vm1: "LoadSegment refuse file fo bias i q vm = (None, vm1)"
      "LoadSegments_from refuse file fo bias (i + 1) phs vm1 = (None, vm')"
      by (auto split: prod.splits option.splits)
    from True have l: "loads (q # phs) = q # loads phs" by (simp add: loads_def)
    show ?thesis
    proof (cases "ph \<in> set (loads phs)")
      case True
      with Cons.IH [OF vm1(2)] Cons.prems l show ?thesis by simp
    next
      case False
      with Cons.prems(4) l have q: "ph = q" by simp
      have "\<forall>p \<in> set (loads phs). mappable fo p (p_vaddr p + bias) \<and> unat a \<notin> seg_pages bias p"
        using Cons.prems(2,3,5) l q by (auto simp: disjnt_iff)
      from LoadSegments_frame [OF vm1(2) this] show ?thesis
        using LoadSegment_spec [OF _ vm1(1), of a] Cons.prems(2,5) l q
          segment_inside [of a bias q] by simp
    qed
  qed
qed (simp add: loads_def)

section \<open>Lemmas on the reserved range\<close>

text \<open>
  What \<open>mmap\<close> promises about the range it returns: it starts on a page, is not at address 0 and
  does not reach the end of the address space.
\<close>

definition reserve_ok :: "('w::len) word loader_os \<Rightarrow> bool" where
  "reserve_ok os \<longleftrightarrow>
     (\<forall>addr sz fixed start. os_reserve os addr sz fixed = Some start \<longrightarrow>
        unat start mod 4096 = 0 \<and> start \<noteq> 0 \<and> unat start + unat sz < 2 ^ LENGTH('w) \<and>
        (fixed \<longrightarrow> start = addr))"

text \<open>
  What the program header table of a well-formed library satisfies: segments fit into the address
  space and into the file's offsets, hold at least what the file gives them, agree with the file
  within a page, and have no page in common.
\<close>

definition table_ok :: "'w word \<Rightarrow> ('w::len) word phdr list \<Rightarrow> bool" where
  "table_ok file_offs phs \<longleftrightarrow>
     (\<forall>ph \<in> set (loads phs). segment_fits ph \<and> unat (p_filesz ph) \<le> unat (p_memsz ph) \<and>
        unat (p_offset ph) mod 4096 = unat (p_vaddr ph) mod 4096 \<and>
        unat (p_offset ph) + unat (p_filesz ph) + unat file_offs + 4095 < 2 ^ LENGTH('w)) \<and>
     sorted_wrt (\<lambda>p q. seg_hi p \<le> seg_lo q) (loads phs)"

lemma seg_position:
  fixes phs :: "('w::len) word phdr list"
  assumes tab: "table_ok file_offs phs" and res: "phdr_table_get_load_size phs = (sz, lo, hi)"
    and st: "unat start mod 4096 = 0" "unat start + unat sz < 2 ^ LENGTH('w)"
    and ph: "ph \<in> set (loads phs)"
  shows "unat (p_vaddr ph + (start - lo)) = unat start + (unat (p_vaddr ph) - unat lo)" (is ?pos)
    "seg_pages (start - lo) ph = {unat start + (seg_lo ph - unat lo) ..< unat start + (seg_hi ph - unat lo)}"
    "seg_hi ph \<le> unat lo + unat sz" "unat lo \<le> seg_lo ph"
    "mappable file_offs ph (p_vaddr ph + (start - lo))"
proof -
  have fits: "\<forall>ph \<in> set (loads phs). segment_fits ph" using tab by (simp add: table_ok_def)
  have ne: "loads phs \<noteq> []" using ph by auto
  note ext = load_size_extent [OF fits ne res]
  show lo: "unat lo \<le> seg_lo ph" and hi: "seg_hi ph \<le> unat lo + unat sz"
    using ext ph by auto
  have v: "seg_lo ph \<le> unat (p_vaddr ph)" "unat (p_vaddr ph) + unat (p_memsz ph) \<le> seg_hi ph"
    using page_bounds(1) [of "unat (p_vaddr ph)"] page_bounds(3) [of "unat (p_vaddr ph) + unat (p_memsz ph)"]
    by (simp_all add: seg_lo_def seg_hi_def)
  have d: "unat (p_vaddr ph - lo) = unat (p_vaddr ph) - unat lo" using lo v by (intro unat_minus_small) simp
  have eq: "p_vaddr ph + (start - lo) = start + (p_vaddr ph - lo)" by simp
  show pos: ?pos
    unfolding eq using d lo hi v st by (subst unat_plus_small) simp_all
  have "unat lo \<in> seg_lo ` set (loads phs)" unfolding ext(1) using ne by (intro Min_in) auto
  then have lom: "unat lo mod 4096 = 0" by (auto simp: seg_lo_def)
  have shift: "page_down (unat start + (m - unat lo)) = unat start + (page_down m - unat lo)"
    "page_up (unat start + (m - unat lo)) = unat start + (page_up m - unat lo)"
    "(unat start + (m - unat lo)) mod 4096 = m mod 4096" if "unat lo \<le> m" for m
  proof -
    from st(1) lom obtain a b where "unat start = 4096 * a" "unat lo = 4096 * b"
      by (metis mod_0_imp_dvd dvd_def)
    moreover from that obtain c where "m = unat lo + c" using le_iff_add by blast
    ultimately show "page_down (unat start + (m - unat lo)) = unat start + (page_down m - unat lo)"
      "page_up (unat start + (m - unat lo)) = unat start + (page_up m - unat lo)"
      "(unat start + (m - unat lo)) mod 4096 = m mod 4096"
      by (simp_all add: page_down_def page_up_def add.assoc)
  qed
  have vlo: "unat lo \<le> unat (p_vaddr ph)" using lo v by simp
  have sum: "unat start + (unat (p_vaddr ph) - unat lo) + unat (p_memsz ph) =
      unat start + (unat (p_vaddr ph) + unat (p_memsz ph) - unat lo)" using vlo by simp
  show "seg_pages (start - lo) ph = {unat start + (seg_lo ph - unat lo) ..< unat start + (seg_hi ph - unat lo)}"
    unfolding seg_pages_def pos sum shift(1) [OF vlo] shift(2) [OF trans_le_add1 [OF vlo]]
    by (simp add: page_down_def page_up_def seg_lo_def seg_hi_def)
  have "12 \<le> LENGTH('w)"
    using fits ph by (intro width_at_least_12) (auto simp: segment_fits_def)
  moreover have "(unat start + (seg_hi ph - unat lo)) mod 4096 = 0"
    using shift(3) [of "seg_hi ph"] lo v by (simp add: seg_hi_def)
  ultimately have "unat start + (seg_hi ph - unat lo) + 4095 < 2 ^ LENGTH('w)"
    using hi st by (intro aligned_below_top) simp_all
  then have "unat start + (unat (p_vaddr ph) - unat lo) + unat (p_memsz ph) + 4095 < 2 ^ LENGTH('w)"
    using v vlo by linarith
  then show "mappable file_offs ph (p_vaddr ph + (start - lo))"
    using tab ph unfolding mappable_def pos shift(3) [OF vlo] table_ok_def by blast
qed

lemma table_disjoint:
  fixes phs :: "('w::len) word phdr list"
  assumes tab: "table_ok file_offs phs" and res: "phdr_table_get_load_size phs = (sz, lo, hi)"
    and st: "unat start mod 4096 = 0" "unat start + unat sz < 2 ^ LENGTH('w)"
  shows "sorted_wrt (\<lambda>p q. disjnt (seg_pages (start - lo) p) (seg_pages (start - lo) q)) (loads phs)"
proof -
  have "sorted_wrt (\<lambda>p q. seg_hi p \<le> seg_lo q) (loads phs)" using tab by (simp add: table_ok_def)
  then show ?thesis
  proof (rule sorted_wrt_mono_rel [rotated])
    fix p q assume m: "p \<in> set (loads phs)" "q \<in> set (loads phs)" and "seg_hi p \<le> seg_lo q"
    then show "disjnt (seg_pages (start - lo) p) (seg_pages (start - lo) q)"
      using seg_position(2,4) [OF tab res st m(1)] seg_position(2,4) [OF tab res st m(2)]
      by (auto simp: disjnt_iff)
  qed
qed

text \<open>The state of the loader and of memory after \<open>ReserveAddressSpace\<close>.\<close>

lemma ReserveAddressSpace_ok:
  fixes ld :: "('w::len) word elf_loader"
  assumes "ReserveAddressSpace os ld vm = (None, ld', vm')" and "reserve_ok os"
  obtains sz lo hi start where "phdr_table_get_load_size (phdr_table ld) = (sz, lo, hi)" "sz \<noteq> 0"
    "ld' = ld\<lparr>load_size := sz, load_start := start, load_bias := start - lo\<rparr>"
    "unat start mod 4096 = 0" "start \<noteq> 0" "unat start + unat sz < 2 ^ LENGTH('w)"
    "wanted_load_address ld \<noteq> 0 \<longrightarrow> start = wanted_load_address ld"
    "vm' = vm_set_prot start (PAGE_END sz) (Some 0) (vm_set_bytes start (PAGE_END sz) (\<lambda>_. 0) vm)"
proof -
  obtain sz lo hi where e: "phdr_table_get_load_size (phdr_table ld) = (sz, lo, hi)" by (metis prod_cases3)
  let ?w = "wanted_load_address ld"
  let ?addr = "if ?w \<noteq> 0 then ?w else lo"
  from assms(1) e obtain start where s: "os_reserve os ?addr sz (?w \<noteq> 0) = Some start" "sz \<noteq> 0"
    "ld' = ld\<lparr>load_size := sz, load_start := start, load_bias := start - lo\<rparr>"
    "vm' = vm_set_prot start (PAGE_END sz) (Some 0) (vm_set_bytes start (PAGE_END sz) (\<lambda>_. 0) vm)"
    by (auto simp: ReserveAddressSpace_def Let_def split: if_splits option.splits)
  from assms(2) s(1) have r: "unat start mod 4096 = 0" "start \<noteq> 0" "unat start + unat sz < 2 ^ LENGTH('w)"
    "?w \<noteq> 0 \<longrightarrow> start = ?w"
    by (auto simp: reserve_ok_def split: if_splits)
  show thesis by (rule that [OF e s(2,3) r s(4)])
qed

lemma LoadAt_success:
  assumes "LoadAt mach os file fo wanted ld vm = (None, ld', vm')"
  obtains ld1 ld2 ld3 vm3 where "wanted = PAGE_START wanted" "PAGE_OFFSET fo = 0"
    "ReadElfHeader mach file (ld\<lparr>wanted_load_address := wanted, file_offset := fo\<rparr>) = (None, ld1)"
    "ReadProgramHeader os file ld1 = (None, ld2)" "ReserveAddressSpace os ld2 vm = (None, ld3, vm3)"
    "LoadSegments os file ld3 vm3 = (None, vm')" "FindPhdr vm' ld3 = (None, ld')"
  using assms
  by (auto simp: LoadAt_def Let_def split: if_splits prod.splits option.splits)

lemma FindPhdr_fields:
  assumes "FindPhdr vm ld = (r, ld')"
  shows "phdr_table ld' = phdr_table ld" "phdr_num ld' = phdr_num ld" "load_bias ld' = load_bias ld"
    "load_start ld' = load_start ld" "load_size ld' = load_size ld" "file_offset ld' = file_offset ld"
  using assms
  by (auto simp: FindPhdr_def CheckPhdr_def Let_def split: option.splits if_splits)

lemma Read_fields:
  "ReadElfHeader mach file ld = (r, ld') \<Longrightarrow>
     file_offset ld' = file_offset ld \<and> wanted_load_address ld' = wanted_load_address ld"
  "ReadProgramHeader os file ld = (r, ld') \<Longrightarrow>
     file_offset ld' = file_offset ld \<and> wanted_load_address ld' = wanted_load_address ld"
  by (auto simp: ReadElfHeader_def ReadProgramHeader_def Let_def split: if_splits)

lemma segment_content:
  fixes ph :: "('w::len) word phdr"
  assumes ok: "mappable fo ph start" and i: "i < unat (p_memsz ph)"
  defines "a \<equiv> start + word_of_nat i"
  shows "unat a = unat start + i"
    "i < unat (p_filesz ph) \<Longrightarrow>
       segment_byte file fo ph start vm a = f_byte file (unat fo + unat (p_offset ph) + i)"
    "unat (p_filesz ph) \<le> i \<Longrightarrow> p_flags ph AND PF_W \<noteq> 0 \<Longrightarrow> segment_byte file fo ph start vm a = 0"
proof -
  let ?S = "unat start"
  have b: "?S + unat (p_memsz ph) + 4095 < 2 ^ LENGTH('w)" "unat (p_offset ph) mod 4096 = ?S mod 4096"
    using ok by (simp_all add: mappable_def)
  then have w: "unat (word_of_nat i :: 'w word) = i" using i by (intro unat_word_of_nat_small) simp
  show ua: "unat a = ?S + i"
    using b i unfolding a_def by (subst unat_plus_small) (simp_all add: w)
  note pg = page_down_mod [of ?S] page_down_le [of ?S] le_page_up [of "?S + unat (p_filesz ph)"]
    le_page_up [of "?S + unat (p_memsz ph)"] page_down_mod [of "unat (p_offset ph)"]
  {
    assume "i < unat (p_filesz ph)"
    moreover have "page_down (unat (p_offset ph)) + unat fo + (?S + i - page_down ?S) =
        unat fo + unat (p_offset ph) + i"
      using pg b(2) by linarith
    ultimately show "segment_byte file fo ph start vm a = f_byte file (unat fo + unat (p_offset ph) + i)"
      unfolding segment_byte_def ua Let_def using pg by simp
  }
  assume "unat (p_filesz ph) \<le> i" "p_flags ph AND PF_W \<noteq> 0"
  then show "segment_byte file fo ph start vm a = 0"
    unfolding segment_byte_def ua Let_def using pg i by auto
qed

lemma in_seg_pages:
  assumes "mappable fo ph (p_vaddr ph + bias)" and "i < unat (p_memsz ph)"
  shows "unat (p_vaddr ph + bias + word_of_nat i) \<in> seg_pages bias ph"
  using segment_content(1) [OF assms] assms(2) page_down_le [of "unat (p_vaddr ph + bias)"]
    le_page_up [of "unat (p_vaddr ph + bias) + unat (p_memsz ph)"]
  by (simp add: seg_pages_def)

section \<open>Properties\<close>

text \<open>C1: Loading a well-formed library succeeds only with the whole file image in place: every byte
  of every loadable segment lies in the reserved range, which starts at the wanted address when
  there is one, has the protection its header asks for, holds the byte of the file at its offset
  or, past the file part of a writable segment, zero.\<close>

theorem LoadAt_maps_file:
  fixes ph :: "('w::len) word phdr"
  assumes "LoadAt mach os file fo wanted ElfLoader_Init vm = (None, ld, vm')"
    and "reserve_ok os" and "table_ok fo (phdr_table ld)"
    and "ph \<in> set (loads (phdr_table ld))" and "i < unat (p_memsz ph)"
    and "a = p_vaddr ph + load_bias ld + word_of_nat i"
  shows "unat (load_start ld) \<le> unat a \<and> unat a < unat (load_start ld) + unat (load_size ld) \<and>
    (wanted \<noteq> 0 \<longrightarrow> load_start ld = wanted) \<and> vm_prot vm' a = Some (PFLAGS_TO_PROT (p_flags ph)) \<and>
    (i < unat (p_filesz ph) \<longrightarrow> vm_byte vm' a = f_byte file (unat fo + unat (p_offset ph) + i)) \<and>
    (unat (p_filesz ph) \<le> i \<and> p_flags ph AND PF_W \<noteq> 0 \<longrightarrow> vm_byte vm' a = 0)"
proof -
  obtain ld1 ld2 ld3 vm3 where st:
    "ReadElfHeader mach file (ElfLoader_Init\<lparr>wanted_load_address := wanted, file_offset := fo\<rparr>) = (None, ld1)"
    "ReadProgramHeader os file ld1 = (None, ld2)" "ReserveAddressSpace os ld2 vm = (None, ld3, vm3)"
    "LoadSegments os file ld3 vm3 = (None, vm')" "FindPhdr vm' ld3 = (None, ld)"
    using LoadAt_success [OF assms(1)] by metis
  obtain sz lo hi start where rs: "phdr_table_get_load_size (phdr_table ld2) = (sz, lo, hi)"
    "ld3 = ld2\<lparr>load_size := sz, load_start := start, load_bias := start - lo\<rparr>"
    "unat start mod 4096 = 0" "unat start + unat sz < 2 ^ LENGTH('w)"
    "wanted_load_address ld2 \<noteq> 0 \<longrightarrow> start = wanted_load_address ld2"
    using ReserveAddressSpace_ok [OF st(3) assms(2)] by metis
  have f: "phdr_table ld = phdr_table ld2" "load_bias ld = start - lo" "load_start ld = start"
    "load_size ld = sz" "file_offset ld3 = fo" "wanted_load_address ld2 = wanted"
    using FindPhdr_fields [OF st(5)] rs(2) Read_fields(1) [OF st(1)] Read_fields(2) [OF st(2)] by simp_all
  note tab = assms(3) [unfolded f(1)] and ph = assms(4) [unfolded f(1)]
  note pos = seg_position [OF tab rs(1,3,4) ph]
  have run: "LoadSegments_from (os_refuse os) file fo (start - lo) 0 (phdr_table ld2) vm3 = (None, vm')"
    using st(4) f rs(2) by (simp add: LoadSegments_def)
  have inp: "unat a \<in> seg_pages (start - lo) ph"
    unfolding assms(6) f(2) by (rule in_seg_pages [OF pos(5) assms(5)])
  have "vm_byte vm' a = segment_byte file fo ph (p_vaddr ph + (start - lo)) vm3 a \<and>
      vm_prot vm' a = Some (PFLAGS_TO_PROT (p_flags ph))"
    using LoadSegments_inside [OF run _ table_disjoint [OF tab rs(1,3,4)] ph inp]
      seg_position(5) [OF tab rs(1,3,4)] by blast
  moreover note segment_content [OF pos(5) assms(5)]
  ultimately show ?thesis
    using inp pos(2-4) rs(5) f assms(6) by auto
qed

text \<open>A small library for ARM: one writable segment that holds the headers and 12 bytes of zeroes.\<close>

definition tiny_bytes :: "byte list" where
  "tiny_bytes =
     [0x7f, 0x45, 0x4c, 0x46, 1, 1, 1, 0, 0, 0, 0, 0, 0, 0, 0, 0,
      3, 0, 40, 0, 1, 0, 0, 0, 0, 0, 0, 0, 52, 0, 0, 0, 0, 0, 0, 0, 0, 0, 0, 0,
      52, 0, 32, 0, 2, 0, 0, 0, 0, 0, 0, 0,
      6, 0, 0, 0, 52, 0, 0, 0, 52, 0, 0, 0, 52, 0, 0, 0, 64, 0, 0, 0, 64, 0, 0, 0, 4, 0, 0, 0, 4, 0, 0, 0,
      1, 0, 0, 0, 0, 0, 0, 0, 0, 0, 0, 0, 0, 0, 0, 0, 116, 0, 0, 0, 128, 0, 0, 0, 6, 0, 0, 0, 0, 16, 0, 0]"

definition tiny_file :: elf_file where
  "tiny_file = \<lparr>f_opens = True, f_seeks = True, f_reads = True, f_size = 116,
     f_byte = (\<lambda>i. if i < 116 then tiny_bytes ! i else 0)\<rparr>"

definition tiny_os :: "32 word loader_os" where
  "tiny_os = \<lparr>os_phdr_refused = False,
     os_reserve = (\<lambda>addr sz fixed. if unat sz < 0x10000000 \<and> addr = 0x50000000 then Some 0x50000000 else None),
     os_refuse = (\<lambda>_ _. False)\<rparr>"

definition zero_vm :: "32 word vm" where
  "zero_vm = \<lparr>vm_byte = \<lambda>_. 0, vm_prot = \<lambda>_. None\<rparr>"

definition tiny_phdrs :: "32 word phdr list" where
  "tiny_phdrs =
     [\<lparr>p_type = PT_PHDR, p_flags = 4, p_offset = 52, p_vaddr = 52, p_filesz = 64, p_memsz = 64\<rparr>,
      \<lparr>p_type = PT_LOAD, p_flags = 6, p_offset = 0, p_vaddr = 0, p_filesz = 116, p_memsz = 128\<rparr>]"

lemma tiny_reserve_ok: "reserve_ok tiny_os"
  by (simp add: reserve_ok_def tiny_os_def)

lemma tiny_ehdr:
  "(decode_ehdr (f_byte tiny_file) 0 :: 32 word ehdr) =
     \<lparr>e_ident = [0x7f, 0x45, 0x4c, 0x46, 1, 1, 1, 0, 0, 0, 0, 0, 0, 0, 0, 0], e_type = 3, e_machine = 40,
      e_version = 1, e_phoff = 52, e_phnum = 2\<rparr>"
  by (simp add: decode_ehdr_def le_at_def tiny_file_def tiny_bytes_def upt_rec)

lemma tiny_table:
  "map (\<lambda>i. decode_phdr (f_byte tiny_file) (52 + i * 32)) [0..<2] = tiny_phdrs"
  by (simp add: decode_phdr_def le_at_def tiny_file_def tiny_bytes_def upt_rec tiny_phdrs_def PT_PHDR_def PT_LOAD_def)

definition tiny_loader :: "32 word elf_loader" where
  "tiny_loader = ElfLoader_Init\<lparr>wanted_load_address := 0x50000000, file_offset := 0,
     ld_header := decode_ehdr (f_byte tiny_file) 0, phdr_num := 2, phdr_size := 0x1000,
     phdr_table := tiny_phdrs\<rparr>"

lemma tiny_size [simp]: "f_size tiny_file = 116" "f_reads tiny_file" "f_opens tiny_file"
  by (simp_all add: tiny_file_def)

lemma tiny_read:
  "ReadElfHeader 40 tiny_file (ElfLoader_Init\<lparr>wanted_load_address := 0x50000000 :: 32 word, file_offset := 0\<rparr>) =
     (None, ElfLoader_Init\<lparr>wanted_load_address := 0x50000000, file_offset := 0,
        ld_header := decode_ehdr (f_byte tiny_file) 0\<rparr>)"
  by (simp add: ReadElfHeader_def tiny_ehdr sizeof_Ehdr_def ELFMAG_def kElfClass_def ElfLoader_Init_def Let_def)

lemma tiny_read_table:
  "ReadProgramHeader tiny_os tiny_file (ElfLoader_Init\<lparr>wanted_load_address := 0x50000000, file_offset := 0,
        ld_header := decode_ehdr (f_byte tiny_file) 0\<rparr>) = (None, tiny_loader)"
  using tiny_table
  by (simp add: ReadProgramHeader_def tiny_ehdr sizeof_Phdr_def tiny_os_def tiny_loader_def Let_def
      ElfLoader_Init_def PAGE_START_def PAGE_END_def PAGE_OFFSET_def PAGE_MASK_def)

lemma tiny_load_size: "phdr_table_get_load_size tiny_phdrs = (0x1000, 0, 0x1000)"
  by (simp add: tiny_phdrs_def phdr_table_get_load_size_def PT_PHDR_def PT_LOAD_def PAGE_START_def
      PAGE_END_def PAGE_MASK_def word_gt_0)

lemma tiny_load:
  "\<exists>vm'. LoadAt 40 tiny_os tiny_file 0 0x50000000 ElfLoader_Init zero_vm =
     (None, tiny_loader\<lparr>load_size := 0x1000, load_start := 0x50000000, load_bias := 0x50000000,
        loaded_phdr := 0x50000034\<rparr>, vm')"
proof -
  let ?ld = "tiny_loader\<lparr>load_size := 0x1000, load_start := 0x50000000, load_bias := 0x50000000\<rparr>"
  obtain vm3 where rs: "ReserveAddressSpace tiny_os tiny_loader zero_vm = (None, ?ld, vm3)"
    by (simp add: ReserveAddressSpace_def tiny_loader_def tiny_load_size tiny_os_def Let_def)
  have "fst (LoadSegments tiny_os tiny_file ?ld vm3) = None"
    by (simp add: LoadSegments_def LoadSegment_def tiny_loader_def tiny_phdrs_def PT_LOAD_def PT_PHDR_def
        map_file_part_def map_zero_pages_def sys_mmap_file_def sys_mmap_anon_def tiny_os_def Let_def)
  then obtain vm4 where ls: "LoadSegments tiny_os tiny_file ?ld vm3 = (None, vm4)" by (metis prod.collapse)
  have "FindPhdr vm4 ?ld = (None, ?ld\<lparr>loaded_phdr := 0x50000034\<rparr>)"
    by (simp add: FindPhdr_def CheckPhdr_def tiny_loader_def tiny_phdrs_def PT_LOAD_def PT_PHDR_def
        sizeof_Phdr_def Let_def)
  with tiny_read tiny_read_table rs ls show ?thesis
    by (simp add: LoadAt_def PAGE_START_def PAGE_OFFSET_def PAGE_MASK_def Let_def)
qed

theorem LoadAt_maps_file_witness:
  "\<exists>ld vm'. LoadAt 40 tiny_os tiny_file 0 0x50000000 ElfLoader_Init zero_vm = (None, ld, vm') \<and>
     load_start ld = 0x50000000 \<and> vm_byte vm' 0x50000001 = 0x45 \<and> vm_byte vm' 0x50000078 = 0 \<and>
     vm_prot vm' 0x50000078 = Some 3"
proof -
  let ?ld = "tiny_loader\<lparr>load_size := 0x1000, load_start := 0x50000000, load_bias := 0x50000000,
        loaded_phdr := 0x50000034\<rparr>"
  obtain vm' where run: "LoadAt 40 tiny_os tiny_file 0 0x50000000 ElfLoader_Init zero_vm = (None, ?ld, vm')"
    using tiny_load by blast
  have tab: "table_ok 0 (phdr_table ?ld)"
    by (simp add: tiny_loader_def table_ok_def loads_def tiny_phdrs_def PT_LOAD_def PT_PHDR_def segment_fits_def)
  let ?ph = "\<lparr>p_type = PT_LOAD, p_flags = 6, p_offset = 0, p_vaddr = 0, p_filesz = 116, p_memsz = 128\<rparr> :: 32 word phdr"
  have ph: "?ph \<in> set (loads (phdr_table ?ld))"
    by (simp add: tiny_loader_def loads_def tiny_phdrs_def)
  have "f_byte tiny_file 1 = 0x45" by (simp add: tiny_file_def tiny_bytes_def)
  moreover have "PFLAGS_TO_PROT 6 = 3"
    by (simp add: PFLAGS_TO_PROT_def MAYBE_MAP_FLAG_def PF_X_def PF_R_def PF_W_def PROT_READ_def PROT_WRITE_def)
  ultimately show ?thesis
    using run LoadAt_maps_file [OF run tiny_reserve_ok tab ph, of 1 "0x50000001"]
      LoadAt_maps_file [OF run tiny_reserve_ok tab ph, of "0x78" "0x50000078"]
    by (simp add: PF_W_def)
qed

lemma CheckPhdr_loop_iff:
  "CheckPhdr_loop phs bias l e \<longleftrightarrow>
     (\<exists>ph \<in> set (loads phs). p_vaddr ph + bias \<le> l \<and> e \<le> p_filesz ph + (p_vaddr ph + bias))"
  by (induction phs) (auto simp: loads_def Let_def)

text \<open>As long as neither the table nor a segment reaches around the end of the address space,
  \<open>CheckPhdr\<close> accepts an address exactly when the whole program header table at that address lies
  in the part of one loadable segment that comes from the file.\<close>

theorem CheckPhdr_exact:
  fixes ld :: "('w::len) word elf_loader"
  assumes "unat loaded + phdr_num ld * sizeof_Phdr LENGTH('w) < 2 ^ LENGTH('w)"
    and "\<forall>ph \<in> set (loads (phdr_table ld)).
      unat (p_vaddr ph + load_bias ld) + unat (p_filesz ph) < 2 ^ LENGTH('w)"
  shows "fst (CheckPhdr loaded ld) = None \<longleftrightarrow>
     (\<exists>ph \<in> set (loads (phdr_table ld)).
        unat (p_vaddr ph + load_bias ld) \<le> unat loaded \<and>
        unat loaded + phdr_num ld * sizeof_Phdr LENGTH('w) \<le>
          unat (p_vaddr ph + load_bias ld) + unat (p_filesz ph))"
proof -
  let ?n = "phdr_num ld * sizeof_Phdr LENGTH('w)"
  have n: "unat (word_of_nat ?n :: 'w word) = ?n"
    using assms(1) by (intro unat_word_of_nat_small) simp
  have e: "unat (loaded + word_of_nat ?n) = unat loaded + ?n"
    using assms(1) n by (subst unat_plus_small) simp_all
  have "unat (p_filesz ph + (p_vaddr ph + load_bias ld)) = unat (p_vaddr ph + load_bias ld) + unat (p_filesz ph)"
    if "ph \<in> set (loads (phdr_table ld))" for ph
    using assms(2) that by (subst unat_plus_small) (simp_all add: add.commute)
  with e show ?thesis
    by (auto simp: CheckPhdr_def CheckPhdr_loop_iff word_le_nat_alt Let_def)
qed

theorem CheckPhdr_exact_witness:
  "fst (CheckPhdr 0x50000034 (tiny_loader\<lparr>load_bias := 0x50000000\<rparr>)) = None \<and>
   fst (CheckPhdr 0x50000044 (tiny_loader\<lparr>load_bias := 0x50000000\<rparr>)) \<noteq> None"
  using CheckPhdr_exact [of "0x50000034" "tiny_loader\<lparr>load_bias := 0x50000000\<rparr>"]
    CheckPhdr_exact [of "0x50000044" "tiny_loader\<lparr>load_bias := 0x50000000\<rparr>"]
  by (simp add: tiny_loader_def tiny_phdrs_def loads_def sizeof_Phdr_def PT_LOAD_def PT_PHDR_def)

text \<open>The assumption is needed. An address above a loadable segment, so high that the end of the
  table wraps around to an address below the end of the segment, is accepted although the table
  lies outside: the sum in \<open>CheckPhdr\<close> is not checked for overflow.\<close>

theorem CheckPhdr_accepts_wrapping_table:
  fixes ld :: "('w::len) word elf_loader"
  assumes "ph \<in> set (loads (phdr_table ld))"
    and "unat (p_vaddr ph + load_bias ld) + unat (p_filesz ph) < unat loaded"
    and "2 ^ LENGTH('w) \<le> unat loaded + phdr_num ld * sizeof_Phdr LENGTH('w)"
    and "unat loaded + phdr_num ld * sizeof_Phdr LENGTH('w) - 2 ^ LENGTH('w) \<le>
      unat (p_vaddr ph + load_bias ld) + unat (p_filesz ph)"
    and "phdr_num ld * sizeof_Phdr LENGTH('w) < 2 ^ LENGTH('w)"
  shows "CheckPhdr loaded ld = (None, ld\<lparr>loaded_phdr := loaded\<rparr>)"
proof -
  let ?n = "phdr_num ld * sizeof_Phdr LENGTH('w)" and ?s = "p_vaddr ph + load_bias ld"
  have n: "unat (word_of_nat ?n :: 'w word) = ?n" using assms(5) by (rule unat_word_of_nat_small)
  have e: "unat (loaded + word_of_nat ?n) = unat loaded + ?n - 2 ^ LENGTH('w)"
    using assms(3) n by (simp add: unat_plus_if')
  have "unat (p_filesz ph + ?s) = unat ?s + unat (p_filesz ph)"
    using less_trans [OF assms(2) unsigned_less] by (subst unat_plus_small) (simp_all add: add.commute)
  with e assms have "?s \<le> loaded \<and> loaded + word_of_nat ?n \<le> p_filesz ph + ?s"
    by (simp add: word_le_nat_alt)
  with assms(1) show ?thesis
    unfolding CheckPhdr_def CheckPhdr_loop_iff Let_def by auto
qed

theorem CheckPhdr_accepts_wrapping_table_witness:
  "CheckPhdr 0xfffffff0 (tiny_loader\<lparr>load_bias := 0x50000000\<rparr>) =
     (None, tiny_loader\<lparr>load_bias := 0x50000000, loaded_phdr := 0xfffffff0\<rparr>)"
  using CheckPhdr_accepts_wrapping_table [of "tiny_phdrs ! 1" "tiny_loader\<lparr>load_bias := 0x50000000\<rparr>" "0xfffffff0"]
  by (simp add: tiny_loader_def tiny_phdrs_def loads_def sizeof_Phdr_def PT_LOAD_def PT_PHDR_def)

lemma reserved_size:
  fixes phs :: "('w::len) word phdr list"
  assumes "table_ok fo phs" and "phdr_table_get_load_size phs = (sz, lo, hi)" and "sz \<noteq> 0"
  shows "unat (PAGE_END sz) = unat sz"
proof -
  have ne: "loads phs \<noteq> []" using assms(2,3) load_size_none [of phs] by auto
  have fits: "\<forall>ph \<in> set (loads phs). segment_fits ph" using assms(1) by (simp add: table_ok_def)
  note ext = load_size_extent [OF fits ne assms(2)]
  have "unat lo \<in> seg_lo ` set (loads phs)" unfolding ext(1) using ne by (intro Min_in) auto
  moreover have "unat hi \<in> seg_hi ` set (loads phs)" unfolding ext(2) using ne by (intro Max_in) auto
  ultimately have "unat sz mod 4096 = 0"
    unfolding ext(4) by (intro page_diff_mod) (auto simp: seg_lo_def seg_hi_def)
  moreover have "12 \<le> LENGTH('w)"
    using fits ne by (intro width_at_least_12) (auto simp: segment_fits_def neq_Nil_conv)
  ultimately show ?thesis by (rule unat_PAGE_END_aligned)
qed

lemma failed_load:
  fixes phs :: "('w::len) word phdr list"
  assumes tab: "table_ok fo phs" and res: "phdr_table_get_load_size phs = (sz, lo, hi)" "sz \<noteq> 0"
    and st: "unat start mod 4096 = 0" "unat start + unat sz < 2 ^ LENGTH('w)"
    and run: "LoadSegments_from refuse file fo (start - lo) i phs
      (vm_set_prot start (PAGE_END sz) (Some 0) (vm_set_bytes start (PAGE_END sz) (\<lambda>_. 0) vm)) = (r, vm4)"
  shows "(vm_prot (sys_munmap start sz vm4) a = vm_prot vm a \<and> vm_byte (sys_munmap start sz vm4) a = vm_byte vm a) \<or>
    (unat start \<le> unat a \<and> unat a < unat start + unat sz \<and> vm_prot (sys_munmap start sz vm4) a = None)"
proof (cases "unat start \<le> unat a \<and> unat a < unat start + unat sz")
  case True
  with reserved_size [OF tab res] st(2) show ?thesis
    by (simp add: sys_munmap_def vm_set_prot_nat)
next
  case False
  have "mappable fo ph (p_vaddr ph + (start - lo)) \<and> unat a \<notin> seg_pages (start - lo) ph"
    if "ph \<in> set (loads phs)" for ph
    using seg_position(2-5) [OF tab res(1) st that] False by auto
  then have "vm_byte vm4 a = vm_byte vm a \<and> vm_prot vm4 a = vm_prot vm a"
    using LoadSegments_frame [OF run, of a] False reserved_size [OF tab res] st(2)
    by (auto simp: vm_set_prot_nat vm_set_bytes_nat)
  with False reserved_size [OF tab res] st(2) show ?thesis
    by (auto simp: sys_munmap_def vm_set_prot_nat)
qed

text \<open>C37: A load that fails leaves nothing behind: whatever step fails, an address either keeps its
  mapping and its content, or lies in the range the loader had reserved and is unmapped again.\<close>

theorem LoadAt_failure_unmaps:
  fixes vm :: "('w::len) word vm"
  assumes "LoadAt mach os file fo wanted ElfLoader_Init vm = (Some e, ld, vm')"
    and "reserve_ok os" and "table_ok fo (phdr_table ld)"
  shows "(vm_prot vm' a = vm_prot vm a \<and> vm_byte vm' a = vm_byte vm a) \<or>
    (unat (load_start ld) \<le> unat a \<and> unat a < unat (load_start ld) + unat (load_size ld) \<and> vm_prot vm' a = None)"
proof -
  let ?ld0 = "ElfLoader_Init\<lparr>wanted_load_address := wanted, file_offset := fo\<rparr>"
  obtain r1 ld1 where 1: "ReadElfHeader mach file ?ld0 = (r1, ld1)" by force
  obtain r2 ld2 where 2: "ReadProgramHeader os file ld1 = (r2, ld2)" by force
  obtain r3 ld3 vm3 where 3: "ReserveAddressSpace os ld2 vm = (r3, ld3, vm3)" by (metis prod_cases3)
  obtain r4 vm4 where 4: "LoadSegments os file ld3 vm3 = (r4, vm4)" by force
  obtain r5 ld5 where 5: "FindPhdr vm4 ld3 = (r5, ld5)" by force
  have res: "vm' = vm \<or> (r1 = None \<and> r2 = None \<and> r3 = None \<and> (ld = ld3 \<or> ld = ld5) \<and>
      vm' = (if load_start ld \<noteq> 0 \<and> load_size ld \<noteq> 0 then sys_munmap (load_start ld) (load_size ld) vm4 else vm4))"
    using assms(1) 1 2 3 4 5
    by (auto simp: LoadAt_def ReserveAddressSpace_def Let_def split: if_splits option.splits prod.splits)
  show ?thesis
  proof (cases "vm' = vm")
    case False
    with res have r: "r1 = None" "r2 = None" "r3 = None" "ld = ld3 \<or> ld = ld5"
      "vm' = (if load_start ld \<noteq> 0 \<and> load_size ld \<noteq> 0 then sys_munmap (load_start ld) (load_size ld) vm4 else vm4)"
      by auto
    obtain sz lo hi start where rs: "phdr_table_get_load_size (phdr_table ld2) = (sz, lo, hi)" "sz \<noteq> 0"
      "ld3 = ld2\<lparr>load_size := sz, load_start := start, load_bias := start - lo\<rparr>"
      "unat start mod 4096 = 0" "start \<noteq> 0" "unat start + unat sz < 2 ^ LENGTH('w)"
      "vm3 = vm_set_prot start (PAGE_END sz) (Some 0) (vm_set_bytes start (PAGE_END sz) (\<lambda>_. 0) vm)"
      using ReserveAddressSpace_ok [OF 3 [unfolded r(3)] assms(2)] by metis
    have f: "phdr_table ld = phdr_table ld2" "load_start ld = start" "load_size ld = sz" "file_offset ld3 = fo"
      using FindPhdr_fields [OF 5] rs(3) r(4) Read_fields(1) [OF 1] Read_fields(2) [OF 2] by auto
    show ?thesis
      using failed_load [OF assms(3) [unfolded f(1)] rs(1,2,4,6), where a = a] rs 4 f r(5)
      by (simp add: LoadSegments_def)
  qed simp
qed

theorem LoadAt_failure_unmaps_witness:
  "\<exists>ld vm'. LoadAt 40 (tiny_os\<lparr>os_refuse := \<lambda>_ _. True\<rparr>) tiny_file 0 0x50000000 ElfLoader_Init
       \<lparr>vm_byte = \<lambda>_. 9, vm_prot = \<lambda>_. Some 1\<rparr> = (Some (CantMapSegment 1), ld, vm') \<and>
     vm_prot vm' 0x60000000 = Some 1 \<and> vm_byte vm' 0x60000000 = 9"
proof -
  let ?os = "tiny_os\<lparr>os_refuse := \<lambda>_ _. True\<rparr>" and ?vm = "\<lparr>vm_byte = \<lambda>_. 9, vm_prot = \<lambda>_. Some 1\<rparr> :: 32 word vm"
  let ?ld = "tiny_loader\<lparr>load_size := 0x1000, load_start := 0x50000000, load_bias := 0x50000000\<rparr>"
  obtain vm3 where rs: "ReserveAddressSpace ?os tiny_loader ?vm = (None, ?ld, vm3)"
    by (simp add: ReserveAddressSpace_def tiny_loader_def tiny_load_size tiny_os_def Let_def)
  have ls: "LoadSegments ?os tiny_file ?ld vm3 = (Some (CantMapSegment 1), vm3)"
    by (simp add: LoadSegments_def LoadSegment_def tiny_loader_def tiny_phdrs_def PT_LOAD_def PT_PHDR_def
        map_file_part_def sys_mmap_file_def PAGE_START_def PAGE_MASK_def Let_def)
  have rd: "ReadProgramHeader ?os tiny_file ld = ReadProgramHeader tiny_os tiny_file ld" for ld :: "32 word elf_loader"
    by (simp add: ReadProgramHeader_def Let_def)
  have "\<exists>vm'. LoadAt 40 ?os tiny_file 0 0x50000000 ElfLoader_Init ?vm = (Some (CantMapSegment 1), ?ld, vm')"
    using tiny_read tiny_read_table rs ls
    by (simp add: LoadAt_def rd PAGE_START_def PAGE_OFFSET_def PAGE_MASK_def Let_def)
  then obtain vm' where run: "LoadAt 40 ?os tiny_file 0 0x50000000 ElfLoader_Init ?vm =
      (Some (CantMapSegment 1), ?ld, vm')" by blast
  have tab: "table_ok 0 (phdr_table ?ld)"
    by (simp add: tiny_loader_def table_ok_def loads_def tiny_phdrs_def PT_LOAD_def PT_PHDR_def segment_fits_def)
  have "reserve_ok ?os" using tiny_reserve_ok by (simp add: reserve_ok_def)
  from LoadAt_failure_unmaps [OF run this tab, of "0x60000000"] run show ?thesis by simp
qed

end
