(* ===== verification/Elf_View.thy ===== *)
theory Elf_View
  imports Elf_Loader
begin

text \<open>
  The description of an ELF binary, class \<open>ElfView\<close> of \<open>crazy_linker_elf_view.cpp\<close>, and the
  iteration over its dynamic table. Tables that the code reads through pointers are read from the
  bytes of memory; pointers are addresses, and 0 is \<open>NULL\<close>. The program header table that
  \<open>InitUnmapped\<close> is given is the list of its entries and the address it is at.
\<close>

datatype view_error = InvalidPhdrTable | NoDynamicSection | MalformedElf | CantProtectRelro

record 'addr elf_view =
  ev_phdr :: 'addr
  ev_phdr_count :: nat
  ev_dynamic :: 'addr
  ev_dynamic_count :: nat
  ev_dynamic_flags :: "32 word"
  ev_load_address :: 'addr
  ev_load_size :: 'addr
  ev_load_bias :: 'addr

definition ElfView_Init :: "('w::len) word elf_view" where
  "ElfView_Init = \<lparr>ev_phdr = 0, ev_phdr_count = 0, ev_dynamic = 0, ev_dynamic_count = 0, ev_dynamic_flags = 0,
     ev_load_address = 0, ev_load_size = 0, ev_load_bias = 0\<rparr>"

text \<open>The index of the first entry of a type.\<close>

fun find_index :: "('a \<Rightarrow> bool) \<Rightarrow> 'a list \<Rightarrow> nat option" where
  "find_index P [] = None"
| "find_index P (x # xs) = (if P x then Some 0 else map_option Suc (find_index P xs))"

text \<open>The candidate \<open>phdr0\<close>, 0 if there is none.\<close>

definition find_phdr0 :: "('w::len) word vm \<Rightarrow> 'w word \<Rightarrow> 'w word \<Rightarrow> 'w word phdr list \<Rightarrow> 'w word" where
  "find_phdr0 vm bias phdr_addr phs =
     (case find_index (\<lambda>entry. p_type entry = PT_PHDR) phs of
        Some n \<Rightarrow> phdr_addr + word_of_nat (n * sizeof_Phdr LENGTH('w))
      | None \<Rightarrow>
          (case find (\<lambda>entry. p_type entry = PT_LOAD) phs of
             None \<Rightarrow> 0
           | Some entry \<Rightarrow>
               if p_offset entry = 0
               then let elf_addr = bias + p_vaddr entry;
                        offset = e_phoff (decode_ehdr (mem_from vm elf_addr) 0 :: 'w word ehdr)
                    in elf_addr + offset
               else 0))"

definition phdr0_in_segment :: "'w word \<Rightarrow> ('w::len) word \<Rightarrow> 'w word phdr list \<Rightarrow> bool" where
  "phdr0_in_segment bias phdr0_addr phs =
     (let phdr0_limit = phdr0_addr + word_of_nat (sizeof_Phdr LENGTH('w) * length phs)
      in list_ex (\<lambda>ph. let seg_start = bias + p_vaddr ph; seg_end = seg_start + p_filesz ph
                       in seg_start \<le> phdr0_addr \<and> phdr0_limit \<le> seg_end) phs)"

definition InitUnmapped ::
  "('w::len) word vm \<Rightarrow> 'w word \<Rightarrow> 'w word \<Rightarrow> 'w word phdr list \<Rightarrow> 'w word elf_view \<Rightarrow>
     view_error option \<times> 'w word elf_view" where
  "InitUnmapped vm load_address phdr_addr phs v =
     (let (sz, min_vaddr, _) = phdr_table_get_load_size phs; v = v\<lparr>ev_load_size := sz\<rparr> in
      if ev_load_size v = 0 then (Some InvalidPhdrTable, v)
      else
        let v = v\<lparr>ev_load_address := (if load_address \<noteq> 0 then load_address else min_vaddr),
                  ev_load_bias := load_address - min_vaddr\<rparr>;
            (dynamic, count, flags) = phdr_table_get_dynamic_section phs load_address;
            v = v\<lparr>ev_dynamic := dynamic, ev_dynamic_count := count,
                  ev_dynamic_flags := (case flags of None \<Rightarrow> ev_dynamic_flags v | Some f \<Rightarrow> f)\<rparr>
        in if ev_dynamic v = 0 then (Some NoDynamicSection, v)
           else
             let phdr0 = find_phdr0 vm (ev_load_bias v) phdr_addr phs;
                 phdr0 = (if phdr0 \<noteq> 0 then (if phdr0_in_segment (ev_load_bias v) phdr0 phs then phdr0 else 0)
                          else phdr0)
             in if phdr0 = 0 then (Some MalformedElf, v)
                else (None, v\<lparr>ev_phdr := phdr0, ev_phdr_count := length phs\<rparr>))"

text \<open>The program header table of a view, read back from memory.\<close>

definition view_phdrs :: "('w::len) word vm \<Rightarrow> 'w word elf_view \<Rightarrow> 'w word phdr list" where
  "view_phdrs vm v =
     map (\<lambda>n. decode_phdr (mem_from vm (ev_phdr v)) (n * sizeof_Phdr LENGTH('w))) [0..<ev_phdr_count v]"

definition ProtectRelroSection ::
  "'w word refusal \<Rightarrow> ('w::len) word elf_view \<Rightarrow> 'w word vm \<Rightarrow> view_error option \<times> 'w word vm" where
  "ProtectRelroSection refuse v vm =
     (case phdr_table_protect_gnu_relro (sys_mprotect refuse) (view_phdrs vm v) (ev_load_bias v) vm of
        (ret, vm) \<Rightarrow> if ret < 0 then (Some CantProtectRelro, vm) else (None, vm))"

section \<open>The dynamic table\<close>

text \<open>\<open>DynamicIterator\<close>: the current entry and the limit, as addresses.\<close>

record 'addr dyn_iter =
  dyn_cur :: 'addr
  dyn_limit :: 'addr

definition DynamicIterator_Init :: "('w::len) word elf_view \<Rightarrow> 'w word dyn_iter" where
  "DynamicIterator_Init v =
     \<lparr>dyn_cur = ev_dynamic v,
      dyn_limit = ev_dynamic v + word_of_nat (ev_dynamic_count v * sizeof_Dyn LENGTH('w))\<rparr>"

definition dyn_HasNext :: "('w::len) word dyn_iter \<Rightarrow> bool" where
  "dyn_HasNext it \<longleftrightarrow> dyn_cur it < dyn_limit it"

definition dyn_GetNext :: "('w::len) word dyn_iter \<Rightarrow> 'w word dyn_iter" where
  "dyn_GetNext it = it\<lparr>dyn_cur := dyn_cur it + word_of_nat (sizeof_Dyn LENGTH('w))\<rparr>"

definition addr_size :: "nat \<Rightarrow> nat" where
  "addr_size bits = (if bits = 32 then 4 else 8)"

text \<open>A word of address size in memory.\<close>

definition read_addr :: "('w::len) word vm \<Rightarrow> 'w word \<Rightarrow> 'w word" where
  "read_addr vm a = word_of_nat (le_at (mem_from vm a) 0 (addr_size LENGTH('w)))"

definition dyn_GetTag :: "('w::len) word vm \<Rightarrow> 'w word dyn_iter \<Rightarrow> 'w word" where
  "dyn_GetTag vm it = read_addr vm (dyn_cur it)"

definition dyn_GetValuePointer :: "('w::len) word dyn_iter \<Rightarrow> 'w word" where
  "dyn_GetValuePointer it = dyn_cur it + word_of_nat (addr_size LENGTH('w))"

definition dyn_GetValue :: "('w::len) word vm \<Rightarrow> 'w word dyn_iter \<Rightarrow> 'w word" where
  "dyn_GetValue vm it = read_addr vm (dyn_GetValuePointer it)"

definition dyn_GetAddress :: "('w::len) word vm \<Rightarrow> 'w word \<Rightarrow> 'w word dyn_iter \<Rightarrow> 'w word" where
  "dyn_GetAddress vm bias it = bias + dyn_GetValue vm it"

text \<open>The entries the loop \<open>for (; it.HasNext(); it.GetNext())\<close> visits; the fuel is the number of
  entries, which is enough when the table does not wrap around.\<close>

fun dyn_entries :: "nat \<Rightarrow> ('w::len) word dyn_iter \<Rightarrow> 'w word dyn_iter list" where
  "dyn_entries 0 it = []"
| "dyn_entries (Suc fuel) it = (if dyn_HasNext it then it # dyn_entries fuel (dyn_GetNext it) else [])"

definition dynamic_entries :: "('w::len) word elf_view \<Rightarrow> 'w word dyn_iter list" where
  "dynamic_entries v = dyn_entries (Suc (ev_dynamic_count v)) (DynamicIterator_Init v)"

section \<open>Lemmas\<close>

lemma phdr_dynamic_section:
  "phdr_table_get_dynamic_section phs bias =
     (case find (\<lambda>ph. p_type ph = PT_DYNAMIC) phs of
        None \<Rightarrow> (0, 0, None)
      | Some ph \<Rightarrow> (bias + p_vaddr ph, (unat (p_memsz ph) div sizeof_Dyn LENGTH('w)) mod 2 ^ 32, Some (p_flags ph)))"
  for phs :: "('w::len) word phdr list"
  by (induction phs) auto

lemma dyn_entries_all:
  fixes it :: "('w::len) word dyn_iter"
  assumes "unat (dyn_cur it) + n * sizeof_Dyn LENGTH('w) < 2 ^ LENGTH('w)"
    and "dyn_limit it = dyn_cur it + word_of_nat (n * sizeof_Dyn LENGTH('w))"
  shows "dyn_entries (Suc n) it =
     map (\<lambda>i. it\<lparr>dyn_cur := dyn_cur it + word_of_nat (i * sizeof_Dyn LENGTH('w))\<rparr>) [0..<n]"
  using assms
proof (induction n arbitrary: it)
  case 0
  then show ?case by (simp add: dyn_HasNext_def)
next
  case (Suc n)
  let ?d = "sizeof_Dyn LENGTH('w)" and ?it = "dyn_GetNext it"
  have d: "0 < ?d" by (simp add: sizeof_Dyn_def)
  have w: "unat (word_of_nat (k * ?d) :: 'w word) = k * ?d" if "k \<le> Suc n" for k
  proof (rule unat_word_of_nat_small)
    have "k * ?d \<le> Suc n * ?d" using that by (rule mult_le_mono1)
    with Suc.prems(1) show "k * ?d < 2 ^ LENGTH('w)" by linarith
  qed
  have cur: "unat (dyn_cur ?it) = unat (dyn_cur it) + ?d"
    using w [of 1] Suc.prems(1) unfolding dyn_GetNext_def
    by (simp add: unat_plus_small)
  have lim: "unat (dyn_limit it) = unat (dyn_cur it) + Suc n * ?d"
    using w [of "Suc n"] Suc.prems by (simp only: Suc.prems(2)) (simp add: unat_plus_small)
  have has: "dyn_HasNext it" using lim d by (simp add: dyn_HasNext_def word_less_nat_alt)
  have "dyn_entries (Suc n) ?it =
      map (\<lambda>i. ?it\<lparr>dyn_cur := dyn_cur ?it + word_of_nat (i * ?d)\<rparr>) [0..<n]"
  proof (rule Suc.IH)
    show "unat (dyn_cur ?it) + n * ?d < 2 ^ LENGTH('w)" using cur Suc.prems(1) by simp
    show "dyn_limit ?it = dyn_cur ?it + word_of_nat (n * ?d)"
      using Suc.prems(2) by (simp add: dyn_GetNext_def algebra_simps)
  qed
  also have "\<dots> = map (\<lambda>i. it\<lparr>dyn_cur := dyn_cur it + word_of_nat (i * ?d)\<rparr>) (map Suc [0..<n])"
    by (simp add: dyn_GetNext_def algebra_simps)
  finally show ?case
    using has by (simp add: map_Suc_upt upt_conv_Cons [of 0 "Suc n"] del: upt_Suc)
qed

section \<open>Properties\<close>

text \<open>A view of a binary is consistent with the loader: the reserved size and the bias are those
  the program header table gives. Its dynamic section is taken at the load address plus the
  virtual address, which is the place it is loaded at, the bias plus the virtual address,
  exactly when the lowest page of the binary is page 0: \<open>InitUnmapped\<close> passes the load address
  where \<open>phdr_table_get_dynamic_section\<close> expects the bias.\<close>

theorem InitUnmapped_dynamic:
  assumes "InitUnmapped vm load_address phdr_addr phs v = (None, v')"
  shows "\<exists>sz lo hi dyn. phdr_table_get_load_size phs = (sz, lo, hi) \<and>
     find (\<lambda>ph. p_type ph = PT_DYNAMIC) phs = Some dyn \<and>
     ev_load_size v' = sz \<and> ev_load_bias v' = load_address - lo \<and> ev_phdr_count v' = length phs \<and>
     ev_dynamic v' = load_address + p_vaddr dyn \<and>
     (ev_dynamic v' = ev_load_bias v' + p_vaddr dyn \<longleftrightarrow> lo = 0) \<and>
     phdr0_in_segment (ev_load_bias v') (ev_phdr v') phs"
proof -
  obtain sz lo hi where sz: "phdr_table_get_load_size phs = (sz, lo, hi)" by (metis prod_cases3)
  obtain dyn where "find (\<lambda>ph. p_type ph = PT_DYNAMIC) phs = Some dyn"
    using assms by (auto simp: InitUnmapped_def Let_def phdr_dynamic_section split: if_splits option.splits prod.splits)
  with sz assms show ?thesis
    by (auto simp: InitUnmapped_def Let_def phdr_dynamic_section split: if_splits)
qed
theorem InitUnmapped_dynamic_witness:
  "\<exists>v. InitUnmapped zero_vm 0x50000000 0 two_segments ElfView_Init = (None, v) \<and>
     ev_dynamic v = 0x50040100 \<and> ev_load_bias v + 0x40100 = 0x50010100"
proof -
  have "e_phoff (decode_ehdr (mem_from zero_vm a) 0 :: 32 word ehdr) = 0" for a
    by (simp add: decode_ehdr_def le_at_def mem_from_def zero_vm_def upt_rec)
  then have "fst (InitUnmapped zero_vm 0x50000000 0 two_segments ElfView_Init) = None"
    by (simp add: InitUnmapped_def two_segments_load_size Let_def)
      (simp add: two_segments_def find_phdr0_def phdr0_in_segment_def PT_LOAD_def PT_DYNAMIC_def PT_PHDR_def
        sizeof_Phdr_def Let_def)
  then obtain v where run: "InitUnmapped zero_vm 0x50000000 0 two_segments ElfView_Init = (None, v)"
    by (metis prod.collapse)
  have "find (\<lambda>ph. p_type ph = PT_DYNAMIC) two_segments = Some (two_segments ! 1)"
    by (simp add: two_segments_def PT_LOAD_def PT_DYNAMIC_def)
  with InitUnmapped_dynamic [OF run] two_segments_load_size run show ?thesis
    by (auto simp: two_segments_def)
qed

end
