(* ===== verification/Elf_Symbols.thy ===== *)
theory Elf_Symbols
  imports Elf_View
begin

text \<open>
  The symbol table of a mapped ELF binary, class \<open>ElfSymbols\<close> of \<open>crazy_linker_elf_symbols.cpp\<close>:
  the hash function, the lookup by name through the hash table, and the lookups by address. The
  tables are read from the bytes of memory. A chain of the hash table that runs in a circle makes
  the lookup loop forever; that, and a hash table without buckets, is the value \<^term>\<open>None\<close>.
\<close>

section \<open>The hash function\<close>

fun ElfHash_loop :: "32 word \<Rightarrow> byte list \<Rightarrow> 32 word" where
  "ElfHash_loop h [] = h"
| "ElfHash_loop h (c # cs) =
     (let h = push_bit 4 h + ucast c;
          g = h AND 0xf0000000;
          h = h XOR g;
          h = h XOR drop_bit 24 g
      in ElfHash_loop h cs)"

definition ElfHash :: "byte list \<Rightarrow> 32 word" where
  "ElfHash name = ElfHash_loop 0 name"

text \<open>The function of the System V ABI.\<close>

fun sysv_hash_loop :: "32 word \<Rightarrow> byte list \<Rightarrow> 32 word" where
  "sysv_hash_loop h [] = h"
| "sysv_hash_loop h (c # cs) =
     (let h = push_bit 4 h + ucast c;
          g = h AND 0xf0000000;
          h = (if g \<noteq> 0 then h XOR drop_bit 24 g else h)
      in sysv_hash_loop (h AND NOT g) cs)"

section \<open>Tables\<close>

record 'addr elf_sym =
  st_name :: nat
  st_value :: 'addr
  st_size :: 'addr
  st_info :: nat
  st_shndx :: nat

definition sizeof_Sym :: "nat \<Rightarrow> nat" where
  "sizeof_Sym bits = (if bits = 32 then 16 else 24)"

definition decode_sym :: "(nat \<Rightarrow> byte) \<Rightarrow> nat \<Rightarrow> ('w::len) word elf_sym" where
  "decode_sym f pos =
     (if LENGTH('w) = 32
      then \<lparr>st_name = le_at f pos 4, st_value = word_of_nat (le_at f (pos + 4) 4),
            st_size = word_of_nat (le_at f (pos + 8) 4), st_info = le_at f (pos + 12) 1,
            st_shndx = le_at f (pos + 14) 2\<rparr>
      else \<lparr>st_name = le_at f pos 4, st_value = word_of_nat (le_at f (pos + 8) 8),
            st_size = word_of_nat (le_at f (pos + 16) 8), st_info = le_at f (pos + 4) 1,
            st_shndx = le_at f (pos + 6) 2\<rparr>)"

definition SHN_UNDEF :: nat where "SHN_UNDEF = 0"
definition STB_GLOBAL :: nat where "STB_GLOBAL = 1"
definition STB_WEAK :: nat where "STB_WEAK = 2"

definition ELF_ST_BIND :: "nat \<Rightarrow> nat" where
  "ELF_ST_BIND info = info div 16"

record 'addr elf_symbols =
  symbol_table :: 'addr
  string_table :: 'addr
  hash_bucket :: 'addr
  hash_bucket_size :: nat
  hash_chain :: 'addr
  hash_chain_size :: nat

definition ElfSymbols_zero :: "('w::len) word elf_symbols" where
  "ElfSymbols_zero = \<lparr>symbol_table = 0, string_table = 0, hash_bucket = 0, hash_bucket_size = 0,
     hash_chain = 0, hash_chain_size = 0\<rparr>"

definition DT_HASH :: nat where "DT_HASH = 4"
definition DT_STRTAB :: nat where "DT_STRTAB = 5"
definition DT_SYMTAB :: nat where "DT_SYMTAB = 6"

text \<open>\<open>ELF::Word\<close>, 32 bits in both classes, at an index of an array in memory.\<close>

definition word_at :: "('w::len) word vm \<Rightarrow> 'w word \<Rightarrow> nat \<Rightarrow> nat" where
  "word_at vm base i = le_at (mem_from vm (base + word_of_nat (4 * i))) 0 4"

definition sym_at :: "('w::len) word vm \<Rightarrow> 'w word elf_symbols \<Rightarrow> nat \<Rightarrow> 'w word elf_sym" where
  "sym_at vm es n = decode_sym (mem_from vm (symbol_table es)) (n * sizeof_Sym LENGTH('w))"

definition ElfSymbols_dyn ::
  "('w::len) word vm \<Rightarrow> 'w word \<Rightarrow> 'w word dyn_iter \<Rightarrow> 'w word elf_symbols \<Rightarrow> 'w word elf_symbols" where
  "ElfSymbols_dyn vm bias dyn es =
     (let dyn_addr = dyn_GetAddress vm bias dyn; tag = unat (dyn_GetTag vm dyn) in
      if tag = DT_HASH then
        let sz = word_at vm dyn_addr 0 in
        es\<lparr>hash_bucket_size := sz, hash_chain_size := word_at vm dyn_addr 1,
           hash_bucket := dyn_addr + 8, hash_chain := dyn_addr + 8 + word_of_nat (4 * sz)\<rparr>
      else if tag = DT_STRTAB then es\<lparr>string_table := dyn_addr\<rparr>
      else if tag = DT_SYMTAB then es\<lparr>symbol_table := dyn_addr\<rparr>
      else es)"

definition ElfSymbols_Init ::
  "('w::len) word vm \<Rightarrow> 'w word elf_view \<Rightarrow> 'w word elf_symbols \<Rightarrow> bool \<times> 'w word elf_symbols" where
  "ElfSymbols_Init vm view es =
     (let es = fold (ElfSymbols_dyn vm (ev_load_bias view)) (dynamic_entries view) es
      in (\<not> (symbol_table es = 0 \<or> string_table es = 0 \<or> hash_bucket es = 0), es))"

section \<open>Lookups\<close>

text \<open>\<open>strcmp\<close> of a string in memory with a name is 0.\<close>

fun strcmp_equal :: "('w::len) word vm \<Rightarrow> 'w word \<Rightarrow> byte list \<Rightarrow> bool" where
  "strcmp_equal vm a [] = (vm_byte vm a = 0)"
| "strcmp_equal vm a (c # cs) = (vm_byte vm a = c \<and> strcmp_equal vm (a + 1) cs)"

definition sym_name_equal ::
  "('w::len) word vm \<Rightarrow> 'w word elf_symbols \<Rightarrow> 'w word elf_sym \<Rightarrow> byte list \<Rightarrow> bool" where
  "sym_name_equal vm es sy name = strcmp_equal vm (string_table es + word_of_nat (st_name sy)) name"

definition sym_matches ::
  "('w::len) word vm \<Rightarrow> 'w word elf_symbols \<Rightarrow> byte list \<Rightarrow> nat \<Rightarrow> bool" where
  "sym_matches vm es name n =
     (let symbol = sym_at vm es n in
      if \<not> sym_name_equal vm es symbol name then False
      else if st_shndx symbol = SHN_UNDEF then False
      else ELF_ST_BIND (st_info symbol) = STB_GLOBAL \<or> ELF_ST_BIND (st_info symbol) = STB_WEAK)"

partial_function (option) LookupByName_loop ::
  "('w::len) word vm \<Rightarrow> 'w word elf_symbols \<Rightarrow> byte list \<Rightarrow> nat \<Rightarrow> nat option option" where
  "LookupByName_loop vm es name n =
     (if n = 0 then Some None
      else if sym_matches vm es name n then Some (Some n)
      else LookupByName_loop vm es name (word_at vm (hash_chain es) n))"

definition LookupByName ::
  "('w::len) word vm \<Rightarrow> 'w word elf_symbols \<Rightarrow> byte list \<Rightarrow> nat option option" where
  "LookupByName vm es symbol_name =
     (let hash = unat (ElfHash symbol_name) in
      if hash_bucket_size es = 0 then None
      else LookupByName_loop vm es symbol_name (word_at vm (hash_bucket es) (hash mod hash_bucket_size es)))"

definition IsWeakById :: "('w::len) word vm \<Rightarrow> 'w word elf_symbols \<Rightarrow> nat \<Rightarrow> bool" where
  "IsWeakById vm es symbol_id \<longleftrightarrow> ELF_ST_BIND (st_info (sym_at vm es symbol_id)) = STB_WEAK"

text \<open>The address of the name of a symbol; \<open>LookupById\<close> never returns \<open>NULL\<close>.\<close>

definition LookupNameById :: "('w::len) word vm \<Rightarrow> 'w word elf_symbols \<Rightarrow> nat \<Rightarrow> 'w word" where
  "LookupNameById vm es symbol_id = string_table es + word_of_nat (st_name (sym_at vm es symbol_id))"

definition GetStringById :: "('w::len) word elf_symbols \<Rightarrow> nat \<Rightarrow> 'w word" where
  "GetStringById es str_id = string_table es + word_of_nat str_id"

definition LookupAddressByName ::
  "('w::len) word vm \<Rightarrow> 'w word elf_symbols \<Rightarrow> byte list \<Rightarrow> 'w word \<Rightarrow> 'w word option" where
  "LookupAddressByName vm es symbol_name lbias =
     do {
       sy \<leftarrow> LookupByName vm es symbol_name;
       Some (case sy of None \<Rightarrow> 0 | Some n \<Rightarrow> lbias + st_value (sym_at vm es n))
     }"

definition sym_contains :: "('w::len) word elf_sym \<Rightarrow> 'w word \<Rightarrow> bool" where
  "sym_contains sy elf_addr \<longleftrightarrow> elf_addr \<ge> st_value sy \<and> elf_addr < st_value sy + st_size sy"

definition LookupByAddress ::
  "('w::len) word vm \<Rightarrow> 'w word elf_symbols \<Rightarrow> 'w word \<Rightarrow> 'w word \<Rightarrow> nat option" where
  "LookupByAddress vm es address lbias =
     (let elf_addr = address - lbias in
      find (\<lambda>n. st_shndx (sym_at vm es n) \<noteq> SHN_UNDEF \<and> sym_contains (sym_at vm es n) elf_addr)
        [0..<hash_chain_size es])"

definition sym_distance :: "('w::len) word elf_sym \<Rightarrow> 'w word \<Rightarrow> 'w word" where
  "sym_distance sy elf_addr =
     (if elf_addr < st_value sy then st_value sy - elf_addr
      else elf_addr - st_value sy - st_size sy)"

fun nearest_loop ::
  "(nat \<Rightarrow> ('w::len) word elf_sym) \<Rightarrow> 'w word \<Rightarrow> nat option \<Rightarrow> 'w word \<Rightarrow> nat list \<Rightarrow> nat option" where
  "nearest_loop sy elf_addr nearest_sym nearest_diff [] = nearest_sym"
| "nearest_loop sy elf_addr nearest_sym nearest_diff (n # ns) =
     (if st_shndx (sy n) = SHN_UNDEF then nearest_loop sy elf_addr nearest_sym nearest_diff ns
      else if sym_contains (sy n) elf_addr then Some n
      else
        let diff = sym_distance (sy n) elf_addr in
        if diff < nearest_diff then nearest_loop sy elf_addr (Some n) diff ns
        else nearest_loop sy elf_addr nearest_sym nearest_diff ns)"

text \<open>The results: the address of the name, the address and the size of the symbol.\<close>

definition LookupNearestByAddress ::
  "('w::len) word vm \<Rightarrow> 'w word elf_symbols \<Rightarrow> 'w word \<Rightarrow> 'w word \<Rightarrow> ('w word \<times> 'w word \<times> 'w word) option" where
  "LookupNearestByAddress vm es address lbias =
     (let elf_addr = address - lbias in
      case nearest_loop (sym_at vm es) elf_addr None (NOT 0) [0..<hash_chain_size es] of
        None \<Rightarrow> None
      | Some n \<Rightarrow>
          let sy = sym_at vm es n in
          Some (string_table es + word_of_nat (st_name sy), st_value sy + lbias, st_size sy))"

section \<open>The hash function is that of the System V ABI\<close>

lemma bit_f0000000: "bit (0xf0000000 :: 32 word) n \<longleftrightarrow> 28 \<le> n \<and> n < 32"
proof (cases "n < 32")
  case True
  then have "n \<in> set [0..<32]" by simp
  then show ?thesis by (simp add: upt_rec bit_simps) (elim disjE; simp)
next
  case False
  then show ?thesis using bit_imp_le_length [of "0xf0000000 :: 32 word" n] by auto
qed

lemma hash_step_bits:
  fixes h m :: "32 word"
  assumes m: "\<And>n. bit m n \<longleftrightarrow> 28 \<le> n \<and> n < 32"
  shows "(h XOR (h AND m)) XOR drop_bit 24 (h AND m) = (h XOR drop_bit 24 (h AND m)) AND NOT (h AND m)"
  by (rule bit_word_eqI) (auto simp: bit_simps m)

lemma hash_step_small:
  fixes h m :: "32 word"
  assumes m: "\<And>n. bit m n \<longleftrightarrow> 28 \<le> n \<and> n < 32"
  shows "(h XOR (h AND m)) XOR drop_bit 24 (h AND m) < 2 ^ 28"
proof -
  let ?r = "(h XOR (h AND m)) XOR drop_bit 24 (h AND m)"
  have "take_bit 28 ?r = ?r"
    by (rule bit_word_eqI) (auto simp: bit_simps m)
  then have eq: "?r mod 2 ^ 28 = ?r" by (simp only: take_bit_eq_mod)
  have "?r mod 2 ^ 28 < 2 ^ 28"
    by (rule word_mod_less_divisor) simp
  then show ?thesis unfolding eq .
qed

lemma ElfHash_loop_sysv: "ElfHash_loop h cs = sysv_hash_loop h cs"
proof (induction cs arbitrary: h)
  case (Cons c cs)
  show ?case
    unfolding ElfHash_loop.simps sysv_hash_loop.simps Let_def hash_step_bits [OF bit_f0000000] Cons.IH
    by (cases "(push_bit 4 h + ucast c) AND 0xf0000000 = (0 :: 32 word)") simp_all
qed simp

lemma ElfHash_loop_small: "h < 2 ^ 28 \<Longrightarrow> ElfHash_loop h cs < 2 ^ 28"
proof (induction cs arbitrary: h)
  case (Cons c cs)
  show ?case
    unfolding ElfHash_loop.simps Let_def by (rule Cons.IH [OF hash_step_small [OF bit_f0000000]])
qed simp

section \<open>Lookup by name through the hash table\<close>

text \<open>The indices of a chain, and the first that matches.\<close>

inductive chain_of :: "(nat \<Rightarrow> nat) \<Rightarrow> nat \<Rightarrow> nat list \<Rightarrow> bool" for next_of where
  chain_end: "chain_of next_of 0 []"
| chain_step: "n \<noteq> 0 \<Longrightarrow> chain_of next_of (next_of n) ns \<Longrightarrow> chain_of next_of n (n # ns)"

inductive_simps chain_of_simps: "chain_of next_of n ns"

lemma LookupByName_loop_find:
  assumes "chain_of (word_at vm (hash_chain es)) n ns"
  shows "LookupByName_loop vm es name n = Some (find (sym_matches vm es name) ns)"
  using assms by induction (simp_all add: LookupByName_loop.simps)

lemma chain_nonzero: "chain_of next_of n ns \<Longrightarrow> 0 \<notin> set ns"
  by (induction rule: chain_of.induct) auto

text \<open>
  What a hash table promises for a name: there are buckets, the chain of the name's bucket ends, it
  holds only indices of the symbol table, and every symbol of that name is on it.
\<close>

definition bucket_of :: "('w::len) word elf_symbols \<Rightarrow> byte list \<Rightarrow> nat" where
  "bucket_of es name = unat (ElfHash name) mod hash_bucket_size es"

definition hash_table_ok :: "('w::len) word vm \<Rightarrow> 'w word elf_symbols \<Rightarrow> byte list \<Rightarrow> bool" where
  "hash_table_ok vm es name \<longleftrightarrow> hash_bucket_size es \<noteq> 0 \<and>
     (\<exists>ns. chain_of (word_at vm (hash_chain es)) (word_at vm (hash_bucket es) (bucket_of es name)) ns \<and>
        (\<forall>n \<in> set ns. n < hash_chain_size es) \<and>
        (\<forall>n. 0 < n \<and> n < hash_chain_size es \<and> sym_name_equal vm es (sym_at vm es n) name \<longrightarrow> n \<in> set ns))"

text \<open>The definitions a table exports under a name.\<close>

definition exported :: "('w::len) word vm \<Rightarrow> 'w word elf_symbols \<Rightarrow> byte list \<Rightarrow> nat set" where
  "exported vm es name =
     {n. 0 < n \<and> n < hash_chain_size es \<and> sym_name_equal vm es (sym_at vm es n) name \<and>
         st_shndx (sym_at vm es n) \<noteq> SHN_UNDEF \<and>
         ELF_ST_BIND (st_info (sym_at vm es n)) \<in> {STB_GLOBAL, STB_WEAK}}"

lemma sym_matches_iff:
  "sym_matches vm es name n \<longleftrightarrow> sym_name_equal vm es (sym_at vm es n) name \<and>
     st_shndx (sym_at vm es n) \<noteq> SHN_UNDEF \<and>
     ELF_ST_BIND (st_info (sym_at vm es n)) \<in> {STB_GLOBAL, STB_WEAK}"
  by (auto simp: sym_matches_def Let_def)

lemma LookupByName_exported:
  assumes "hash_table_ok vm es name"
  shows "\<exists>r. LookupByName vm es name = Some r \<and>
     (case r of None \<Rightarrow> exported vm es name = {} | Some n \<Rightarrow> n \<in> exported vm es name)"
proof -
  from assms obtain ns where nb: "hash_bucket_size es \<noteq> 0"
    and ch: "chain_of (word_at vm (hash_chain es)) (word_at vm (hash_bucket es) (bucket_of es name)) ns"
    and lt: "\<forall>n \<in> set ns. n < hash_chain_size es"
    and all: "\<And>n. 0 < n \<Longrightarrow> n < hash_chain_size es \<Longrightarrow> sym_name_equal vm es (sym_at vm es n) name \<Longrightarrow> n \<in> set ns"
    unfolding hash_table_ok_def by auto
  have look: "LookupByName vm es name = Some (find (sym_matches vm es name) ns)"
    using nb LookupByName_loop_find [OF ch] by (simp add: LookupByName_def bucket_of_def)
  show ?thesis
  proof (cases "find (sym_matches vm es name) ns")
    case None
    then have "exported vm es name = {}"
      using all by (auto simp: exported_def find_None_iff sym_matches_iff)
    with look None show ?thesis by simp
  next
    case (Some n)
    then have "n \<in> set ns" "sym_matches vm es name n"
      by (auto simp: find_Some_iff)
    then have "n \<in> exported vm es name"
      using lt chain_nonzero [OF ch] by (auto simp: exported_def sym_matches_iff intro!: gr0I)
    with look Some show ?thesis by simp
  qed
qed

section \<open>Lookup by address\<close>

definition defined_syms :: "('w::len) word vm \<Rightarrow> 'w word elf_symbols \<Rightarrow> nat set" where
  "defined_syms vm es = {n. n < hash_chain_size es \<and> st_shndx (sym_at vm es n) \<noteq> SHN_UNDEF}"

lemma nearest_loop_None:
  assumes "nearest_loop sy a best d ns = None"
  shows "best = None \<and> (\<forall>n \<in> set ns. st_shndx (sy n) \<noteq> SHN_UNDEF \<longrightarrow>
     \<not> sym_contains (sy n) a \<and> d \<le> sym_distance (sy n) a)"
  using assms
proof (induction ns arbitrary: best d)
  case (Cons n ns)
  show ?case
  proof (cases "st_shndx (sy n) = SHN_UNDEF")
    case True
    with Cons.prems have "nearest_loop sy a best d ns = None" by simp
    from Cons.IH [OF this] True show ?thesis by simp
  next
    case False
    with Cons.prems have out: "\<not> sym_contains (sy n) a" by (auto split: if_splits)
    have far: "\<not> sym_distance (sy n) a < d"
    proof
      assume "sym_distance (sy n) a < d"
      with False out Cons.prems have "nearest_loop sy a (Some n) (sym_distance (sy n) a) ns = None"
        by simp
      from Cons.IH [OF this] show False by simp
    qed
    with False out Cons.prems have "nearest_loop sy a best d ns = None" by simp
    from Cons.IH [OF this] out far show ?thesis by (simp add: not_less)
  qed
qed simp

text \<open>What the loop keeps of its best candidate.\<close>

definition best_ok :: "(nat \<Rightarrow> ('w::len) word elf_sym) \<Rightarrow> 'w word \<Rightarrow> nat option \<Rightarrow> 'w word \<Rightarrow> nat set \<Rightarrow> bool" where
  "best_ok sy a best d N \<longleftrightarrow>
     (\<forall>n \<in> N. st_shndx (sy n) \<noteq> SHN_UNDEF \<longrightarrow> \<not> sym_contains (sy n) a \<and> d \<le> sym_distance (sy n) a) \<and>
     (\<forall>b. best = Some b \<longrightarrow> b \<in> N \<and> st_shndx (sy b) \<noteq> SHN_UNDEF \<and> d = sym_distance (sy b) a)"

lemma nearest_loop_Some:
  assumes "nearest_loop sy a best d ns = Some r" "best_ok sy a best d N"
  shows "r \<in> N \<union> set ns \<and> st_shndx (sy r) \<noteq> SHN_UNDEF \<and>
    (sym_contains (sy r) a \<or>
     (\<forall>n \<in> N \<union> set ns. st_shndx (sy n) \<noteq> SHN_UNDEF \<longrightarrow>
        \<not> sym_contains (sy n) a \<and> sym_distance (sy r) a \<le> sym_distance (sy n) a))"
  using assms
proof (induction sy a best d ns arbitrary: N rule: nearest_loop.induct)
  case (1 sy a best d)
  then show ?case by (auto simp: best_ok_def)
next
  case (2 sy a best d n ns)
  let ?diff = "sym_distance (sy n) a"
  have visited: "insert n N \<union> set ns = N \<union> set (n # ns)" by simp
  consider (undef) "st_shndx (sy n) = SHN_UNDEF"
    | (hit) "st_shndx (sy n) \<noteq> SHN_UNDEF" "sym_contains (sy n) a"
    | (better) "st_shndx (sy n) \<noteq> SHN_UNDEF" "\<not> sym_contains (sy n) a" "?diff < d"
    | (worse) "st_shndx (sy n) \<noteq> SHN_UNDEF" "\<not> sym_contains (sy n) a" "\<not> ?diff < d"
    by blast
  then show ?case
  proof cases
    case undef
    then have "nearest_loop sy a best d ns = Some r" "best_ok sy a best d (insert n N)"
      using 2(4,5) by (simp, simp add: best_ok_def)
    from 2(1) [OF undef this] show ?thesis unfolding visited .
  next
    case hit
    then have "r = n" using 2(4) by simp
    with hit show ?thesis by simp
  next
    case better
    then have "nearest_loop sy a (Some n) ?diff ns = Some r" "best_ok sy a (Some n) ?diff (insert n N)"
      using 2(4,5) by (simp, auto simp: best_ok_def)
    from 2(2) [OF better(1,2) refl better(3) this] show ?thesis unfolding visited .
  next
    case worse
    then have "nearest_loop sy a best d ns = Some r" "best_ok sy a best d (insert n N)"
      using 2(4,5) by (simp, auto simp: best_ok_def)
    from 2(3) [OF worse(1,2) refl worse(3) this] show ?thesis unfolding visited .
  qed
qed

lemma LookupNearest_spec:
  assumes "address = elf_addr + lbias"
  shows "case LookupNearestByAddress vm es address lbias of
      None \<Rightarrow> \<forall>n \<in> defined_syms vm es. \<not> sym_contains (sym_at vm es n) elf_addr \<and>
                 sym_distance (sym_at vm es n) elf_addr = NOT 0
    | Some (name, addr, sz) \<Rightarrow> \<exists>n \<in> defined_syms vm es.
        name = LookupNameById vm es n \<and> addr = st_value (sym_at vm es n) + lbias \<and>
        sz = st_size (sym_at vm es n) \<and>
        (sym_contains (sym_at vm es n) elf_addr \<or>
         (\<forall>m \<in> defined_syms vm es. \<not> sym_contains (sym_at vm es m) elf_addr \<and>
            sym_distance (sym_at vm es n) elf_addr \<le> sym_distance (sym_at vm es m) elf_addr))"
proof (cases "nearest_loop (sym_at vm es) elf_addr None (NOT 0) [0..<hash_chain_size es]")
  case None
  have "LookupNearestByAddress vm es address lbias = None"
    using None assms by (simp add: LookupNearestByAddress_def)
  moreover from nearest_loop_None [OF None]
  have "\<forall>n \<in> defined_syms vm es. \<not> sym_contains (sym_at vm es n) elf_addr \<and>
      sym_distance (sym_at vm es n) elf_addr = NOT 0"
    by (simp add: defined_syms_def word_order.extremum_unique)
  ultimately show ?thesis by simp
next
  case (Some n)
  have ok: "best_ok (sym_at vm es) elf_addr None (NOT 0) {}" by (simp add: best_ok_def)
  have look: "LookupNearestByAddress vm es address lbias =
      Some (LookupNameById vm es n, st_value (sym_at vm es n) + lbias, st_size (sym_at vm es n))"
    using Some assms by (simp add: LookupNearestByAddress_def LookupNameById_def Let_def)
  show ?thesis
    unfolding look option.case prod.case
    using nearest_loop_Some [OF Some ok] by (intro bexI [of _ n]) (auto simp: defined_syms_def)
qed

lemma LookupByAddress_first:
  "case LookupByAddress vm es (elf_addr + lbias) lbias of
      None \<Rightarrow> \<forall>n \<in> defined_syms vm es. \<not> sym_contains (sym_at vm es n) elf_addr
    | Some n \<Rightarrow> n \<in> defined_syms vm es \<and> sym_contains (sym_at vm es n) elf_addr \<and>
        (\<forall>m \<in> defined_syms vm es. sym_contains (sym_at vm es m) elf_addr \<longrightarrow> n \<le> m)"
proof (cases "LookupByAddress vm es (elf_addr + lbias) lbias")
  case None
  then have "\<forall>n \<in> defined_syms vm es. \<not> sym_contains (sym_at vm es n) elf_addr"
    by (auto simp: LookupByAddress_def find_None_iff defined_syms_def)
  with None show ?thesis by simp
next
  case (Some n)
  then have "n < hash_chain_size es \<and> st_shndx (sym_at vm es n) \<noteq> SHN_UNDEF \<and>
      sym_contains (sym_at vm es n) elf_addr \<and>
      (\<forall>m < n. \<not> (st_shndx (sym_at vm es m) \<noteq> SHN_UNDEF \<and> sym_contains (sym_at vm es m) elf_addr))"
    by (auto simp: LookupByAddress_def find_Some_iff)
  with Some show ?thesis by (auto simp: defined_syms_def not_less [symmetric])
qed

section \<open>An example table\<close>

text \<open>A 32-bit image: one exported function \<open>f\<close> and a hash table with one bucket.\<close>

definition sym_image :: "32 word vm" where
  "sym_image = \<lparr>vm_byte = (\<lambda>a. if a = 32 then 1 else if a = 37 then 1 else if a = 40 then 16
      else if a = 44 then 0x12 else if a = 46 then 5 else if a = 49 then 102
      else if a = 60 then 1 else 0), vm_prot = (\<lambda>_. None)\<rparr>"

definition sym_tables :: "32 word elf_symbols" where
  "sym_tables = \<lparr>symbol_table = 16, string_table = 48, hash_bucket = 60, hash_bucket_size = 1,
     hash_chain = 64, hash_chain_size = 2\<rparr>"

lemmas image_eval = sym_image_def sym_tables_def word_at_def sym_at_def decode_sym_def le_at_def
  mem_from_def sizeof_Sym_def

lemma image_sym:
  "sym_at sym_image sym_tables 0 =
     \<lparr>st_name = 0, st_value = 0, st_size = 0, st_info = 0, st_shndx = 0\<rparr>"
  "sym_at sym_image sym_tables (Suc 0) =
     \<lparr>st_name = 1, st_value = 0x100, st_size = 16, st_info = 0x12, st_shndx = 5\<rparr>"
  by (simp_all add: image_eval upt_rec)

lemma image_hash:
  "word_at sym_image (hash_bucket sym_tables) 0 = 1"
  "word_at sym_image (hash_chain sym_tables) (Suc 0) = 0"
  by (simp_all add: image_eval upt_rec)

lemma image_size: "hash_bucket_size sym_tables = 1" "hash_chain_size sym_tables = 2"
  by (simp_all add: sym_tables_def)

lemma image_name: "sym_name_equal sym_image sym_tables (sym_at sym_image sym_tables (Suc 0)) [102]"
  unfolding sym_name_equal_def image_sym by (simp add: sym_image_def sym_tables_def)

lemma image_table_ok: "hash_table_ok sym_image sym_tables [102]"
proof -
  have "chain_of (word_at sym_image (hash_chain sym_tables))
      (word_at sym_image (hash_bucket sym_tables) (bucket_of sym_tables [102])) [Suc 0]"
    using chain_step [of "Suc 0" "word_at sym_image (hash_chain sym_tables)" "[]"]
    by (simp add: bucket_of_def image_size image_hash chain_end)
  moreover have "n = Suc 0" if "0 < n" "n < (2::nat)" for n using that by simp
  ultimately show ?thesis unfolding hash_table_ok_def image_size by auto
qed

section \<open>Properties\<close>

text \<open>C38: The hash of a symbol name, which folds the four high bits back without a branch, is the
  hash of the System V ABI for every name, and fits in 28 bits.\<close>

theorem ElfHash_is_sysv_hash:
  "ElfHash name = sysv_hash_loop 0 name \<and> unat (ElfHash name) < 2 ^ 28"
  using ElfHash_loop_sysv [of 0 name] ElfHash_loop_small [of 0 name]
  by (simp add: ElfHash_def word_less_nat_alt)

text \<open>C2: When the chain of the name's bucket ends and holds every symbol of that name, the lookup by
  name returns: the symbol it finds is one of the global or weak definitions of that name, it finds
  none only when there is none, and the address it reports is that of the definition plus the bias.\<close>

theorem LookupByName_finds_definition:
  assumes "hash_table_ok vm es name"
  shows "\<exists>r. LookupByName vm es name = Some r \<and>
     (case r of None \<Rightarrow> exported vm es name = {} | Some n \<Rightarrow> n \<in> exported vm es name) \<and>
     LookupAddressByName vm es name lbias =
       Some (case r of None \<Rightarrow> 0 | Some n \<Rightarrow> lbias + st_value (sym_at vm es n))"
  using LookupByName_exported [OF assms] by (auto simp: LookupAddressByName_def)

theorem LookupByName_finds_definition_witness:
  "hash_table_ok sym_image sym_tables [102] \<and>
   LookupByName sym_image sym_tables [102] = Some (Some 1) \<and>
   LookupAddressByName sym_image sym_tables [102] 0x1000 = Some 0x1100"
proof -
  have one: "Suc 0 \<in> exported sym_image sym_tables [102]"
    using image_name by (simp add: exported_def image_sym SHN_UNDEF_def ELF_ST_BIND_def STB_GLOBAL_def
      image_size)
  have only: "n = Suc 0" if "n \<in> exported sym_image sym_tables [102]" for n
    using that by (simp add: exported_def image_size)
  obtain r where r: "LookupByName sym_image sym_tables [102] = Some r"
      "case r of None \<Rightarrow> exported sym_image sym_tables [102] = {}
        | Some n \<Rightarrow> n \<in> exported sym_image sym_tables [102]"
      "LookupAddressByName sym_image sym_tables [102] 0x1000 =
       Some (case r of None \<Rightarrow> 0 | Some n \<Rightarrow> 0x1000 + st_value (sym_at sym_image sym_tables n))"
    using LookupByName_finds_definition [OF image_table_ok, of "0x1000"] by blast
  have "r = Some (Suc 0)"
  proof (cases r)
    case None
    with r(2) one show ?thesis by simp
  next
    case (Some n)
    with r(2) have "n \<in> exported sym_image sym_tables [102]" by simp
    then have "n = Suc 0" by (rule only)
    with Some show ?thesis by simp
  qed
  with r image_table_ok show ?thesis by (simp add: image_sym)
qed

text \<open>The nearest-symbol lookup returns a defined symbol that contains the address, or, when no
  defined symbol does, one at the smallest distance; it fails only when every defined symbol is at
  the largest distance the machine word can hold. The exact lookup returns the first defined symbol
  that contains the address, if any.\<close>

theorem Lookup_by_address_spec:
  "(case LookupNearestByAddress vm es (elf_addr + lbias) lbias of
      None \<Rightarrow> \<forall>n \<in> defined_syms vm es. \<not> sym_contains (sym_at vm es n) elf_addr \<and>
                 sym_distance (sym_at vm es n) elf_addr = NOT 0
    | Some (name, addr, sz) \<Rightarrow> \<exists>n \<in> defined_syms vm es.
        name = LookupNameById vm es n \<and> addr = st_value (sym_at vm es n) + lbias \<and>
        sz = st_size (sym_at vm es n) \<and>
        (sym_contains (sym_at vm es n) elf_addr \<or>
         (\<forall>m \<in> defined_syms vm es. \<not> sym_contains (sym_at vm es m) elf_addr \<and>
            sym_distance (sym_at vm es n) elf_addr \<le> sym_distance (sym_at vm es m) elf_addr))) \<and>
   (case LookupByAddress vm es (elf_addr + lbias) lbias of
      None \<Rightarrow> \<forall>n \<in> defined_syms vm es. \<not> sym_contains (sym_at vm es n) elf_addr
    | Some n \<Rightarrow> n \<in> defined_syms vm es \<and> sym_contains (sym_at vm es n) elf_addr \<and>
        (\<forall>m \<in> defined_syms vm es. sym_contains (sym_at vm es m) elf_addr \<longrightarrow> n \<le> m))"
  using LookupNearest_spec [OF refl, where elf_addr = elf_addr] LookupByAddress_first by (rule conjI)

theorem Lookup_by_address_spec_witness:
  "LookupByAddress sym_image sym_tables 0x1108 0x1000 = Some 1 \<and>
   (\<exists>n \<in> defined_syms sym_image sym_tables. sym_contains (sym_at sym_image sym_tables n) 0x108)"
proof -
  have one: "Suc 0 \<in> defined_syms sym_image sym_tables" "sym_contains (sym_at sym_image sym_tables (Suc 0)) 0x108"
    by (simp_all add: defined_syms_def image_sym SHN_UNDEF_def image_size sym_contains_def)
  have only: "n = Suc 0" if "n \<in> defined_syms sym_image sym_tables" for n
  proof (cases n)
    case 0
    with that image_sym(1) show ?thesis by (simp add: defined_syms_def SHN_UNDEF_def)
  next
    case (Suc m)
    with that show ?thesis by (simp add: defined_syms_def image_size)
  qed
  have addr: "0x108 + 0x1000 = (0x1108 :: 32 word)" by simp
  have spec: "case LookupByAddress sym_image sym_tables 0x1108 0x1000 of
      None \<Rightarrow> \<forall>n \<in> defined_syms sym_image sym_tables. \<not> sym_contains (sym_at sym_image sym_tables n) 0x108
    | Some n \<Rightarrow> n \<in> defined_syms sym_image sym_tables \<and> sym_contains (sym_at sym_image sym_tables n) 0x108 \<and>
        (\<forall>m \<in> defined_syms sym_image sym_tables. sym_contains (sym_at sym_image sym_tables m) 0x108 \<longrightarrow> n \<le> m)"
    using conjunct2 [OF Lookup_by_address_spec [of sym_image sym_tables "0x108" "0x1000"]]
    by (simp only: addr)
  show ?thesis
  proof (cases "LookupByAddress sym_image sym_tables 0x1108 0x1000")
    case None
    have "\<not> sym_contains (sym_at sym_image sym_tables (Suc 0)) 0x108"
      using spec one(1) unfolding None option.case by (rule bspec)
    with one(2) show ?thesis by contradiction
  next
    case (Some n)
    have "n \<in> defined_syms sym_image sym_tables"
      using spec unfolding Some option.case by (rule conjunct1)
    then have "n = 1" unfolding One_nat_def by (rule only)
    with Some have "LookupByAddress sym_image sym_tables 0x1108 0x1000 = Some 1" by (simp only:)
    moreover from one have "\<exists>n \<in> defined_syms sym_image sym_tables. sym_contains (sym_at sym_image sym_tables n) 0x108"
      by (rule bexI [rotated])
    ultimately show ?thesis ..
  qed
qed

end
