(* ===== verification/Elf_Memory.thy ===== *)
theory Elf_Memory
  imports Elf_View
begin

text \<open>
  Words of address size in memory: what a C++ pointer to \<open>ELF::Addr\<close> reads and writes. The interface
  \<open>word_memory\<close> states what the clients of the memory rely on (a written word is read back, a word
  depends on its own bytes only, a write leaves the other bytes alone), and gives them the effect of
  a sequence of updates of disjoint words, which is what relocating a binary comes down to.
\<close>

definition addr_footprint :: "('w::len) word \<Rightarrow> 'w word set" where
  "addr_footprint a = (\<lambda>i. a + word_of_nat i) ` {0..<addr_size LENGTH('w)}"

definition write_addr :: "('w::len) word vm \<Rightarrow> 'w word \<Rightarrow> 'w word \<Rightarrow> 'w word vm" where
  "write_addr vm a v =
     vm\<lparr>vm_byte := (\<lambda>x. if unat (x - a) < addr_size LENGTH('w)
                        then le_bytes (addr_size LENGTH('w)) (unat v) ! unat (x - a) else vm_byte vm x)\<rparr>"

section \<open>The interface\<close>

fun modify_words :: "('m \<Rightarrow> 'a \<Rightarrow> 'v) \<Rightarrow> ('m \<Rightarrow> 'a \<Rightarrow> 'v \<Rightarrow> 'm) \<Rightarrow> ('a \<times> ('v \<Rightarrow> 'v)) list \<Rightarrow> 'm \<Rightarrow> 'm" where
  "modify_words rd wr [] m = m"
| "modify_words rd wr (u # us) m = modify_words rd wr us (wr m (fst u) (snd u (rd m (fst u))))"

locale word_memory =
  fixes rd :: "'m \<Rightarrow> 'a \<Rightarrow> 'v" and wr :: "'m \<Rightarrow> 'a \<Rightarrow> 'v \<Rightarrow> 'm"
    and foot :: "'a \<Rightarrow> 'b set" and cell :: "'m \<Rightarrow> 'b \<Rightarrow> 'c"
  assumes rd_wr: "rd (wr m a v) a = v"
    and rd_local: "(\<And>x. x \<in> foot a \<Longrightarrow> cell m x = cell m' x) \<Longrightarrow> rd m a = rd m' a"
    and wr_frame: "x \<notin> foot a \<Longrightarrow> cell (wr m a v) x = cell m x"
begin

lemma rd_wr_disjoint:
  assumes "foot a \<inter> foot b = {}"
  shows "rd (wr m a v) b = rd m b"
  using assms by (intro rd_local wr_frame) auto

lemma modify_words_frame:
  "x \<notin> (\<Union>u \<in> set us. foot (fst u)) \<Longrightarrow> cell (modify_words rd wr us m) x = cell m x"
  by (induction us arbitrary: m) (auto simp: wr_frame)

lemma modify_words_other:
  assumes "\<And>u. u \<in> set us \<Longrightarrow> foot (fst u) \<inter> foot b = {}"
  shows "rd (modify_words rd wr us m) b = rd m b"
  using assms by (intro rd_local modify_words_frame) auto

lemma modify_words_at:
  assumes "sorted_wrt (\<lambda>u u'. foot (fst u) \<inter> foot (fst u') = {}) us" "u \<in> set us"
  shows "rd (modify_words rd wr us m) (fst u) = snd u (rd m (fst u))"
  using assms
proof (induction us arbitrary: m)
  case (Cons v us)
  show ?case
  proof (cases "u = v")
    case True
    with Cons.prems(1) have "foot (fst u') \<inter> foot (fst u) = {}" if "u' \<in> set us" for u'
      using that by auto
    then show ?thesis by (simp add: True modify_words_other rd_wr)
  next
    case False
    with Cons.prems have u: "u \<in> set us" "foot (fst v) \<inter> foot (fst u) = {}"
      and us: "sorted_wrt (\<lambda>u u'. foot (fst u) \<inter> foot (fst u') = {}) us" by auto
    show ?thesis by (simp add: Cons.IH [OF us u(1)] rd_wr_disjoint [OF u(2)])
  qed
qed simp

end

section \<open>Little-endian words are such a memory\<close>

lemma length_le_bytes [simp]: "length (le_bytes n v) = n"
  by (induction n v rule: le_bytes.induct) auto

lemma le_nat_le_bytes: "le_nat (le_bytes n v) = v mod 256 ^ n"
proof (induction n v rule: le_bytes.induct)
  case (2 n v)
  have "unat (word_of_nat v :: byte) = v mod 256" by (simp add: unat_of_nat)
  with 2 show ?case by (simp add: mod_mult2_eq)
qed simp

definition elf_width :: "nat \<Rightarrow> bool" where
  "elf_width bits \<longleftrightarrow> bits = 32 \<or> bits = 64"

lemma elf_width_32 [simp]: "elf_width 32" and elf_width_64 [simp]: "elf_width 64"
  by (simp_all add: elf_width_def)

lemma elf_width_size: "elf_width bits \<Longrightarrow> (256::nat) ^ addr_size bits = 2 ^ bits"
  by (auto simp: elf_width_def addr_size_def)

lemma elf_width_small: "elf_width bits \<Longrightarrow> addr_size bits < 2 ^ bits"
  by (auto simp: elf_width_def addr_size_def)

lemma footprint_iff:
  fixes x a :: "'w::len word"
  assumes "elf_width LENGTH('w)"
  shows "x \<in> addr_footprint a \<longleftrightarrow> unat (x - a) < addr_size LENGTH('w)"
proof
  assume "x \<in> addr_footprint a"
  then obtain i where "i < addr_size LENGTH('w)" "x = a + word_of_nat i"
    by (auto simp: addr_footprint_def)
  then show "unat (x - a) < addr_size LENGTH('w)"
    using elf_width_small [OF assms] by (simp add: unat_word_of_nat_small)
next
  assume "unat (x - a) < addr_size LENGTH('w)"
  then show "x \<in> addr_footprint a"
    unfolding addr_footprint_def by (intro image_eqI [of _ _ "unat (x - a)"]) auto
qed

lemma mem_from_write:
  fixes a :: "'w::len word"
  assumes "elf_width LENGTH('w)" "i < addr_size LENGTH('w)"
  shows "mem_from (write_addr vm a v) a i = le_bytes (addr_size LENGTH('w)) (unat v) ! i"
  using assms elf_width_small [OF assms(1)]
  by (simp add: mem_from_def write_addr_def unat_word_of_nat_small)

lemma word_memory_vm:
  assumes w: "elf_width LENGTH('w::len)"
  shows "word_memory (read_addr :: 'w word vm \<Rightarrow> _) write_addr addr_footprint vm_byte"
proof
  fix vm :: "'w word vm" and a v :: "'w word"
  let ?n = "addr_size LENGTH('w)"
  have "map (\<lambda>i. mem_from (write_addr vm a v) a (0 + i)) [0..<?n] = le_bytes ?n (unat v)"
    by (rule nth_equalityI) (simp_all add: mem_from_write [OF w])
  then show "read_addr (write_addr vm a v) a = v"
    by (simp add: read_addr_def le_at_def le_nat_le_bytes elf_width_size [OF w])
next
  fix a :: "'w word" and vm vm' :: "'w word vm"
  assume same: "\<And>x. x \<in> addr_footprint a \<Longrightarrow> vm_byte vm x = vm_byte vm' x"
  have "map (\<lambda>i. mem_from vm a (0 + i)) [0..<addr_size LENGTH('w)] =
        map (\<lambda>i. mem_from vm' a (0 + i)) [0..<addr_size LENGTH('w)]"
    using same by (auto simp: mem_from_def addr_footprint_def)
  then show "read_addr vm a = read_addr vm' a"
    by (simp only: read_addr_def le_at_def)
next
  fix x a v :: "'w word" and vm :: "'w word vm"
  assume "x \<notin> addr_footprint a"
  then show "vm_byte (write_addr vm a v) x = vm_byte vm x"
    by (simp add: write_addr_def footprint_iff [OF w])
qed

interpretation mem32: word_memory "read_addr :: 32 word vm \<Rightarrow> _" write_addr addr_footprint vm_byte
  by (rule word_memory_vm) simp

interpretation mem64: word_memory "read_addr :: 64 word vm \<Rightarrow> _" write_addr addr_footprint vm_byte
  by (rule word_memory_vm) simp

lemmas read_write_addr = word_memory.rd_wr [OF word_memory_vm]
  and read_addr_local = word_memory.rd_local [OF word_memory_vm]
  and write_addr_frame = word_memory.wr_frame [OF word_memory_vm]
  and read_write_disjoint = word_memory.rd_wr_disjoint [OF word_memory_vm]
  and modify_vm_frame = word_memory.modify_words_frame [OF word_memory_vm]
  and modify_vm_other = word_memory.modify_words_other [OF word_memory_vm]
  and modify_vm_at = word_memory.modify_words_at [OF word_memory_vm]

lemma write_addr_prot [simp]: "vm_prot (write_addr vm a v) = vm_prot vm"
  by (simp add: write_addr_def)

lemma modify_words_prot [simp]: "vm_prot (modify_words rd write_addr us vm) = vm_prot vm"
  by (induction us arbitrary: vm) simp_all

end
