(* ===== verification/Elf_Relocations.thy ===== *)
theory Elf_Relocations
  imports Elf_Memory Elf_Symbols
begin

text \<open>
  The relocations of a mapped ELF binary, class \<open>ElfRelocations\<close> of
  \<open>crazy_linker_elf_relocations.cpp\<close>. The processor the linker is compiled for is the argument
  \<open>arch\<close>, and the width of an address is that of the word type. The symbol resolver is the argument
  \<open>lookup\<close>, a function of the memory and of the address of a name that returns 0 for an unknown
  symbol. The \<open>Error\<close> object is an option that every operation hands on, so that a message that is
  set without the operation failing stays visible.
\<close>

datatype arch = ARM | AARCH64 | I386 | MIPS | OtherArch

datatype relocation_type =
  RELOCATION_TYPE_UNKNOWN
| RELOCATION_TYPE_ABSOLUTE
| RELOCATION_TYPE_RELATIVE
| RELOCATION_TYPE_PC_RELATIVE
| RELOCATION_TYPE_COPY

datatype 'addr reloc_error =
  InvalidPltRel
| UnsupportedRelCombination
| UnsupportedSizeCombination
| MissingPltRel
| FoundRelaButRel
| FoundRelButRela
| CantUnprotect
| CantReprotect
| RelativeWithSymbol
| CopyInSharedLibrary
| InvalidRelocationType nat
| CouldNotFindSymbol 'addr
| InvalidWeakRelocation relocation_type 'addr
| CannotLocateSymbol 'addr

section \<open>Relocation types\<close>

definition R_ARM_ABS32 :: nat where "R_ARM_ABS32 = 2"
definition R_ARM_REL32 :: nat where "R_ARM_REL32 = 3"
definition R_ARM_GLOB_DAT :: nat where "R_ARM_GLOB_DAT = 21"
definition R_ARM_JUMP_SLOT :: nat where "R_ARM_JUMP_SLOT = 22"
definition R_ARM_COPY :: nat where "R_ARM_COPY = 20"
definition R_ARM_RELATIVE :: nat where "R_ARM_RELATIVE = 23"
definition R_AARCH64_ABS64 :: nat where "R_AARCH64_ABS64 = 257"
definition R_AARCH64_COPY :: nat where "R_AARCH64_COPY = 1024"
definition R_AARCH64_GLOB_DAT :: nat where "R_AARCH64_GLOB_DAT = 1025"
definition R_AARCH64_JUMP_SLOT :: nat where "R_AARCH64_JUMP_SLOT = 1026"
definition R_AARCH64_RELATIVE :: nat where "R_AARCH64_RELATIVE = 1027"
definition R_386_32 :: nat where "R_386_32 = 1"
definition R_386_PC32 :: nat where "R_386_PC32 = 2"
definition R_386_GLOB_DAT :: nat where "R_386_GLOB_DAT = 6"
definition R_386_JMP_SLOT :: nat where "R_386_JMP_SLOT = 7"
definition R_386_RELATIVE :: nat where "R_386_RELATIVE = 8"
definition R_MIPS_REL32 :: nat where "R_MIPS_REL32 = 3"

lemmas R_defs = R_ARM_ABS32_def R_ARM_REL32_def R_ARM_GLOB_DAT_def R_ARM_JUMP_SLOT_def R_ARM_COPY_def
  R_ARM_RELATIVE_def R_AARCH64_ABS64_def R_AARCH64_COPY_def R_AARCH64_GLOB_DAT_def
  R_AARCH64_JUMP_SLOT_def R_AARCH64_RELATIVE_def R_386_32_def R_386_PC32_def R_386_GLOB_DAT_def
  R_386_JMP_SLOT_def R_386_RELATIVE_def R_MIPS_REL32_def

fun GetRelocationType :: "arch \<Rightarrow> nat \<Rightarrow> relocation_type" where
  "GetRelocationType ARM r_type =
     (if r_type \<in> {R_ARM_JUMP_SLOT, R_ARM_GLOB_DAT, R_ARM_ABS32} then RELOCATION_TYPE_ABSOLUTE
      else if r_type \<in> {R_ARM_REL32, R_ARM_RELATIVE} then RELOCATION_TYPE_RELATIVE
      else if r_type = R_ARM_COPY then RELOCATION_TYPE_COPY else RELOCATION_TYPE_UNKNOWN)"
| "GetRelocationType AARCH64 r_type =
     (if r_type \<in> {R_AARCH64_JUMP_SLOT, R_AARCH64_GLOB_DAT, R_AARCH64_ABS64} then RELOCATION_TYPE_ABSOLUTE
      else if r_type = R_AARCH64_RELATIVE then RELOCATION_TYPE_RELATIVE
      else if r_type = R_AARCH64_COPY then RELOCATION_TYPE_COPY else RELOCATION_TYPE_UNKNOWN)"
| "GetRelocationType I386 r_type =
     (if r_type \<in> {R_386_JMP_SLOT, R_386_GLOB_DAT, R_386_32} then RELOCATION_TYPE_ABSOLUTE
      else if r_type = R_386_RELATIVE then RELOCATION_TYPE_RELATIVE
      else if r_type = R_386_PC32 then RELOCATION_TYPE_PC_RELATIVE else RELOCATION_TYPE_UNKNOWN)"
| "GetRelocationType MIPS r_type =
     (if r_type = R_MIPS_REL32 then RELOCATION_TYPE_RELATIVE else RELOCATION_TYPE_UNKNOWN)"
| "GetRelocationType OtherArch r_type = RELOCATION_TYPE_UNKNOWN"

section \<open>State\<close>

record 'addr elf_relocations =
  rl_phdr :: 'addr
  rl_phdr_count :: nat
  rl_load_bias :: 'addr
  relocations_type :: nat
  plt_relocations :: 'addr
  plt_relocations_size :: nat
  plt_got :: 'addr
  relocations :: 'addr
  relocations_size :: nat
  mips_symtab_count :: nat
  mips_local_got_count :: nat
  mips_gotsym :: nat
  has_text_relocations :: bool
  has_symbolic :: bool

definition ElfRelocations_zero :: "('w::len) word elf_relocations" where
  "ElfRelocations_zero = \<lparr>rl_phdr = 0, rl_phdr_count = 0, rl_load_bias = 0, relocations_type = 0,
     plt_relocations = 0, plt_relocations_size = 0, plt_got = 0, relocations = 0, relocations_size = 0,
     mips_symtab_count = 0, mips_local_got_count = 0, mips_gotsym = 0,
     has_text_relocations = False, has_symbolic = False\<rparr>"

text \<open>\<open>Elf32_Rel\<close>, \<open>Elf64_Rel\<close>, \<open>Elf32_Rela\<close> and \<open>Elf64_Rela\<close>; a \<open>Rel\<close> entry has no addend.\<close>

record 'addr elf_rel =
  r_offset :: 'addr
  r_info :: nat
  r_addend :: nat

definition sizeof_Rel :: "nat \<Rightarrow> nat" where
  "sizeof_Rel bits = 2 * addr_size bits"

definition sizeof_Rela :: "nat \<Rightarrow> nat" where
  "sizeof_Rela bits = 3 * addr_size bits"

definition rel_at :: "('w::len) word vm \<Rightarrow> 'w word \<Rightarrow> 'w word elf_rel" where
  "rel_at vm a = \<lparr>r_offset = read_addr vm a,
     r_info = unat (read_addr vm (a + word_of_nat (addr_size LENGTH('w)))), r_addend = 0\<rparr>"

definition rela_at :: "('w::len) word vm \<Rightarrow> 'w word \<Rightarrow> 'w word elf_rel" where
  "rela_at vm a = \<lparr>r_offset = read_addr vm a,
     r_info = unat (read_addr vm (a + word_of_nat (addr_size LENGTH('w)))),
     r_addend = unat (read_addr vm (a + word_of_nat (2 * addr_size LENGTH('w))))\<rparr>"

definition ELF_R_TYPE :: "nat \<Rightarrow> nat \<Rightarrow> nat" where
  "ELF_R_TYPE bits info = (if bits = 32 then info mod 256 else info mod 2 ^ 32)"

definition ELF_R_SYM :: "nat \<Rightarrow> nat \<Rightarrow> nat" where
  "ELF_R_SYM bits info = (if bits = 32 then info div 256 else info div 2 ^ 32)"

text \<open>\<open>const ELF::Sword addend = rela->r_addend\<close>: the 32-bit signed \<open>Sword\<close> of both ELF classes.\<close>

definition sword_addend :: "nat \<Rightarrow> ('w::len) word" where
  "sword_addend addend = scast (word_of_nat addend :: 32 word)"

section \<open>Init\<close>

definition DT_PLTRELSZ :: nat where "DT_PLTRELSZ = 2"
definition DT_PLTGOT :: nat where "DT_PLTGOT = 3"
definition DT_RELA :: nat where "DT_RELA = 7"
definition DT_RELASZ :: nat where "DT_RELASZ = 8"
definition DT_SYMBOLIC :: nat where "DT_SYMBOLIC = 16"
definition DT_REL :: nat where "DT_REL = 17"
definition DT_RELSZ :: nat where "DT_RELSZ = 18"
definition DT_PLTREL :: nat where "DT_PLTREL = 20"
definition DT_TEXTREL :: nat where "DT_TEXTREL = 22"
definition DT_JMPREL :: nat where "DT_JMPREL = 23"
definition DT_FLAGS :: nat where "DT_FLAGS = 30"
definition DT_MIPS_LOCAL_GOTNO :: nat where "DT_MIPS_LOCAL_GOTNO = 0x7000000a"
definition DT_MIPS_SYMTABNO :: nat where "DT_MIPS_SYMTABNO = 0x70000011"
definition DT_MIPS_GOTSYM :: nat where "DT_MIPS_GOTSYM = 0x70000013"
definition DF_SYMBOLIC :: nat where "DF_SYMBOLIC = 2"
definition DF_TEXTREL :: nat where "DF_TEXTREL = 4"

lemmas DT_defs = DT_PLTRELSZ_def DT_PLTGOT_def DT_RELA_def DT_RELASZ_def DT_SYMBOLIC_def DT_REL_def
  DT_RELSZ_def DT_PLTREL_def DT_TEXTREL_def DT_JMPREL_def DT_FLAGS_def DT_MIPS_LOCAL_GOTNO_def
  DT_MIPS_SYMTABNO_def DT_MIPS_GOTSYM_def

text \<open>The body of the loop over the dynamic table; the two flags tell whether a \<open>RELA\<close> and a \<open>REL\<close>
  entry have been seen.\<close>

definition ElfRelocations_dyn ::
  "arch \<Rightarrow> nat \<Rightarrow> ('w::len) word \<Rightarrow> 'w word \<Rightarrow> 'w word elf_relocations \<times> bool \<times> bool \<Rightarrow>
     'w word reloc_error + 'w word elf_relocations \<times> bool \<times> bool" where
  "ElfRelocations_dyn arch tag dyn_value dyn_addr s =
     (case s of (r, has_rela, has_rel) \<Rightarrow>
      if tag = DT_PLTREL then
        (if unat dyn_value \<noteq> DT_REL \<and> unat dyn_value \<noteq> DT_RELA then Inl InvalidPltRel
         else Inr (r\<lparr>relocations_type := unat dyn_value\<rparr>, has_rela, has_rel))
      else if tag = DT_JMPREL then Inr (r\<lparr>plt_relocations := dyn_addr\<rparr>, has_rela, has_rel)
      else if tag = DT_PLTRELSZ then Inr (r\<lparr>plt_relocations_size := unat dyn_value\<rparr>, has_rela, has_rel)
      else if tag = DT_RELA \<or> tag = DT_REL then
        (if relocations r \<noteq> 0 then Inl UnsupportedRelCombination
         else if tag = DT_RELA then Inr (r\<lparr>relocations := dyn_addr\<rparr>, True, has_rel)
         else Inr (r\<lparr>relocations := dyn_addr\<rparr>, has_rela, True))
      else if tag = DT_RELASZ \<or> tag = DT_RELSZ then
        (if relocations_size r \<noteq> 0 then Inl UnsupportedSizeCombination
         else if tag = DT_RELASZ then Inr (r\<lparr>relocations_size := unat dyn_value\<rparr>, True, has_rel)
         else Inr (r\<lparr>relocations_size := unat dyn_value\<rparr>, has_rela, True))
      else if tag = DT_PLTGOT then Inr (r\<lparr>plt_got := dyn_addr\<rparr>, has_rela, has_rel)
      else if tag = DT_TEXTREL then Inr (r\<lparr>has_text_relocations := True\<rparr>, has_rela, has_rel)
      else if tag = DT_SYMBOLIC then Inr (r\<lparr>has_symbolic := True\<rparr>, has_rela, has_rel)
      else if tag = DT_FLAGS then
        (let r = (if unat dyn_value AND DF_TEXTREL \<noteq> 0 then r\<lparr>has_text_relocations := True\<rparr> else r);
             r = (if unat dyn_value AND DF_SYMBOLIC \<noteq> 0 then r\<lparr>has_symbolic := True\<rparr> else r)
         in Inr (r, has_rela, has_rel))
      else if arch = MIPS \<and> tag = DT_MIPS_SYMTABNO then
        Inr (r\<lparr>mips_symtab_count := unat dyn_value\<rparr>, has_rela, has_rel)
      else if arch = MIPS \<and> tag = DT_MIPS_LOCAL_GOTNO then
        Inr (r\<lparr>mips_local_got_count := unat dyn_value\<rparr>, has_rela, has_rel)
      else if arch = MIPS \<and> tag = DT_MIPS_GOTSYM then
        Inr (r\<lparr>mips_gotsym := unat dyn_value\<rparr>, has_rela, has_rel)
      else Inr (r, has_rela, has_rel))"

fun ElfRelocations_scan ::
  "arch \<Rightarrow> ('w::len) word vm \<Rightarrow> 'w word \<Rightarrow> 'w word dyn_iter list \<Rightarrow>
     'w word elf_relocations \<times> bool \<times> bool \<Rightarrow> 'w word reloc_error + 'w word elf_relocations \<times> bool \<times> bool" where
  "ElfRelocations_scan arch vm lbias [] s = Inr s"
| "ElfRelocations_scan arch vm lbias (dyn # dyns) s =
     (case ElfRelocations_dyn arch (unat (dyn_GetTag vm dyn)) (dyn_GetValue vm dyn) (dyn_GetAddress vm lbias dyn) s of
        Inl e \<Rightarrow> Inl e
      | Inr s \<Rightarrow> ElfRelocations_scan arch vm lbias dyns s)"

definition ElfRelocations_Init ::
  "arch \<Rightarrow> ('w::len) word vm \<Rightarrow> 'w word elf_view \<Rightarrow> 'w word elf_relocations \<Rightarrow>
     'w word reloc_error + 'w word elf_relocations" where
  "ElfRelocations_Init arch vm view r =
     (let r = r\<lparr>rl_phdr := ev_phdr view, rl_phdr_count := ev_phdr_count view, rl_load_bias := ev_load_bias view\<rparr> in
      case ElfRelocations_scan arch vm (ev_load_bias view) (dynamic_entries view) (r, False, False) of
        Inl e \<Rightarrow> Inl e
      | Inr (r, has_rela, has_rel) \<Rightarrow>
          if relocations_type r \<noteq> DT_REL \<and> relocations_type r \<noteq> DT_RELA then Inl MissingPltRel
          else if relocations_type r = DT_REL \<and> has_rela then Inl FoundRelaButRel
          else if relocations_type r = DT_RELA \<and> has_rel then Inl FoundRelButRela
          else Inr r)"

section \<open>Applying relocations\<close>

definition ApplyRelaReloc ::
  "arch \<Rightarrow> ('w::len) word \<Rightarrow> 'w word elf_rel \<Rightarrow> 'w word \<Rightarrow> bool \<Rightarrow> 'w word vm \<Rightarrow>
     'w word reloc_error + 'w word vm" where
  "ApplyRelaReloc arch lbias rela sym_addr resolved vm =
     (let rela_type = ELF_R_TYPE LENGTH('w) (r_info rela);
          rela_symbol = ELF_R_SYM LENGTH('w) (r_info rela);
          addend = sword_addend (r_addend rela);
          target = r_offset rela + lbias
      in
      if arch = AARCH64 then
        (if rela_type = R_AARCH64_JUMP_SLOT then Inr (write_addr vm target (sym_addr + addend))
         else if rela_type = R_AARCH64_GLOB_DAT then Inr (write_addr vm target (sym_addr + addend))
         else if rela_type = R_AARCH64_ABS64 then
           Inr (write_addr vm target (read_addr vm target + (sym_addr + addend)))
         else if rela_type = R_AARCH64_RELATIVE then
           (if rela_symbol \<noteq> 0 then Inl RelativeWithSymbol
            else Inr (write_addr vm target (lbias + addend)))
         else if rela_type = R_AARCH64_COPY then Inl CopyInSharedLibrary
         else Inl (InvalidRelocationType rela_type))
      else Inl (InvalidRelocationType rela_type))"

definition ApplyRelReloc ::
  "arch \<Rightarrow> ('w::len) word \<Rightarrow> 'w word elf_rel \<Rightarrow> 'w word \<Rightarrow> bool \<Rightarrow> 'w word vm \<Rightarrow>
     'w word reloc_error + 'w word vm" where
  "ApplyRelReloc arch lbias rel sym_addr resolved vm =
     (let rel_type = ELF_R_TYPE LENGTH('w) (r_info rel);
          rel_symbol = ELF_R_SYM LENGTH('w) (r_info rel);
          reloc = r_offset rel + lbias
      in case arch of
        ARM \<Rightarrow>
          if rel_type = R_ARM_JUMP_SLOT then Inr (write_addr vm reloc sym_addr)
          else if rel_type = R_ARM_GLOB_DAT then Inr (write_addr vm reloc sym_addr)
          else if rel_type = R_ARM_ABS32 then Inr (write_addr vm reloc (read_addr vm reloc + sym_addr))
          else if rel_type = R_ARM_REL32 then
            Inr (write_addr vm reloc (read_addr vm reloc + (sym_addr - r_offset rel)))
          else if rel_type = R_ARM_RELATIVE then
            (if rel_symbol \<noteq> 0 then Inl RelativeWithSymbol
             else Inr (write_addr vm reloc (read_addr vm reloc + lbias)))
          else if rel_type = R_ARM_COPY then Inl CopyInSharedLibrary
          else Inl (InvalidRelocationType rel_type)
      | I386 \<Rightarrow>
          if rel_type = R_386_JMP_SLOT then Inr (write_addr vm reloc sym_addr)
          else if rel_type = R_386_GLOB_DAT then Inr (write_addr vm reloc sym_addr)
          else if rel_type = R_386_RELATIVE then
            (if rel_symbol \<noteq> 0 then Inl RelativeWithSymbol
             else Inr (write_addr vm reloc (read_addr vm reloc + lbias)))
          else if rel_type = R_386_32 then Inr (write_addr vm reloc (read_addr vm reloc + sym_addr))
          else if rel_type = R_386_PC32 then
            Inr (write_addr vm reloc (read_addr vm reloc + (sym_addr - reloc)))
          else Inl (InvalidRelocationType rel_type)
      | MIPS \<Rightarrow>
          if rel_type = R_MIPS_REL32 then
            (if resolved then Inr (write_addr vm reloc (read_addr vm reloc + sym_addr))
             else Inr (write_addr vm reloc (read_addr vm reloc + lbias)))
          else Inl (InvalidRelocationType rel_type)
      | _ \<Rightarrow> Inl (InvalidRelocationType rel_type))"

text \<open>\<open>ResolveSymbol\<close>: the result, the value it stores in \<open>sym_addr\<close> (0 before the call), the error.\<close>

definition ResolveSymbol ::
  "arch \<Rightarrow> nat \<Rightarrow> nat \<Rightarrow> ('w::len) word elf_symbols \<Rightarrow> ('w word vm \<Rightarrow> 'w word \<Rightarrow> 'w word) \<Rightarrow> 'w word \<Rightarrow>
     'w word reloc_error option \<Rightarrow> 'w word vm \<Rightarrow> bool \<times> 'w word \<times> 'w word reloc_error option" where
  "ResolveSymbol arch rel_type rel_symbol symbols lookup reloc err vm =
     (let sym_name = LookupNameById vm symbols rel_symbol;
          address = lookup vm sym_name
      in
      if address \<noteq> 0 then (True, address, err)
      else if \<not> IsWeakById vm symbols rel_symbol then (False, 0, Some (CouldNotFindSymbol sym_name))
      else
        let r = GetRelocationType arch rel_type in
        if r = RELOCATION_TYPE_ABSOLUTE \<or> r = RELOCATION_TYPE_RELATIVE then (True, 0, err)
        else if r = RELOCATION_TYPE_PC_RELATIVE then (True, reloc, err)
        else (False, 0, Some (InvalidWeakRelocation r sym_name)))"

text \<open>The loop of \<open>ApplyRelRelocs\<close> and of \<open>ApplyRelaRelocs\<close>, over the remaining entries: how an entry is
  read, its size, and how it is applied are arguments.\<close>

fun ApplyRelocs_loop ::
  "arch \<Rightarrow> ('w word vm \<Rightarrow> 'w word \<Rightarrow> 'w word elf_rel) \<Rightarrow> nat \<Rightarrow>
   ('w word elf_rel \<Rightarrow> 'w word \<Rightarrow> bool \<Rightarrow> 'w word vm \<Rightarrow> 'w word reloc_error + 'w word vm) \<Rightarrow>
   ('w::len) word \<Rightarrow> 'w word elf_symbols \<Rightarrow> ('w word vm \<Rightarrow> 'w word \<Rightarrow> 'w word) \<Rightarrow>
   nat \<Rightarrow> 'w word \<Rightarrow> 'w word reloc_error option \<Rightarrow> 'w word vm \<Rightarrow> bool \<times> 'w word reloc_error option \<times> 'w word vm" where
  "ApplyRelocs_loop arch entry sz apply_reloc lbias symbols lookup 0 rel err vm = (True, err, vm)"
| "ApplyRelocs_loop arch entry sz apply_reloc lbias symbols lookup (Suc n) rel err vm =
     (let r = entry vm rel;
          rel_type = ELF_R_TYPE LENGTH('w) (r_info r);
          rel_symbol = ELF_R_SYM LENGTH('w) (r_info r);
          reloc = r_offset r + lbias
      in
      if rel_type = 0
      then ApplyRelocs_loop arch entry sz apply_reloc lbias symbols lookup n (rel + word_of_nat sz) err vm
      else
        let (resolved, sym_addr, err) =
              (if rel_symbol \<noteq> 0 then ResolveSymbol arch rel_type rel_symbol symbols lookup reloc err vm
               else (False, 0, err))
        in case apply_reloc r sym_addr resolved vm of
             Inl e \<Rightarrow> (False, Some e, vm)
           | Inr vm \<Rightarrow>
               ApplyRelocs_loop arch entry sz apply_reloc lbias symbols lookup n (rel + word_of_nat sz) err vm)"

definition ApplyRelRelocs ::
  "arch \<Rightarrow> ('w::len) word \<Rightarrow> 'w word elf_symbols \<Rightarrow> ('w word vm \<Rightarrow> 'w word \<Rightarrow> 'w word) \<Rightarrow> 'w word \<Rightarrow> nat \<Rightarrow>
     'w word reloc_error option \<Rightarrow> 'w word vm \<Rightarrow> bool \<times> 'w word reloc_error option \<times> 'w word vm" where
  "ApplyRelRelocs arch lbias symbols lookup rel rel_count err vm =
     (if rel = 0 then (True, err, vm)
      else ApplyRelocs_loop arch rel_at (sizeof_Rel LENGTH('w)) (ApplyRelReloc arch lbias)
             lbias symbols lookup rel_count rel err vm)"

definition ApplyRelaRelocs ::
  "arch \<Rightarrow> ('w::len) word \<Rightarrow> 'w word elf_symbols \<Rightarrow> ('w word vm \<Rightarrow> 'w word \<Rightarrow> 'w word) \<Rightarrow> 'w word \<Rightarrow> nat \<Rightarrow>
     'w word reloc_error option \<Rightarrow> 'w word vm \<Rightarrow> bool \<times> 'w word reloc_error option \<times> 'w word vm" where
  "ApplyRelaRelocs arch lbias symbols lookup rela rela_count err vm =
     (if rela = 0 then (True, err, vm)
      else ApplyRelocs_loop arch rela_at (sizeof_Rela LENGTH('w)) (ApplyRelaReloc arch lbias)
             lbias symbols lookup rela_count rela err vm)"

section \<open>The MIPS global offset table\<close>

definition got_at :: "('w::len) word \<Rightarrow> nat \<Rightarrow> 'w word" where
  "got_at got n = got + word_of_nat (n * addr_size LENGTH('w))"

definition add_words :: "('w::len) word \<Rightarrow> 'w word list \<Rightarrow> 'w word vm \<Rightarrow> 'w word vm" where
  "add_words delta as vm = modify_words read_addr write_addr (map (\<lambda>a. (a, \<lambda>v. v + delta)) as) vm"

fun MipsGot_globals ::
  "('w::len) word elf_symbols \<Rightarrow> ('w word vm \<Rightarrow> 'w word \<Rightarrow> 'w word) \<Rightarrow> nat list \<Rightarrow> 'w word \<Rightarrow>
     'w word vm \<Rightarrow> 'w word reloc_error option \<times> 'w word vm" where
  "MipsGot_globals symbols lookup [] got vm = (None, vm)"
| "MipsGot_globals symbols lookup (idx # idxs) got vm =
     (let sym_name = LookupNameById vm symbols idx;
          sym_addr = lookup vm sym_name
      in
      if sym_addr \<noteq> 0 then MipsGot_globals symbols lookup idxs (got_at got 1) (write_addr vm got sym_addr)
      else if IsWeakById vm symbols idx then MipsGot_globals symbols lookup idxs (got_at got 1) (write_addr vm got 0)
      else (Some (CannotLocateSymbol sym_name), vm))"

definition RelocateMipsGot ::
  "('w::len) word elf_relocations \<Rightarrow> 'w word elf_symbols \<Rightarrow> ('w word vm \<Rightarrow> 'w word \<Rightarrow> 'w word) \<Rightarrow>
     'w word vm \<Rightarrow> 'w word reloc_error option \<times> 'w word vm" where
  "RelocateMipsGot r symbols lookup vm =
     (if plt_got r = 0 then (None, vm)
      else
        let got = plt_got r;
            vm = write_addr vm (got_at got 0) 0xdeadbeef;
            vm = (if read_addr vm (got_at got 1) AND 0x80000000 \<noteq> 0
                  then write_addr vm (got_at got 1) 0xdeadbeef else vm);
            vm = add_words (rl_load_bias r) (map (got_at got) [2..<mips_local_got_count r]) vm
        in MipsGot_globals symbols lookup [mips_gotsym r..<mips_symtab_count r]
             (got_at got (mips_local_got_count r)) vm)"

section \<open>ApplyAll\<close>

definition phdrs_at :: "('w::len) word vm \<Rightarrow> 'w word \<Rightarrow> nat \<Rightarrow> 'w word phdr list" where
  "phdrs_at vm a count = map (\<lambda>n. decode_phdr (mem_from vm a) (n * sizeof_Phdr LENGTH('w))) [0..<count]"

definition apply_tables ::
  "arch \<Rightarrow> ('w::len) word elf_relocations \<Rightarrow> 'w word elf_symbols \<Rightarrow> ('w word vm \<Rightarrow> 'w word \<Rightarrow> 'w word) \<Rightarrow>
     'w word reloc_error option \<Rightarrow> 'w word vm \<Rightarrow> bool \<times> 'w word reloc_error option \<times> 'w word vm" where
  "apply_tables arch r symbols lookup err vm =
     (if relocations_type r = DT_REL then
        case ApplyRelRelocs arch (rl_load_bias r) symbols lookup (plt_relocations r)
               (plt_relocations_size r div sizeof_Rel LENGTH('w)) err vm of
          (ok, err, vm) \<Rightarrow>
            if \<not> ok then (False, err, vm)
            else ApplyRelRelocs arch (rl_load_bias r) symbols lookup (relocations r)
                   (relocations_size r div sizeof_Rel LENGTH('w)) err vm
      else if relocations_type r = DT_RELA then
        case ApplyRelaRelocs arch (rl_load_bias r) symbols lookup (plt_relocations r)
               (plt_relocations_size r div sizeof_Rela LENGTH('w)) err vm of
          (ok, err, vm) \<Rightarrow>
            if \<not> ok then (False, err, vm)
            else ApplyRelaRelocs arch (rl_load_bias r) symbols lookup (relocations r)
                   (relocations_size r div sizeof_Rela LENGTH('w)) err vm
      else (True, err, vm))"

definition ApplyAll ::
  "arch \<Rightarrow> 'w word refusal \<Rightarrow> ('w::len) word elf_relocations \<Rightarrow> 'w word elf_symbols \<Rightarrow>
   ('w word vm \<Rightarrow> 'w word \<Rightarrow> 'w word) \<Rightarrow> 'w word reloc_error option \<Rightarrow> 'w word vm \<Rightarrow>
     bool \<times> 'w word reloc_error option \<times> 'w word vm" where
  "ApplyAll arch refuse r symbols lookup err vm =
     (let (ret, vm) =
        (if has_text_relocations r
         then phdr_table_unprotect_segments (sys_mprotect refuse) (phdrs_at vm (rl_phdr r) (rl_phdr_count r))
                (rl_load_bias r) vm
         else (0, vm))
      in if ret < 0 then (False, Some CantUnprotect, vm)
      else case apply_tables arch r symbols lookup err vm of (ok, err, vm) \<Rightarrow>
        if \<not> ok then (False, err, vm)
        else
          let (got_err, vm) = (if arch = MIPS then RelocateMipsGot r symbols lookup vm else (None, vm)) in
          case got_err of
            Some e \<Rightarrow> (False, Some e, vm)
          | None \<Rightarrow>
              let (ret, vm) =
                (if has_text_relocations r
                 then phdr_table_protect_segments (sys_mprotect refuse) (phdrs_at vm (rl_phdr r) (rl_phdr_count r))
                        (rl_load_bias r) vm
                 else (0, vm))
              in if ret < 0 then (False, Some CantReprotect, vm) else (True, err, vm))"

section \<open>CopyAndRelocate\<close>

definition relative_type :: "arch \<Rightarrow> nat option" where
  "relative_type arch = (case arch of
      ARM \<Rightarrow> Some R_ARM_RELATIVE | AARCH64 \<Rightarrow> Some R_AARCH64_RELATIVE
    | I386 \<Rightarrow> Some R_386_RELATIVE | MIPS \<Rightarrow> Some R_MIPS_REL32 | OtherArch \<Rightarrow> None)"

definition AdjustRelocation ::
  "arch \<Rightarrow> nat \<Rightarrow> ('w::len) word \<Rightarrow> 'w word \<Rightarrow> 'w word \<Rightarrow> 'w word vm \<Rightarrow> 'w word vm" where
  "AdjustRelocation arch rel_type src_reloc dst_delta map_delta vm =
     (let dst_ptr = src_reloc + dst_delta in
      if relative_type arch = Some rel_type then write_addr vm dst_ptr (read_addr vm dst_ptr + map_delta)
      else vm)"

fun Relocate_loop ::
  "arch \<Rightarrow> ('w word vm \<Rightarrow> 'w word \<Rightarrow> 'w word elf_rel) \<Rightarrow> nat \<Rightarrow> ('w::len) word \<Rightarrow> 'w word \<Rightarrow> 'w word \<Rightarrow>
   'w word \<Rightarrow> 'w word \<Rightarrow> nat \<Rightarrow> 'w word \<Rightarrow> 'w word vm \<Rightarrow> 'w word vm" where
  "Relocate_loop arch entry sz lbias src_addr dst_addr map_addr len 0 rel vm = vm"
| "Relocate_loop arch entry sz lbias src_addr dst_addr map_addr len (Suc n) rel vm =
     (let r = entry vm rel;
          rel_type = ELF_R_TYPE LENGTH('w) (r_info r);
          rel_symbol = ELF_R_SYM LENGTH('w) (r_info r);
          src_reloc = r_offset r + lbias;
          vm = (if rel_type = 0 \<or> rel_symbol \<noteq> 0 then vm
                else if src_reloc < src_addr \<or> src_reloc \<ge> src_addr + len then vm
                else AdjustRelocation arch rel_type src_reloc (dst_addr - src_addr) (map_addr - src_addr) vm)
      in Relocate_loop arch entry sz lbias src_addr dst_addr map_addr len n (rel + word_of_nat sz) vm)"

definition RelocateRela ::
  "arch \<Rightarrow> ('w::len) word elf_relocations \<Rightarrow> 'w word \<Rightarrow> 'w word \<Rightarrow> 'w word \<Rightarrow> 'w word \<Rightarrow> 'w word vm \<Rightarrow> 'w word vm" where
  "RelocateRela arch r src_addr dst_addr map_addr len vm =
     Relocate_loop arch rela_at (sizeof_Rela LENGTH('w)) (rl_load_bias r) src_addr dst_addr map_addr len
       (relocations_size r div sizeof_Rela LENGTH('w)) (relocations r) vm"

definition RelocateRel ::
  "arch \<Rightarrow> ('w::len) word elf_relocations \<Rightarrow> 'w word \<Rightarrow> 'w word \<Rightarrow> 'w word \<Rightarrow> 'w word \<Rightarrow> 'w word vm \<Rightarrow> 'w word vm" where
  "RelocateRel arch r src_addr dst_addr map_addr len vm =
     Relocate_loop arch rel_at (sizeof_Rel LENGTH('w)) (rl_load_bias r) src_addr dst_addr map_addr len
       (relocations_size r div sizeof_Rel LENGTH('w)) (relocations r) vm"

definition vm_memcpy :: "('w::len) word \<Rightarrow> 'w word \<Rightarrow> 'w word \<Rightarrow> 'w word vm \<Rightarrow> 'w word vm" where
  "vm_memcpy dst src len vm = vm_set_bytes dst len (\<lambda>i. vm_byte vm (src + i)) vm"

definition CopyAndRelocate ::
  "arch \<Rightarrow> ('w::len) word elf_relocations \<Rightarrow> 'w word \<Rightarrow> 'w word \<Rightarrow> 'w word \<Rightarrow> 'w word \<Rightarrow> 'w word vm \<Rightarrow> 'w word vm" where
  "CopyAndRelocate arch r src_addr dst_addr map_addr len vm =
     (let vm = vm_memcpy dst_addr src_addr len vm;
          vm = (if relocations_type r = DT_REL then RelocateRel arch r src_addr dst_addr map_addr len vm
                else if relocations_type r = DT_RELA then RelocateRela arch r src_addr dst_addr map_addr len vm
                else vm)
      in if arch = MIPS \<and> plt_got r \<noteq> 0 then
           add_words (map_addr - src_addr)
             (map (\<lambda>a. a + (dst_addr - src_addr))
               (filter (\<lambda>a. \<not> (a < src_addr \<or> a \<ge> src_addr + len))
                 (map (got_at (plt_got r)) [2..<mips_local_got_count r]))) vm
         else vm)"

section \<open>What a relocation stores\<close>

text \<open>
  The processor supplements as a table: the new contents of the place as a function of the old, of
  the load bias B, of the symbol value S, of the addend A and of the address P of the place; \<^term>\<open>None\<close>
  for a relocation a shared library may not have.
\<close>

definition rel_value ::
  "arch \<Rightarrow> ('w::len) word \<Rightarrow> 'w word elf_rel \<Rightarrow> 'w word \<Rightarrow> bool \<Rightarrow> ('w word \<Rightarrow> 'w word) option" where
  "rel_value arch B r S resolved =
     (let t = (arch, ELF_R_TYPE LENGTH('w) (r_info r)); P = r_offset r + B in
      if t \<in> {(ARM, R_ARM_JUMP_SLOT), (ARM, R_ARM_GLOB_DAT), (I386, R_386_JMP_SLOT), (I386, R_386_GLOB_DAT)}
      then Some (\<lambda>_. S)
      else if t \<in> {(ARM, R_ARM_ABS32), (I386, R_386_32)} then Some (\<lambda>old. old + S)
      else if t = (ARM, R_ARM_REL32) then Some (\<lambda>old. old + (S - r_offset r))
      else if t = (I386, R_386_PC32) then Some (\<lambda>old. old + (S - P))
      else if t = (MIPS, R_MIPS_REL32) then Some (\<lambda>old. old + (if resolved then S else B))
      else if t \<in> {(ARM, R_ARM_RELATIVE), (I386, R_386_RELATIVE)} \<and> ELF_R_SYM LENGTH('w) (r_info r) = 0
      then Some (\<lambda>old. old + B)
      else None)"

definition rela_value ::
  "arch \<Rightarrow> ('w::len) word \<Rightarrow> 'w word elf_rel \<Rightarrow> 'w word \<Rightarrow> bool \<Rightarrow> ('w word \<Rightarrow> 'w word) option" where
  "rela_value arch B r S resolved =
     (let t = (arch, ELF_R_TYPE LENGTH('w) (r_info r)); A = sword_addend (r_addend r) in
      if t \<in> {(AARCH64, R_AARCH64_JUMP_SLOT), (AARCH64, R_AARCH64_GLOB_DAT)} then Some (\<lambda>_. S + A)
      else if t = (AARCH64, R_AARCH64_ABS64) then Some (\<lambda>old. old + (S + A))
      else if t = (AARCH64, R_AARCH64_RELATIVE) \<and> ELF_R_SYM LENGTH('w) (r_info r) = 0 then Some (\<lambda>_. B + A)
      else None)"

text \<open>The words of memory an operation changes, and how, for one entry.\<close>

definition applies_value ::
  "(('w::len) word elf_rel \<Rightarrow> 'w word \<Rightarrow> bool \<Rightarrow> 'w word vm \<Rightarrow> 'w word reloc_error + 'w word vm) \<Rightarrow>
   ('w word elf_rel \<Rightarrow> 'w word \<Rightarrow> bool \<Rightarrow> ('w word \<Rightarrow> 'w word) option) \<Rightarrow> 'w word \<Rightarrow> bool" where
  "applies_value apply_reloc val B \<longleftrightarrow>
     (\<forall>r S res vm. case val r S res of
        None \<Rightarrow> \<exists>e. apply_reloc r S res vm = Inl e
      | Some g \<Rightarrow> apply_reloc r S res vm =
          Inr (write_addr vm (r_offset r + B) (g (read_addr vm (r_offset r + B)))))"

lemma ApplyRelReloc_value: "applies_value (ApplyRelReloc arch B) (rel_value arch B) B"
  unfolding applies_value_def
proof (intro allI)
  fix r S res and vm :: "'a word vm"
  show "case rel_value arch B r S res of
        None \<Rightarrow> \<exists>e. ApplyRelReloc arch B r S res vm = Inl e
      | Some g \<Rightarrow> ApplyRelReloc arch B r S res vm =
          Inr (write_addr vm (r_offset r + B) (g (read_addr vm (r_offset r + B))))"
    by (cases arch) (auto simp: rel_value_def ApplyRelReloc_def Let_def R_defs)
qed

lemma ApplyRelaReloc_value: "applies_value (ApplyRelaReloc arch B) (rela_value arch B) B"
  unfolding applies_value_def
proof (intro allI)
  fix r S res and vm :: "'a word vm"
  show "case rela_value arch B r S res of
        None \<Rightarrow> \<exists>e. ApplyRelaReloc arch B r S res vm = Inl e
      | Some g \<Rightarrow> ApplyRelaReloc arch B r S res vm =
          Inr (write_addr vm (r_offset r + B) (g (read_addr vm (r_offset r + B))))"
    by (cases arch) (auto simp: rela_value_def ApplyRelaReloc_def Let_def R_defs)
qed

section \<open>The loop over a table\<close>

definition same_on :: "'w word set \<Rightarrow> ('w::len) word vm \<Rightarrow> 'w word vm \<Rightarrow> bool" where
  "same_on A vm vm' \<longleftrightarrow> (\<forall>a \<in> A. vm_byte vm a = vm_byte vm' a)"

lemma same_on_refl [simp]: "same_on A vm vm"
  by (simp add: same_on_def)

lemma same_on_trans: "same_on A vm vm' \<Longrightarrow> same_on A vm' vm'' \<Longrightarrow> same_on A vm vm''"
  by (simp add: same_on_def)

lemma same_on_subset: "same_on A vm vm' \<Longrightarrow> B \<subseteq> A \<Longrightarrow> same_on B vm vm'"
  by (auto simp: same_on_def)

lemma same_on_write:
  fixes vm :: "('w::len) word vm"
  assumes "elf_width LENGTH('w)" "addr_footprint a \<inter> A = {}"
  shows "same_on A vm (write_addr vm a v)"
  using assms write_addr_frame by (fastforce simp: same_on_def)

definition entry_type :: "('w::len) word elf_rel \<Rightarrow> nat" where
  "entry_type (r :: 'w word elf_rel) = ELF_R_TYPE LENGTH('w) (r_info r)"

definition entry_sym :: "('w::len) word elf_rel \<Rightarrow> nat" where
  "entry_sym (r :: 'w word elf_rel) = ELF_R_SYM LENGTH('w) (r_info r)"

definition resolve_entry ::
  "arch \<Rightarrow> ('w::len) word \<Rightarrow> 'w word elf_symbols \<Rightarrow> ('w word vm \<Rightarrow> 'w word \<Rightarrow> 'w word) \<Rightarrow> 'w word vm \<Rightarrow>
     'w word elf_rel \<Rightarrow> bool \<times> 'w word" where
  "resolve_entry arch B symbols lookup vm r =
     (if entry_sym r = 0 then (False, 0)
      else case ResolveSymbol arch (entry_type r) (entry_sym r) symbols lookup (r_offset r + B) None vm of
        (res, S, _) \<Rightarrow> (res, S))"

text \<open>The update an entry stands for.\<close>

definition entry_update ::
  "arch \<Rightarrow> ('w word elf_rel \<Rightarrow> 'w word \<Rightarrow> bool \<Rightarrow> ('w word \<Rightarrow> 'w word) option) \<Rightarrow> ('w::len) word \<Rightarrow>
   'w word elf_symbols \<Rightarrow> ('w word vm \<Rightarrow> 'w word \<Rightarrow> 'w word) \<Rightarrow> 'w word vm \<Rightarrow> 'w word elf_rel \<Rightarrow>
     ('w word \<Rightarrow> 'w word) option" where
  "entry_update arch val B symbols lookup vm r =
     (case resolve_entry arch B symbols lookup vm r of (res, S) \<Rightarrow> val r S res)"

definition live :: "('w::len) word elf_rel list \<Rightarrow> 'w word elf_rel list" where
  "live rs = filter (\<lambda>r. entry_type r \<noteq> 0) rs"

definition updates ::
  "arch \<Rightarrow> ('w word elf_rel \<Rightarrow> 'w word \<Rightarrow> bool \<Rightarrow> ('w word \<Rightarrow> 'w word) option) \<Rightarrow> ('w::len) word \<Rightarrow>
   'w word elf_symbols \<Rightarrow> ('w word vm \<Rightarrow> 'w word \<Rightarrow> 'w word) \<Rightarrow> 'w word vm \<Rightarrow> 'w word elf_rel list \<Rightarrow>
     ('w word \<times> ('w word \<Rightarrow> 'w word)) list" where
  "updates arch val B symbols lookup vm rs =
     map (\<lambda>r. (r_offset r + B, the (entry_update arch val B symbols lookup vm r))) (live rs)"

text \<open>The names and bindings of the symbols the entries refer to, and the answers of the resolver for
  them, depend on the bytes of \<open>A\<close> only.\<close>

definition resolver_reads ::
  "'w word set \<Rightarrow> ('w::len) word elf_symbols \<Rightarrow> ('w word vm \<Rightarrow> 'w word \<Rightarrow> 'w word) \<Rightarrow> 'w word elf_rel set \<Rightarrow> bool" where
  "resolver_reads A symbols lookup R \<longleftrightarrow>
     (\<forall>vm vm'. \<forall>n \<in> entry_sym ` R - {0}. same_on A vm vm' \<longrightarrow>
        LookupNameById vm symbols n = LookupNameById vm' symbols n \<and>
        IsWeakById vm symbols n = IsWeakById vm' symbols n \<and>
        lookup vm (LookupNameById vm symbols n) = lookup vm' (LookupNameById vm symbols n))"

lemma resolver_reads_subset: "resolver_reads A symbols lookup R \<Longrightarrow> R' \<subseteq> R \<Longrightarrow> resolver_reads A symbols lookup R'"
  unfolding resolver_reads_def by blast

lemma resolve_entry_cong:
  assumes "resolver_reads A symbols lookup R" "same_on A vm vm'" "r \<in> R"
  shows "resolve_entry arch B symbols lookup vm r = resolve_entry arch B symbols lookup vm' r"
proof (cases "entry_sym r = 0")
  case True
  then show ?thesis by (simp add: resolve_entry_def)
next
  case False
  with assms(3) have "entry_sym r \<in> entry_sym ` R - {0}" by simp
  with assms(1,2) have "LookupNameById vm symbols (entry_sym r) = LookupNameById vm' symbols (entry_sym r)"
    "IsWeakById vm symbols (entry_sym r) = IsWeakById vm' symbols (entry_sym r)"
    "lookup vm (LookupNameById vm symbols (entry_sym r)) = lookup vm' (LookupNameById vm symbols (entry_sym r))"
    unfolding resolver_reads_def by blast+
  then show ?thesis by (simp add: resolve_entry_def ResolveSymbol_def Let_def)
qed

lemma entry_update_cong:
  assumes "resolver_reads A symbols lookup R" "same_on A vm vm'" "r \<in> R"
  shows "entry_update arch val B symbols lookup vm r = entry_update arch val B symbols lookup vm' r"
  by (simp add: entry_update_def resolve_entry_cong [OF assms])

lemma ResolveSymbol_err:
  "ResolveSymbol arch t n symbols lookup reloc err vm =
     (case ResolveSymbol arch t n symbols lookup reloc None vm of
        (res, S, e) \<Rightarrow> (res, S, case e of None \<Rightarrow> err | Some x \<Rightarrow> Some x))"
  by (simp add: ResolveSymbol_def Let_def)

fun table_at ::
  "('w word vm \<Rightarrow> 'w word \<Rightarrow> 'w word elf_rel) \<Rightarrow> nat \<Rightarrow> 'w word vm \<Rightarrow> ('w::len) word \<Rightarrow> 'w word elf_rel list \<Rightarrow> bool" where
  "table_at entry sz vm rel [] = True"
| "table_at entry sz vm rel (r # rs) = (entry vm rel = r \<and> table_at entry sz vm (rel + word_of_nat sz) rs)"

text \<open>A table whose bytes are among those of \<open>A\<close>.\<close>

definition table_in ::
  "'w word set \<Rightarrow> ('w word vm \<Rightarrow> 'w word \<Rightarrow> 'w word elf_rel) \<Rightarrow> nat \<Rightarrow> 'w word vm \<Rightarrow> ('w::len) word \<Rightarrow>
     'w word elf_rel list \<Rightarrow> bool" where
  "table_in A entry sz vm rel rs \<longleftrightarrow> (\<forall>vm'. same_on A vm vm' \<longrightarrow> table_at entry sz vm' rel rs)"

lemma table_in_step:
  "table_in A entry sz vm rel (r # rs) \<Longrightarrow> entry vm rel = r \<and> table_in A entry sz vm (rel + word_of_nat sz) rs"
  by (auto simp: table_in_def)

lemma table_in_same: "table_in A entry sz vm rel rs \<Longrightarrow> same_on A vm vm' \<Longrightarrow> table_in A entry sz vm' rel rs"
  unfolding table_in_def by (meson same_on_trans)

text \<open>The entries can be applied and do not touch \<open>A\<close>.\<close>

definition applicable ::
  "'w word set \<Rightarrow> arch \<Rightarrow> ('w word elf_rel \<Rightarrow> 'w word \<Rightarrow> bool \<Rightarrow> ('w word \<Rightarrow> 'w word) option) \<Rightarrow> ('w::len) word \<Rightarrow>
   'w word elf_symbols \<Rightarrow> ('w word vm \<Rightarrow> 'w word \<Rightarrow> 'w word) \<Rightarrow> 'w word vm \<Rightarrow> 'w word elf_rel list \<Rightarrow> bool" where
  "applicable A arch val B symbols lookup vm rs \<longleftrightarrow>
     (\<forall>r \<in> set (live rs). entry_update arch val B symbols lookup vm r \<noteq> None \<and>
        addr_footprint (r_offset r + B) \<inter> A = {})"

lemma live_simps [simp]:
  "live [] = []" "live (r # rs) = (if entry_type r = 0 then live rs else r # live rs)"
  "live (rs @ rs') = live rs @ live rs'"
  by (simp_all add: live_def)

lemma updates_same:
  assumes "resolver_reads A symbols lookup (set rs)" "same_on A vm vm'"
  shows "updates arch val B symbols lookup vm rs = updates arch val B symbols lookup vm' rs"
  by (simp add: updates_def live_def entry_update_cong [OF assms])

lemma applicable_same:
  assumes "resolver_reads A symbols lookup (set rs)" "same_on A vm vm'"
  shows "applicable A arch val B symbols lookup vm rs = applicable A arch val B symbols lookup vm' rs"
  by (simp add: applicable_def live_def entry_update_cong [OF assms])

lemma ApplyRelocs_step:
  fixes vm :: "('w::len) word vm"
  assumes val: "applies_value apply_reloc val B"
    and r: "entry vm rel = r" "entry_type r \<noteq> 0"
    and upd: "entry_update arch val B symbols lookup vm r = Some g"
  shows "\<exists>err'. ApplyRelocs_loop arch entry sz apply_reloc B symbols lookup (Suc n) rel err vm =
     ApplyRelocs_loop arch entry sz apply_reloc B symbols lookup n (rel + word_of_nat sz) err'
       (write_addr vm (r_offset r + B) (g (read_addr vm (r_offset r + B))))"
proof -
  obtain res S e where step: "(if entry_sym r \<noteq> 0
      then ResolveSymbol arch (entry_type r) (entry_sym r) symbols lookup (r_offset r + B) err vm
      else (False, 0, err)) = (res, S, e)"
    using prod_cases3 by blast
  have "resolve_entry arch B symbols lookup vm r = (res, S)"
    using step ResolveSymbol_err [of arch "entry_type r" "entry_sym r" symbols lookup "r_offset r + B" err vm]
    by (auto simp: resolve_entry_def split: if_splits prod.splits)
  with upd have "val r S res = Some g" by (simp add: entry_update_def)
  with val have "apply_reloc r S res vm =
      Inr (write_addr vm (r_offset r + B) (g (read_addr vm (r_offset r + B))))"
    unfolding applies_value_def by (auto dest!: spec [of _ r] spec [of _ S] spec [of _ res])
  with r(2) show ?thesis
    unfolding ApplyRelocs_loop.simps(2) Let_def r(1) entry_type_def [symmetric] entry_sym_def [symmetric] step
    by auto
qed

lemma ApplyRelocs_loop_updates:
  fixes vm :: "('w::len) word vm"
  assumes w: "elf_width LENGTH('w)" and val: "applies_value apply_reloc val B"
    and res: "resolver_reads A symbols lookup (set rs)"
    and tab: "table_in A entry sz vm rel rs" and ok: "applicable A arch val B symbols lookup vm rs"
  shows "\<exists>err'. ApplyRelocs_loop arch entry sz apply_reloc B symbols lookup (length rs) rel err vm =
     (True, err', modify_words read_addr write_addr (updates arch val B symbols lookup vm rs) vm)"
  using tab ok res
proof (induction rs arbitrary: rel err vm)
  case Nil
  then show ?case by (simp add: updates_def)
next
  case (Cons r rs)
  from table_in_step [OF Cons.prems(1)] have r: "entry vm rel = r"
    and tab: "table_in A entry sz vm (rel + word_of_nat sz) rs" by auto
  have res: "resolver_reads A symbols lookup (set rs)"
    by (rule resolver_reads_subset [OF Cons.prems(3)]) auto
  show ?case
  proof (cases "entry_type r = 0")
    case True
    with Cons.prems(2) have "applicable A arch val B symbols lookup vm rs" by (simp add: applicable_def)
    from Cons.IH [OF tab this res] True r show ?thesis
      by (simp add: updates_def entry_type_def Let_def)
  next
    case False
    with Cons.prems(2) obtain g where g: "entry_update arch val B symbols lookup vm r = Some g"
      and out: "addr_footprint (r_offset r + B) \<inter> A = {}"
      and ok: "applicable A arch val B symbols lookup vm rs" by (auto simp: applicable_def)
    let ?vm = "write_addr vm (r_offset r + B) (g (read_addr vm (r_offset r + B)))"
    have same: "same_on A vm ?vm" by (rule same_on_write [OF w out])
    from ApplyRelocs_step [where entry = entry and rel = rel, OF val r False g] obtain err'
      where step: "ApplyRelocs_loop arch entry sz apply_reloc B symbols lookup (Suc (length rs)) rel err vm =
        ApplyRelocs_loop arch entry sz apply_reloc B symbols lookup (length rs) (rel + word_of_nat sz) err' ?vm"
      by metis
    have "updates arch val B symbols lookup vm (r # rs) =
        (r_offset r + B, g) # updates arch val B symbols lookup ?vm rs"
      using False g updates_same [OF res same] by (simp add: updates_def)
    then show ?thesis
      unfolding list.size(4) add_Suc_right add_0_right step
      using Cons.IH [OF table_in_same [OF tab same] _ res, of err'] ok applicable_same [OF res same] by auto
  qed
qed

section \<open>All tables of a binary\<close>

definition reloc_value ::
  "arch \<Rightarrow> ('w::len) word elf_relocations \<Rightarrow> 'w word elf_rel \<Rightarrow> 'w word \<Rightarrow> bool \<Rightarrow> ('w word \<Rightarrow> 'w word) option" where
  "reloc_value arch r =
     (if relocations_type r = DT_REL then rel_value arch (rl_load_bias r) else rela_value arch (rl_load_bias r))"

definition reads_table ::
  "'w word set \<Rightarrow> ('w::len) word elf_relocations \<Rightarrow> 'w word vm \<Rightarrow> 'w word \<Rightarrow> nat \<Rightarrow> 'w word elf_rel list \<Rightarrow> bool" where
  "reads_table A r vm rel bytes rs \<longleftrightarrow>
     (if rel = 0 then rs = []
      else if relocations_type r = DT_REL
      then length rs = bytes div sizeof_Rel LENGTH('w) \<and> table_in A rel_at (sizeof_Rel LENGTH('w)) vm rel rs
      else length rs = bytes div sizeof_Rela LENGTH('w) \<and> table_in A rela_at (sizeof_Rela LENGTH('w)) vm rel rs)"

text \<open>\<open>rs\<close> are the entries of the PLT table followed by those of the main table.\<close>

definition reads_tables ::
  "'w word set \<Rightarrow> ('w::len) word elf_relocations \<Rightarrow> 'w word vm \<Rightarrow> 'w word elf_rel list \<Rightarrow> bool" where
  "reads_tables A r vm rs \<longleftrightarrow>
     (\<exists>plt main. rs = plt @ main \<and> reads_table A r vm (plt_relocations r) (plt_relocations_size r) plt \<and>
        reads_table A r vm (relocations r) (relocations_size r) main)"

definition apply_table ::
  "arch \<Rightarrow> ('w::len) word elf_relocations \<Rightarrow> 'w word elf_symbols \<Rightarrow> ('w word vm \<Rightarrow> 'w word \<Rightarrow> 'w word) \<Rightarrow> 'w word \<Rightarrow>
   nat \<Rightarrow> 'w word reloc_error option \<Rightarrow> 'w word vm \<Rightarrow> bool \<times> 'w word reloc_error option \<times> 'w word vm" where
  "apply_table arch r symbols lookup rel bytes err vm =
     (if relocations_type r = DT_REL
      then ApplyRelRelocs arch (rl_load_bias r) symbols lookup rel (bytes div sizeof_Rel LENGTH('w)) err vm
      else ApplyRelaRelocs arch (rl_load_bias r) symbols lookup rel (bytes div sizeof_Rela LENGTH('w)) err vm)"

lemma apply_table_updates:
  fixes vm :: "('w::len) word vm"
  assumes w: "elf_width LENGTH('w)" and res: "resolver_reads A symbols lookup (set rs)"
    and tab: "reads_table A r vm rel bytes rs"
    and ok: "applicable A arch (reloc_value arch r) (rl_load_bias r) symbols lookup vm rs"
  shows "\<exists>err'. apply_table arch r symbols lookup rel bytes err vm =
     (True, err', modify_words read_addr write_addr
        (updates arch (reloc_value arch r) (rl_load_bias r) symbols lookup vm rs) vm)"
proof (cases "rel = 0")
  case True
  with tab show ?thesis
    by (simp add: apply_table_def ApplyRelRelocs_def ApplyRelaRelocs_def reads_table_def updates_def)
next
  case False
  show ?thesis
  proof (cases "relocations_type r = DT_REL")
    case True
    with False tab have len: "bytes div sizeof_Rel LENGTH('w) = length rs"
      and t: "table_in A rel_at (sizeof_Rel LENGTH('w)) vm rel rs" by (auto simp: reads_table_def)
    show ?thesis
      using ApplyRelocs_loop_updates [OF w ApplyRelReloc_value res t, of arch] ok True False
      by (simp add: apply_table_def ApplyRelRelocs_def reloc_value_def len)
  next
    case rela: False
    with False tab have len: "bytes div sizeof_Rela LENGTH('w) = length rs"
      and t: "table_in A rela_at (sizeof_Rela LENGTH('w)) vm rel rs" by (auto simp: reads_table_def)
    show ?thesis
      using ApplyRelocs_loop_updates [OF w ApplyRelaReloc_value res t, of arch] ok rela False
      by (simp add: apply_table_def ApplyRelaRelocs_def reloc_value_def len)
  qed
qed

lemma modify_words_append: "modify_words rd wr (us @ us') m = modify_words rd wr us' (modify_words rd wr us m)"
  by (induction us arbitrary: m) simp_all

lemma same_on_modify:
  fixes vm :: "('w::len) word vm"
  assumes "elf_width LENGTH('w)" "\<And>u. u \<in> set us \<Longrightarrow> addr_footprint (fst u) \<inter> A = {}"
  shows "same_on A vm (modify_words read_addr write_addr us vm)"
  unfolding same_on_def
proof
  fix a assume "a \<in> A"
  with assms(2) have "a \<notin> (\<Union>u \<in> set us. addr_footprint (fst u))" by blast
  from modify_vm_frame [OF assms(1) this]
  show "vm_byte vm a = vm_byte (modify_words read_addr write_addr us vm) a" by simp
qed

lemma updates_outside:
  assumes "applicable A arch val B symbols lookup vm rs" "u \<in> set (updates arch val B symbols lookup vm rs)"
  shows "addr_footprint (fst u) \<inter> A = {}"
  using assms by (fastforce simp: applicable_def updates_def)

lemma reads_table_same:
  assumes "reads_table A r vm rel bytes rs" "same_on A vm vm'"
  shows "reads_table A r vm' rel bytes rs"
  using assms(1) table_in_same [OF _ assms(2)] by (auto simp: reads_table_def split: if_splits)

lemma reads_tables_same:
  assumes "reads_tables A r vm rs" "same_on A vm vm'"
  shows "reads_tables A r vm' rs"
proof -
  from assms(1) obtain plt main where "rs = plt @ main"
    "reads_table A r vm (plt_relocations r) (plt_relocations_size r) plt"
    "reads_table A r vm (relocations r) (relocations_size r) main"
    unfolding reads_tables_def by blast
  then show ?thesis
    unfolding reads_tables_def using reads_table_same [OF _ assms(2)] by blast
qed

lemma apply_tables_updates:
  fixes vm :: "('w::len) word vm"
  assumes w: "elf_width LENGTH('w)" and res: "resolver_reads A symbols lookup (set rs)"
    and rtype: "relocations_type r = DT_REL \<or> relocations_type r = DT_RELA"
    and tabs: "reads_tables A r vm rs"
    and ok: "applicable A arch (reloc_value arch r) (rl_load_bias r) symbols lookup vm rs"
  shows "\<exists>err'. apply_tables arch r symbols lookup err vm =
     (True, err', modify_words read_addr write_addr
        (updates arch (reloc_value arch r) (rl_load_bias r) symbols lookup vm rs) vm)"
proof -
  let ?us = "updates arch (reloc_value arch r) (rl_load_bias r) symbols lookup"
  from tabs obtain plt main where rs: "rs = plt @ main"
    and plt: "reads_table A r vm (plt_relocations r) (plt_relocations_size r) plt"
    and main: "reads_table A r vm (relocations r) (relocations_size r) main"
    by (auto simp: reads_tables_def)
  from ok rs have ok1: "applicable A arch (reloc_value arch r) (rl_load_bias r) symbols lookup vm plt"
    and ok2: "applicable A arch (reloc_value arch r) (rl_load_bias r) symbols lookup vm main"
    by (auto simp: applicable_def)
  have res1: "resolver_reads A symbols lookup (set plt)" and res2: "resolver_reads A symbols lookup (set main)"
    using resolver_reads_subset [OF res] rs by auto
  let ?vm = "modify_words read_addr write_addr (?us vm plt) vm"
  have same: "same_on A vm ?vm" by (rule same_on_modify [OF w updates_outside [OF ok1]])
  from apply_table_updates [OF w res1 plt ok1] obtain e1
    where t1: "apply_table arch r symbols lookup (plt_relocations r) (plt_relocations_size r) err vm = (True, e1, ?vm)"
    by blast
  have "reads_table A r ?vm (relocations r) (relocations_size r) main"
    by (rule reads_table_same [OF main same])
  from apply_table_updates [OF w res2 this ok2 [unfolded applicable_same [OF res2 same]], of e1] obtain e2
    where t2: "apply_table arch r symbols lookup (relocations r) (relocations_size r) e1 ?vm =
      (True, e2, modify_words read_addr write_addr (?us ?vm main) ?vm)"
    by blast
  have "apply_tables arch r symbols lookup err vm =
      (True, e2, modify_words read_addr write_addr (?us ?vm main) ?vm)"
    using rtype t1 t2 by (auto simp: apply_tables_def apply_table_def split: if_splits)
  moreover have "?us vm rs = ?us vm plt @ ?us ?vm main"
    unfolding updates_same [OF res2 same, symmetric] by (simp add: rs updates_def)
  ultimately show ?thesis by (simp add: modify_words_append)
qed

lemma sys_mprotect_bytes: "sys_mprotect refuse a l f vm = (ret, vm') \<Longrightarrow> vm_byte vm' = vm_byte vm"
  by (auto simp: sys_mprotect_def vm_set_prot_def split: if_splits)

lemma sys_mprotect_granted: "\<not> refuse a l \<Longrightarrow> sys_mprotect refuse a l f vm = (ret, vm') \<Longrightarrow> ret = 0"
  by (simp add: sys_mprotect_def)

lemma set_load_prot_bytes:
  "vm_byte (snd (phdr_table_set_load_prot (sys_mprotect refuse) phs B flags vm)) = vm_byte vm"
  by (induction phs arbitrary: vm) (auto simp: Let_def split: prod.splits dest: sys_mprotect_bytes)

lemma set_load_prot_granted:
  assumes "\<And>a l. \<not> refuse a l"
  shows "fst (phdr_table_set_load_prot (sys_mprotect refuse) phs B flags vm) = 0"
  by (induction phs arbitrary: vm) (auto simp: Let_def split: prod.splits dest: sys_mprotect_granted [OF assms])

lemma set_load_prot_if:
  assumes "(if c then phdr_table_set_load_prot (sys_mprotect refuse) phs B flags vm else (0, vm)) = (ret, vm')"
    and "c \<Longrightarrow> (\<And>a l. \<not> refuse a l)"
  shows "ret = 0 \<and> vm_byte vm' = vm_byte vm"
proof (cases c)
  case True
  then show ?thesis
    using assms set_load_prot_granted [of refuse phs B flags vm] set_load_prot_bytes [of refuse phs B flags vm] by simp
next
  case False
  then show ?thesis using assms by simp
qed

lemma read_addr_bytes: "vm_byte vm = vm_byte vm' \<Longrightarrow> read_addr vm a = read_addr vm' a"
  by (simp add: read_addr_def le_at_def mem_from_def)

lemma modify_words_bytes:
  "vm_byte vm = vm_byte vm' \<Longrightarrow>
   vm_byte (modify_words read_addr write_addr us vm) = vm_byte (modify_words read_addr write_addr us vm')"
proof (induction us arbitrary: vm vm')
  case (Cons u us)
  have "vm_byte (write_addr vm a v) = vm_byte (write_addr vm' a v)" for a v
    using Cons.prems by (simp add: write_addr_def fun_eq_iff)
  from Cons.IH [OF this] show ?case by (simp add: read_addr_bytes [OF Cons.prems])
qed simp

lemma same_bytes: "vm_byte vm = vm_byte vm' \<Longrightarrow> same_on A vm vm'"
  by (simp add: same_on_def)

lemma ApplyAll_updates:
  fixes vm :: "('w::len) word vm"
  assumes w: "elf_width LENGTH('w)" and arch: "arch \<noteq> MIPS" and res: "resolver_reads A symbols lookup (set rs)"
    and rtype: "relocations_type r = DT_REL \<or> relocations_type r = DT_RELA"
    and tabs: "reads_tables A r vm rs"
    and ok: "applicable A arch (reloc_value arch r) (rl_load_bias r) symbols lookup vm rs"
    and granted: "has_text_relocations r \<Longrightarrow> (\<And>a l. \<not> refuse a l)"
  shows "\<exists>err' vm'. ApplyAll arch refuse r symbols lookup err vm = (True, err', vm') \<and>
     vm_byte vm' = vm_byte (modify_words read_addr write_addr
        (updates arch (reloc_value arch r) (rl_load_bias r) symbols lookup vm rs) vm)"
proof -
  let ?us = "updates arch (reloc_value arch r) (rl_load_bias r) symbols lookup"
  let ?open = "if has_text_relocations r
     then phdr_table_unprotect_segments (sys_mprotect refuse) (phdrs_at vm (rl_phdr r) (rl_phdr_count r))
            (rl_load_bias r) vm else (0, vm)"
  obtain ret1 vm1 where o: "?open = (ret1, vm1)" by fastforce
  have "ret1 = 0" and b1: "vm_byte vm1 = vm_byte vm"
    using set_load_prot_if [OF o [unfolded phdr_table_unprotect_segments_def] granted] by auto
  have same: "same_on A vm vm1" using b1 by (simp add: same_bytes)
  have "applicable A arch (reloc_value arch r) (rl_load_bias r) symbols lookup vm1 rs"
    using ok applicable_same [OF res same] by blast
  from apply_tables_updates [OF w res rtype reads_tables_same [OF tabs same] this] obtain e2
    where t: "apply_tables arch r symbols lookup err vm1 = (True, e2, modify_words read_addr write_addr (?us vm1 rs) vm1)"
    by blast
  let ?vm2 = "modify_words read_addr write_addr (?us vm1 rs) vm1"
  let ?close = "if has_text_relocations r
     then phdr_table_protect_segments (sys_mprotect refuse) (phdrs_at ?vm2 (rl_phdr r) (rl_phdr_count r))
            (rl_load_bias r) ?vm2 else (0, ?vm2)"
  obtain ret3 vm3 where c: "?close = (ret3, vm3)" by fastforce
  have "ret3 = 0" and b3: "vm_byte vm3 = vm_byte ?vm2"
    using set_load_prot_if [OF c [unfolded phdr_table_protect_segments_def] granted] by auto
  have "ApplyAll arch refuse r symbols lookup err vm = (True, e2, vm3)"
    unfolding ApplyAll_def o Let_def prod.case t using arch c \<open>ret1 = 0\<close> \<open>ret3 = 0\<close> by simp
  moreover have "vm_byte vm3 = vm_byte (modify_words read_addr write_addr (?us vm rs) vm)"
    unfolding b3 updates_same [OF res same, symmetric] by (rule modify_words_bytes [OF b1])
  ultimately show ?thesis by blast
qed

section \<open>Relocating a copy\<close>

text \<open>The entries \<open>CopyAndRelocate\<close> adjusts, and where their words lie in the copy.\<close>

definition adjusted :: "arch \<Rightarrow> ('w::len) word \<Rightarrow> 'w word \<Rightarrow> 'w word \<Rightarrow> 'w word elf_rel \<Rightarrow> bool" where
  "adjusted arch B src len r \<longleftrightarrow>
     entry_type r \<noteq> 0 \<and> entry_sym r = 0 \<and> relative_type arch = Some (entry_type r) \<and>
     \<not> (r_offset r + B < src \<or> r_offset r + B \<ge> src + len)"

definition copy_updates ::
  "arch \<Rightarrow> ('w::len) word \<Rightarrow> 'w word \<Rightarrow> 'w word \<Rightarrow> 'w word \<Rightarrow> 'w word \<Rightarrow> 'w word elf_rel list \<Rightarrow>
     ('w word \<times> ('w word \<Rightarrow> 'w word)) list" where
  "copy_updates arch B src dst map_addr len rs =
     map (\<lambda>r. (r_offset r + B + (dst - src), \<lambda>v. v + (map_addr - src))) (filter (adjusted arch B src len) rs)"

lemma Relocate_loop_updates:
  fixes vm :: "('w::len) word vm"
  assumes w: "elf_width LENGTH('w)" and tab: "table_in A entry sz vm rel rs"
    and out: "\<And>u. u \<in> set (copy_updates arch B src dst map_addr len rs) \<Longrightarrow> addr_footprint (fst u) \<inter> A = {}"
  shows "Relocate_loop arch entry sz B src dst map_addr len (length rs) rel vm =
     modify_words read_addr write_addr (copy_updates arch B src dst map_addr len rs) vm"
  using tab out
proof (induction rs arbitrary: rel vm)
  case Nil
  then show ?case by (simp add: copy_updates_def)
next
  case (Cons r rs)
  from table_in_step [OF Cons.prems(1)] have r: "entry vm rel = r"
    and tab: "table_in A entry sz vm (rel + word_of_nat sz) rs" by auto
  have rest: "addr_footprint (fst u) \<inter> A = {}" if "u \<in> set (copy_updates arch B src dst map_addr len rs)" for u
    using Cons.prems(2) [of u] that by (auto simp: copy_updates_def)
  show ?case
  proof (cases "adjusted arch B src len r")
    case False
    then have "Relocate_loop arch entry sz B src dst map_addr len (length (r # rs)) rel vm =
        Relocate_loop arch entry sz B src dst map_addr len (length rs) (rel + word_of_nat sz) vm"
      by (auto simp: r Let_def adjusted_def entry_type_def entry_sym_def AdjustRelocation_def)
    then show ?thesis using Cons.IH [OF tab rest] False by (simp add: copy_updates_def)
  next
    case True
    let ?p = "r_offset r + B + (dst - src)"
    let ?vm = "write_addr vm ?p (read_addr vm ?p + (map_addr - src))"
    have "addr_footprint ?p \<inter> A = {}"
      using Cons.prems(2) [of "(?p, \<lambda>v. v + (map_addr - src))"] True by (simp add: copy_updates_def)
    then have same: "same_on A vm ?vm" by (rule same_on_write [OF w])
    have "Relocate_loop arch entry sz B src dst map_addr len (length (r # rs)) rel vm =
        Relocate_loop arch entry sz B src dst map_addr len (length rs) (rel + word_of_nat sz) ?vm"
      using True by (simp add: r Let_def adjusted_def entry_type_def entry_sym_def AdjustRelocation_def)
    then show ?thesis
      using Cons.IH [OF table_in_same [OF tab same] rest] True by (simp add: copy_updates_def)
  qed
qed

lemma unat_inside:
  fixes a len :: "('w::len) word"
  assumes "unat a + n \<le> unat len" "i < n"
  shows "a + word_of_nat i < len"
proof -
  have top: "unat len < 2 ^ LENGTH('w)" by (rule unsigned_less)
  then have "i < 2 ^ LENGTH('w)" using assms by linarith
  then have i: "unat (word_of_nat i :: 'w word) = i" by (rule unat_word_of_nat_small)
  then have "unat a + unat (word_of_nat i :: 'w word) < 2 ^ LENGTH('w)" using assms top by linarith
  then have "unat (a + word_of_nat i) = unat a + i" using i by (simp add: unat_plus_small)
  with assms show ?thesis by (simp add: word_less_nat_alt)
qed

text \<open>A word that lies inside the source range lies inside the copy, where it has the same value.\<close>

lemma copied_word:
  fixes vm :: "('w::len) word vm"
  assumes "unat (p - src) + addr_size LENGTH('w) \<le> unat len"
  shows "read_addr (vm_memcpy dst src len vm) (p + (dst - src)) = read_addr vm p"
proof -
  have "mem_from (vm_memcpy dst src len vm) (p + (dst - src)) i = mem_from vm p i"
    if "i < addr_size LENGTH('w)" for i
  proof -
    have "p - src + word_of_nat i < len" by (rule unat_inside [OF assms that])
    then have "in_range (p + (dst - src) + word_of_nat i) dst len"
      by (simp add: in_range_def algebra_simps)
    then show ?thesis by (simp add: mem_from_def vm_memcpy_def vm_set_bytes_def algebra_simps)
  qed
  then have "map (\<lambda>i. mem_from (vm_memcpy dst src len vm) (p + (dst - src)) (0 + i)) [0..<addr_size LENGTH('w)] =
      map (\<lambda>i. mem_from vm p (0 + i)) [0..<addr_size LENGTH('w)]"
    by simp
  then show ?thesis by (simp only: read_addr_def le_at_def)
qed

lemma copied_footprint:
  fixes p :: "('w::len) word"
  assumes "unat (p - src) + addr_size LENGTH('w) \<le> unat len" "x \<in> addr_footprint (p + (dst - src))"
  shows "in_range x dst len"
proof -
  from assms(2) obtain i where i: "i < addr_size LENGTH('w)" "x = p + (dst - src) + word_of_nat i"
    by (auto simp: addr_footprint_def)
  have "p - src + word_of_nat i < len" by (rule unat_inside [OF assms(1) i(1)])
  then show ?thesis by (simp add: i(2) in_range_def algebra_simps)
qed

lemma Relocate_reads_table:
  fixes vm :: "('w::len) word vm"
  assumes w: "elf_width LENGTH('w)" and rtype: "relocations_type r = DT_REL \<or> relocations_type r = DT_RELA"
    and tab: "reads_table A r vm (relocations r) (relocations_size r) rs" "relocations r \<noteq> 0"
    and out: "\<And>u. u \<in> set (copy_updates arch (rl_load_bias r) src dst map_addr len rs) \<Longrightarrow>
        addr_footprint (fst u) \<inter> A = {}"
  shows "(if relocations_type r = DT_REL then RelocateRel arch r src dst map_addr len vm
      else if relocations_type r = DT_RELA then RelocateRela arch r src dst map_addr len vm else vm) =
     modify_words read_addr write_addr (copy_updates arch (rl_load_bias r) src dst map_addr len rs) vm"
proof (cases "relocations_type r = DT_REL")
  case True
  with tab have "relocations_size r div sizeof_Rel LENGTH('w) = length rs"
    "table_in A rel_at (sizeof_Rel LENGTH('w)) vm (relocations r) rs" by (auto simp: reads_table_def)
  with True Relocate_loop_updates [OF w _ out] show ?thesis by (simp add: RelocateRel_def)
next
  case False
  with tab have "relocations_size r div sizeof_Rela LENGTH('w) = length rs"
    "table_in A rela_at (sizeof_Rela LENGTH('w)) vm (relocations r) rs" by (auto simp: reads_table_def)
  with False rtype Relocate_loop_updates [OF w _ out] show ?thesis by (simp add: RelocateRela_def)
qed

text \<open>What \<open>CopyAndRelocate\<close> relies on: its table is in \<open>A\<close>, which the copy does not overwrite, and the
  words to adjust are disjoint words of the source range.\<close>

definition copy_ok ::
  "'w word set \<Rightarrow> arch \<Rightarrow> ('w::len) word elf_relocations \<Rightarrow> 'w word \<Rightarrow> 'w word \<Rightarrow> 'w word \<Rightarrow> 'w word vm \<Rightarrow>
     'w word elf_rel list \<Rightarrow> bool" where
  "copy_ok A arch r src dst len vm rs \<longleftrightarrow>
     (relocations_type r = DT_REL \<or> relocations_type r = DT_RELA) \<and> relocations r \<noteq> 0 \<and>
     (arch = MIPS \<longrightarrow> plt_got r = 0) \<and>
     reads_table A r vm (relocations r) (relocations_size r) rs \<and>
     (\<forall>x \<in> A. \<not> in_range x dst len) \<and>
     (\<forall>e \<in> set (filter (adjusted arch (rl_load_bias r) src len) rs).
        unat (r_offset e + rl_load_bias r - src) + addr_size LENGTH('w) \<le> unat len) \<and>
     sorted_wrt (\<lambda>e e'. addr_footprint (r_offset e + rl_load_bias r + (dst - src)) \<inter>
         addr_footprint (r_offset e' + rl_load_bias r + (dst - src)) = {})
       (filter (adjusted arch (rl_load_bias r) src len) rs)"

lemma CopyAndRelocate_updates:
  fixes vm :: "('w::len) word vm"
  assumes w: "elf_width LENGTH('w)" and ok: "copy_ok A arch r src dst len vm rs"
  shows "CopyAndRelocate arch r src dst map_addr len vm =
     modify_words read_addr write_addr (copy_updates arch (rl_load_bias r) src dst map_addr len rs)
       (vm_memcpy dst src len vm)"
proof -
  have "same_on A vm (vm_memcpy dst src len vm)"
    using ok by (auto simp: copy_ok_def same_on_def vm_memcpy_def vm_set_bytes_def)
  then have tab: "reads_table A r (vm_memcpy dst src len vm) (relocations r) (relocations_size r) rs"
    using ok reads_table_same by (auto simp: copy_ok_def)
  have out: "addr_footprint (fst u) \<inter> A = {}"
    if u: "u \<in> set (copy_updates arch (rl_load_bias r) src dst map_addr len rs)" for u
  proof -
    from u obtain e where e: "e \<in> set (filter (adjusted arch (rl_load_bias r) src len) rs)"
      "fst u = r_offset e + rl_load_bias r + (dst - src)" by (auto simp: copy_updates_def)
    with ok have "unat (r_offset e + rl_load_bias r - src) + addr_size LENGTH('w) \<le> unat len"
      unfolding copy_ok_def by blast
    from copied_footprint [OF this] e(2) ok show ?thesis unfolding copy_ok_def by auto
  qed
  show ?thesis
    using ok Relocate_reads_table [OF w _ tab _ out] by (auto simp: CopyAndRelocate_def Let_def copy_ok_def)
qed

section \<open>The scan of the dynamic table\<close>

lemma dyn_step_facts:
  assumes "ElfRelocations_dyn arch tag v a (r, ra, re) = Inr (r', ra', re')"
  shows "ra' \<longleftrightarrow> ra \<or> tag \<in> {DT_RELA, DT_RELASZ}"
    and "re' \<longleftrightarrow> re \<or> tag \<in> {DT_REL, DT_RELSZ}"
    and "has_text_relocations r' \<longleftrightarrow> has_text_relocations r \<or> tag = DT_TEXTREL \<or> tag = DT_FLAGS \<and> unat v AND DF_TEXTREL \<noteq> 0"
    and "tag \<in> {DT_REL, DT_RELA} \<Longrightarrow> relocations r' = a"
    and "relocations r \<noteq> 0 \<Longrightarrow> relocations r' = relocations r"
  using assms by (auto simp: ElfRelocations_dyn_def Let_def DT_defs split: if_splits)

lemma scan_facts:
  assumes "ElfRelocations_scan arch vm B ds (r, ra, re) = Inr (r', ra', re')"
  shows "(ra' \<longleftrightarrow> ra \<or> (\<exists>d \<in> set ds. unat (dyn_GetTag vm d) \<in> {DT_RELA, DT_RELASZ})) \<and>
    (re' \<longleftrightarrow> re \<or> (\<exists>d \<in> set ds. unat (dyn_GetTag vm d) \<in> {DT_REL, DT_RELSZ})) \<and>
    (has_text_relocations r' \<longleftrightarrow> has_text_relocations r \<or> (\<exists>d \<in> set ds. unat (dyn_GetTag vm d) = DT_TEXTREL \<or>
        unat (dyn_GetTag vm d) = DT_FLAGS \<and> unat (dyn_GetValue vm d) AND DF_TEXTREL \<noteq> 0)) \<and>
    (\<forall>d \<in> set ds. unat (dyn_GetTag vm d) \<in> {DT_REL, DT_RELA} \<longrightarrow> dyn_GetAddress vm B d \<in> {0, relocations r'}) \<and>
    (relocations r \<noteq> 0 \<longrightarrow> relocations r' = relocations r)"
  using assms
proof (induction ds arbitrary: r ra re)
  case (Cons d ds)
  then obtain r1 ra1 re1 where step: "ElfRelocations_dyn arch (unat (dyn_GetTag vm d)) (dyn_GetValue vm d)
      (dyn_GetAddress vm B d) (r, ra, re) = Inr (r1, ra1, re1)"
    and rest: "ElfRelocations_scan arch vm B ds (r1, ra1, re1) = Inr (r', ra', re')"
    by (auto split: sum.splits)
  have "dyn_GetAddress vm B d \<in> {0, relocations r'}" if "unat (dyn_GetTag vm d) \<in> {DT_REL, DT_RELA}"
    using Cons.IH [OF rest] dyn_step_facts(4) [OF step that] by auto
  moreover have "relocations r \<noteq> 0 \<longrightarrow> relocations r' = relocations r"
    using Cons.IH [OF rest] dyn_step_facts(5) [OF step] by auto
  ultimately show ?case
    using Cons.IH [OF rest] dyn_step_facts(1-3) [OF step] by simp
qed simp

section \<open>The width of an addend\<close>

lemma sword_addend_exact:
  assumes "n < 2 ^ 64"
  shows "sword_addend n = (word_of_nat n :: 64 word) \<longleftrightarrow> n < 2 ^ 31 \<or> 2 ^ 64 - 2 ^ 31 \<le> n"
proof -
  let ?s = "(int n + 2 ^ 31) mod 2 ^ 32 - 2 ^ 31"
  have "sint (word_of_nat n :: 32 word) = ?s"
    by (simp add: sint_uint unsigned_of_nat signed_take_bit_eq_take_bit_shift take_bit_eq_mod
        zmod_int mod_simps)
  then have "sword_addend n = (word_of_int ?s :: 64 word)"
    by (simp add: sword_addend_def scast_eq)
  moreover have "(word_of_int ?s :: 64 word) = word_of_int (int n) \<longleftrightarrow> ?s mod 2 ^ 64 = int n mod 2 ^ 64"
    unfolding word_of_int_eq_iff take_bit_eq_mod by simp
  ultimately have "sword_addend n = (word_of_nat n :: 64 word) \<longleftrightarrow> ?s mod 2 ^ 64 = int n mod 2 ^ 64"
    by simp
  also have "\<dots> \<longleftrightarrow> n < 2 ^ 31 \<or> 2 ^ 64 - 2 ^ 31 \<le> n"
  proof -
    define q where "q = (int n + 2 ^ 31) div 2 ^ 32"
    have s: "?s - int n = 2 ^ 32 * (- q)"
      unfolding q_def minus_mult_div_eq_mod [symmetric] by simp
    have q: "0 \<le> q" "q \<le> 2 ^ 32" "q = 0 \<longleftrightarrow> n < 2 ^ 31" "q = 2 ^ 32 \<longleftrightarrow> 2 ^ 64 - 2 ^ 31 \<le> n"
      using assms unfolding q_def by auto
    have "?s mod 2 ^ 64 = int n mod 2 ^ 64 \<longleftrightarrow> (2 ^ 32 * 2 ^ 32 :: int) dvd 2 ^ 32 * (- q)"
      unfolding mod_eq_dvd_iff s by simp
    also have "\<dots> \<longleftrightarrow> 2 ^ 32 dvd q"
      by (subst dvd_times_left_cancel_iff) (simp_all only: power_not_zero zero_neq_numeral dvd_minus_iff not_False_eq_True)
    also have "\<dots> \<longleftrightarrow> q = 0 \<or> q = 2 ^ 32"
      using q(1,2) by (auto dest: zdvd_imp_le)
    finally show ?thesis using q(3,4) by simp
  qed
  finally show ?thesis .
qed

section \<open>An example image\<close>

text \<open>A 32-bit image with a one-entry \<open>Rel\<close> table at 0x20: a relative relocation of the word at 0x1100.\<close>

definition rel_image :: "32 word vm" where
  "rel_image = write_addr (write_addr (write_addr zero_vm 0x20 0x100) 0x24 23) 0x1100 5"

definition rel_example :: "32 word elf_relocations" where
  "rel_example = ElfRelocations_zero\<lparr>rl_load_bias := 0x1000, relocations_type := DT_REL,
     relocations := 0x20, relocations_size := 8\<rparr>"

definition rel_entry :: "32 word elf_rel" where
  "rel_entry = \<lparr>r_offset = 0x100, r_info = 23, r_addend = 0\<rparr>"

definition rel_area :: "32 word set" where
  "rel_area = addr_footprint 0x20 \<union> addr_footprint 0x24"

lemma rel_bias: "rl_load_bias rel_example = 0x1000"
  by (simp add: rel_example_def)

lemma footprint4: "addr_footprint (a :: 32 word) = {a, a + 1, a + 2, a + 3}"
proof -
  have "{0..<4::nat} = {0, 1, 2, 3}" by auto
  then show ?thesis by (simp add: addr_footprint_def addr_size_def)
qed

lemma rel_entry_simps: "entry_type rel_entry = 23" "entry_sym rel_entry = 0"
  by (simp_all add: entry_type_def entry_sym_def rel_entry_def ELF_R_TYPE_def ELF_R_SYM_def)

lemma rel_entry_offset: "r_offset rel_entry = 0x100"
  by (simp add: rel_entry_def)

lemma rel_image_reads:
  "read_addr rel_image 0x20 = 0x100" "read_addr rel_image 0x24 = 23"
  by (simp_all add: rel_image_def mem32.rd_wr mem32.rd_wr_disjoint footprint4)

lemma rel_image_place: "read_addr rel_image 0x1100 = 5"
  by (simp add: rel_image_def mem32.rd_wr)

lemma rel_table: "table_in rel_area rel_at 8 rel_image 0x20 [rel_entry]"
  unfolding table_in_def
proof (intro allI impI)
  fix vm' assume same: "same_on rel_area rel_image vm'"
  have "read_addr vm' a = read_addr rel_image a" if "addr_footprint a \<subseteq> rel_area" for a
    using same that by (intro mem32.rd_local) (auto simp: same_on_def)
  then show "table_at rel_at 8 vm' 0x20 [rel_entry]"
    by (simp add: rel_at_def rel_entry_def rel_image_reads rel_area_def addr_size_def)
qed

lemma rel_tables: "reads_tables rel_area rel_example rel_image [rel_entry]"
  using rel_table by (simp add: reads_tables_def reads_table_def rel_example_def ElfRelocations_zero_def
      sizeof_Rel_def addr_size_def)

section \<open>Properties\<close>



text \<open>C11: The copy of a section holds, for every relative relocation that lies in it, the relocated
  value shifted by the distance between the source and the address the copy will be mapped at, every
  other byte of the copy is that of the source, and no byte outside the copy changes.\<close>

theorem CopyAndRelocate_shifts_copy:
  fixes vm :: "('w::len) word vm"
  assumes "elf_width LENGTH('w)" "copy_ok A arch r src dst len vm rs"
  shows "(\<forall>e \<in> set (filter (adjusted arch (rl_load_bias r) src len) rs).
        read_addr (CopyAndRelocate arch r src dst map_addr len vm) (r_offset e + rl_load_bias r + (dst - src)) =
          read_addr vm (r_offset e + rl_load_bias r) + (map_addr - src)) \<and>
     (\<forall>i < len. dst + i \<notin> (\<Union>e \<in> set (filter (adjusted arch (rl_load_bias r) src len) rs).
          addr_footprint (r_offset e + rl_load_bias r + (dst - src))) \<longrightarrow>
        vm_byte (CopyAndRelocate arch r src dst map_addr len vm) (dst + i) = vm_byte vm (src + i)) \<and>
     (\<forall>x. \<not> in_range x dst len \<longrightarrow>
        vm_byte (CopyAndRelocate arch r src dst map_addr len vm) x = vm_byte vm x)"
proof -
  let ?es = "filter (adjusted arch (rl_load_bias r) src len) rs"
  let ?us = "copy_updates arch (rl_load_bias r) src dst map_addr len rs"
  let ?vm = "vm_memcpy dst src len vm"
  note run = CopyAndRelocate_updates [OF assms]
  have inside: "unat (r_offset e + rl_load_bias r - src) + addr_size LENGTH('w) \<le> unat len" if "e \<in> set ?es" for e
    using assms(2) that unfolding copy_ok_def by blast
  have dis: "sorted_wrt (\<lambda>u u'. addr_footprint (fst u) \<inter> addr_footprint (fst u') = {}) ?us"
    using assms(2) unfolding copy_ok_def by (simp add: copy_updates_def sorted_wrt_map)
  have frame: "vm_byte (modify_words read_addr write_addr ?us ?vm) x = vm_byte ?vm x"
    if "x \<notin> (\<Union>e \<in> set ?es. addr_footprint (r_offset e + rl_load_bias r + (dst - src)))" for x
    using that by (intro modify_vm_frame [OF assms(1)]) (simp add: copy_updates_def)
  have "read_addr (CopyAndRelocate arch r src dst map_addr len vm) (r_offset e + rl_load_bias r + (dst - src)) =
      read_addr vm (r_offset e + rl_load_bias r) + (map_addr - src)" if "e \<in> set ?es" for e
    using modify_vm_at [OF assms(1) dis, of "(r_offset e + rl_load_bias r + (dst - src), \<lambda>v. v + (map_addr - src))" ?vm]
      that copied_word [OF inside [OF that], where vm = vm and dst = dst] unfolding run
    by (simp add: copy_updates_def)
  moreover have "vm_byte (CopyAndRelocate arch r src dst map_addr len vm) (dst + i) = vm_byte vm (src + i)"
    if "i < len" "dst + i \<notin> (\<Union>e \<in> set ?es. addr_footprint (r_offset e + rl_load_bias r + (dst - src)))" for i
    using that(1) unfolding run frame [OF that(2)] by (simp add: vm_memcpy_def vm_set_bytes_def in_range_def)
  moreover have "vm_byte (CopyAndRelocate arch r src dst map_addr len vm) x = vm_byte vm x"
    if "\<not> in_range x dst len" for x
  proof -
    have "x \<notin> (\<Union>e \<in> set ?es. addr_footprint (r_offset e + rl_load_bias r + (dst - src)))"
      using that copied_footprint [OF inside] by blast
    from frame [OF this] that show ?thesis unfolding run by (simp add: vm_memcpy_def vm_set_bytes_def)
  qed
  ultimately show ?thesis by blast
qed

theorem CopyAndRelocate_shifts_copy_witness:
  "copy_ok rel_area ARM rel_example 0x1000 0x9000 0x1000 rel_image [rel_entry] \<and>
   read_addr (CopyAndRelocate ARM rel_example 0x1000 0x9000 0x5000 0x1000 rel_image) 0x9100 = 0x4005"
proof -
  have adj: "filter (adjusted ARM (rl_load_bias rel_example) 0x1000 0x1000) [rel_entry] = [rel_entry]"
    by (simp add: adjusted_def rel_entry_simps rel_bias rel_entry_offset relative_type_def R_ARM_RELATIVE_def)
  have tab: "reads_table rel_area rel_example rel_image 0x20 8 [rel_entry]"
    using rel_table by (simp add: reads_table_def rel_example_def ElfRelocations_zero_def sizeof_Rel_def addr_size_def)
  have ok: "copy_ok rel_area ARM rel_example 0x1000 0x9000 0x1000 rel_image [rel_entry]"
    unfolding copy_ok_def adj using tab
    by (simp add: rel_example_def rel_entry_offset rel_area_def footprint4 in_range_def addr_size_def)
  moreover have "read_addr (CopyAndRelocate ARM rel_example 0x1000 0x9000 0x5000 0x1000 rel_image) 0x9100 = 0x4005"
    using conjunct1 [OF CopyAndRelocate_shifts_copy [OF _ ok, of "0x5000"], unfolded adj]
    by (simp add: rel_entry_offset rel_bias rel_image_place)
  ultimately show ?thesis ..
qed



text \<open>The addend of a 64-bit relative relocation is cut to 32 bits: the place gets the load bias plus
  the addend exactly when the addend is the sign extension of its low 32 bits.\<close>

theorem relative_addend_is_cut:
  fixes vm :: "64 word vm"
  assumes "entry_type e = R_AARCH64_RELATIVE" "entry_sym e = 0" "r_addend e < 2 ^ 64"
  shows "\<exists>vm'. ApplyRelaReloc AARCH64 B e S res vm = Inr vm' \<and>
     (read_addr vm' (r_offset e + B) = B + word_of_nat (r_addend e) \<longleftrightarrow>
        r_addend e < 2 ^ 31 \<or> 2 ^ 64 - 2 ^ 31 \<le> r_addend e)"
proof -
  let ?a = "word_of_nat (r_addend e) :: 64 word"
  have run: "ApplyRelaReloc AARCH64 B e S res vm =
      Inr (write_addr vm (r_offset e + B) (B + sword_addend (r_addend e)))"
    using assms by (simp add: ApplyRelaReloc_def Let_def R_defs entry_type_def entry_sym_def)
  have "sword_addend (r_addend e) = ?a \<longleftrightarrow> r_addend e < 2 ^ 31 \<or> 2 ^ 64 - 2 ^ 31 \<le> r_addend e"
    by (rule sword_addend_exact [OF assms(3)])
  then show ?thesis using run by (simp add: mem64.rd_wr)
qed

theorem relative_addend_is_cut_witness:
  "\<exists>vm'. ApplyRelaReloc AARCH64 0x1000 \<lparr>r_offset = 0x100, r_info = 1027, r_addend = 2 ^ 32\<rparr> 0 False
       (write_addr \<lparr>vm_byte = \<lambda>_. 0, vm_prot = \<lambda>_. None\<rparr> 0x1100 7 :: 64 word vm) = Inr vm' \<and>
     read_addr vm' 0x1100 \<noteq> 0x1000 + 2 ^ 32"
  using relative_addend_is_cut [of "\<lparr>r_offset = 0x100, r_info = 1027, r_addend = 2 ^ 32\<rparr>" "0x1000" 0 False
      "write_addr \<lparr>vm_byte = \<lambda>_. 0, vm_prot = \<lambda>_. None\<rparr> 0x1100 7"]
  by (auto simp: entry_type_def entry_sym_def ELF_R_TYPE_def ELF_R_SYM_def R_AARCH64_RELATIVE_def)

text \<open>C12: A dynamic section that \<open>Init\<close> accepts is consistent: its relocation type is Rel or Rela, every
  relocation table entry of the section is of that type, there is at most one main table and it is the
  one recorded, and the text relocation flag is set exactly when an entry asks for it.\<close>

theorem Init_accepts_consistent:
  fixes view :: "('w::len) word elf_view"
  assumes "ElfRelocations_Init arch vm view ElfRelocations_zero = Inr r"
  defines "tag d \<equiv> unat (dyn_GetTag vm d)"
  shows "(relocations_type r = DT_REL \<or> relocations_type r = DT_RELA) \<and>
     (\<forall>d \<in> set (dynamic_entries view).
        (tag d \<in> {DT_REL, DT_RELSZ} \<longrightarrow> relocations_type r = DT_REL) \<and>
        (tag d \<in> {DT_RELA, DT_RELASZ} \<longrightarrow> relocations_type r = DT_RELA) \<and>
        (tag d \<in> {DT_REL, DT_RELA} \<longrightarrow> dyn_GetAddress vm (ev_load_bias view) d \<in> {0, relocations r})) \<and>
     (has_text_relocations r \<longleftrightarrow> (\<exists>d \<in> set (dynamic_entries view).
        tag d = DT_TEXTREL \<or> tag d = DT_FLAGS \<and> unat (dyn_GetValue vm d) AND DF_TEXTREL \<noteq> 0))"
proof -
  let ?r0 = "ElfRelocations_zero\<lparr>rl_phdr := ev_phdr view, rl_phdr_count := ev_phdr_count view,
    rl_load_bias := ev_load_bias view\<rparr> :: 'w word elf_relocations"
  obtain a b where scan: "ElfRelocations_scan arch vm (ev_load_bias view) (dynamic_entries view) (?r0, False, False) =
      Inr (r, a, b)"
    and ok: "relocations_type r = DT_REL \<or> relocations_type r = DT_RELA"
      "relocations_type r = DT_REL \<Longrightarrow> \<not> a" "relocations_type r = DT_RELA \<Longrightarrow> \<not> b"
    using assms(1) by (auto simp: ElfRelocations_Init_def Let_def split: sum.splits prod.splits if_splits)
  note facts = scan_facts [OF scan, THEN conjunct1] scan_facts [OF scan, THEN conjunct2, THEN conjunct1]
    scan_facts [OF scan, THEN conjunct2, THEN conjunct2, THEN conjunct1]
    scan_facts [OF scan, THEN conjunct2, THEN conjunct2, THEN conjunct2, THEN conjunct1]
  have "\<not> has_text_relocations ?r0" by (simp add: ElfRelocations_zero_def)
  with facts(3) have textrel: "has_text_relocations r \<longleftrightarrow> (\<exists>d \<in> set (dynamic_entries view).
        tag d = DT_TEXTREL \<or> tag d = DT_FLAGS \<and> unat (dyn_GetValue vm d) AND DF_TEXTREL \<noteq> 0)"
    unfolding tag_def by blast
  from facts(1,2,4) ok have "(\<forall>d \<in> set (dynamic_entries view).
        (tag d \<in> {DT_REL, DT_RELSZ} \<longrightarrow> relocations_type r = DT_REL) \<and>
        (tag d \<in> {DT_RELA, DT_RELASZ} \<longrightarrow> relocations_type r = DT_RELA) \<and>
        (tag d \<in> {DT_REL, DT_RELA} \<longrightarrow> dyn_GetAddress vm (ev_load_bias view) d \<in> {0, relocations r}))"
    unfolding tag_def by blast
  with ok(1) textrel show ?thesis by blast
qed

theorem Init_accepts_consistent_witness:
  "\<exists>r. ElfRelocations_Init ARM (write_addr (write_addr zero_vm 0x40 20) 0x44 17)
       (ElfView_Init\<lparr>ev_dynamic := 0x40, ev_dynamic_count := 1\<rparr>) ElfRelocations_zero = Inr r \<and>
     relocations_type r = DT_REL \<and> \<not> has_text_relocations r"
proof -
  let ?vm = "write_addr (write_addr zero_vm 0x40 20) 0x44 17 :: 32 word vm"
  let ?view = "ElfView_Init\<lparr>ev_dynamic := 0x40, ev_dynamic_count := 1\<rparr> :: 32 word elf_view"
  have rd: "read_addr ?vm 0x40 = 20" "read_addr ?vm 0x44 = 17"
    by (simp_all add: mem32.rd_wr mem32.rd_wr_disjoint footprint4)
  have es: "dynamic_entries ?view = [\<lparr>dyn_cur = 0x40, dyn_limit = 0x48\<rparr>]"
    by (simp add: dynamic_entries_def DynamicIterator_Init_def dyn_HasNext_def dyn_GetNext_def sizeof_Dyn_def)
  have vals: "dyn_GetTag ?vm \<lparr>dyn_cur = 0x40, dyn_limit = 0x48\<rparr> = 20"
    "dyn_GetValue ?vm \<lparr>dyn_cur = 0x40, dyn_limit = 0x48\<rparr> = 17"
    by (simp_all add: dyn_GetTag_def dyn_GetValue_def dyn_GetValuePointer_def addr_size_def rd)
  obtain r where r: "ElfRelocations_Init ARM ?vm ?view ElfRelocations_zero = Inr r" "relocations_type r = DT_REL"
    unfolding ElfRelocations_Init_def es
    by (simp add: vals ElfRelocations_dyn_def DT_defs ElfRelocations_zero_def Let_def)
  have "\<not> has_text_relocations r"
    using Init_accepts_consistent [OF r(1)] unfolding es by (simp add: vals DT_defs)
  with r show ?thesis by blast
qed

end
