(* ===== verification/Elf_Relro.thy ===== *)
theory Elf_Relro
  imports Elf_Relocations
begin

text \<open>
  Shared RELRO sections: \<open>MemoryMapping\<close> of \<open>crazy_linker_memory_mapping.h\<close>, \<open>AshmemRegion\<close> of
  \<open>crazy_linker_ashmem.cpp\<close> and \<open>SharedRelro\<close> of \<open>crazy_linker_elf_relro.cpp\<close>.

  The answers of the kernel are the argument \<open>k\<close>: an error number, or success with the address or
  descriptor it chose. The state of the process is its address space, the contents of the shared
  memory regions by descriptor, the shared mappings, the open descriptors and \<open>errno\<close>. A shared
  mapping is copied in when it is made and copied out when it is removed: between the two, only the
  code modelled here touches it.
\<close>

section \<open>The process\<close>

record 'addr kernel =
  k_mmap :: "'addr \<Rightarrow> 'addr \<Rightarrow> 32 word \<Rightarrow> int \<Rightarrow> int + 'addr"
  k_mprotect :: "'addr \<Rightarrow> 'addr \<Rightarrow> 32 word \<Rightarrow> int option"
  k_munmap :: "'addr \<Rightarrow> 'addr \<Rightarrow> int option"
  k_open_ashmem :: "int + int"
  k_set_size :: "int \<Rightarrow> 'addr \<Rightarrow> int option"
  k_set_name :: "int \<Rightarrow> char list \<Rightarrow> int option"
  k_set_prot_mask :: "int \<Rightarrow> 32 word \<Rightarrow> int option"

record 'addr shared_map =
  sm_start :: 'addr
  sm_len :: 'addr
  sm_fd :: int
  sm_offset :: nat

record 'addr process =
  pr_vm :: "'addr vm"
  pr_region :: "int \<Rightarrow> nat \<Rightarrow> byte"
  pr_shared :: "'addr shared_map list"
  pr_open :: "int set"
  pr_errno :: int

definition EPERM :: int where "EPERM = 1"
definition EACCES :: int where "EACCES = 13"

text \<open>\<open>mmap\<close> with \<open>MAP_SHARED\<close>: the address, or \<^term>\<open>None\<close> for \<open>MAP_FAILED\<close> with \<open>errno\<close> set.\<close>

definition proc_mmap ::
  "('w::len) word kernel \<Rightarrow> 'w word \<Rightarrow> 'w word \<Rightarrow> 32 word \<Rightarrow> int \<Rightarrow> nat \<Rightarrow> 'w word process \<Rightarrow>
     'w word option \<times> 'w word process" where
  "proc_mmap k addr len prot fd offset s =
     (case k_mmap k addr len prot fd of
        Inl e \<Rightarrow> (None, s\<lparr>pr_errno := e\<rparr>)
      | Inr a \<Rightarrow> (Some a,
          s\<lparr>pr_vm := vm_set_prot a (PAGE_END len) (Some prot)
                      (vm_set_bytes a (PAGE_END len) (\<lambda>i. pr_region s fd (offset + unat i)) (pr_vm s)),
            pr_shared := \<lparr>sm_start = a, sm_len = len, sm_fd = fd, sm_offset = offset\<rparr> # pr_shared s\<rparr>))"

definition flush_map :: "('w::len) word vm \<Rightarrow> 'w word shared_map \<Rightarrow> (int \<Rightarrow> nat \<Rightarrow> byte) \<Rightarrow> int \<Rightarrow> nat \<Rightarrow> byte" where
  "flush_map vm m region =
     region(sm_fd m := (\<lambda>i. if sm_offset m \<le> i \<and> i < sm_offset m + unat (sm_len m)
                            then vm_byte vm (sm_start m + word_of_nat (i - sm_offset m)) else region (sm_fd m) i))"

definition proc_munmap ::
  "('w::len) word kernel \<Rightarrow> 'w word \<Rightarrow> 'w word \<Rightarrow> 'w word process \<Rightarrow> bool \<times> 'w word process" where
  "proc_munmap k addr len s =
     (case k_munmap k addr len of
        Some e \<Rightarrow> (False, s\<lparr>pr_errno := e\<rparr>)
      | None \<Rightarrow>
          let gone = filter (\<lambda>m. sm_start m = addr \<and> sm_len m = len) (pr_shared s) in
          (True, s\<lparr>pr_vm := sys_munmap addr len (pr_vm s),
                   pr_region := fold (flush_map (pr_vm s)) gone (pr_region s),
                   pr_shared := filter (\<lambda>m. \<not> (sm_start m = addr \<and> sm_len m = len)) (pr_shared s)\<rparr>))"

section \<open>MemoryMapping\<close>

record 'addr memory_mapping =
  mm_map :: 'addr
  mm_size :: 'addr

definition MemoryMapping_Init :: "('w::len) word memory_mapping" where
  "MemoryMapping_Init = \<lparr>mm_map = 0, mm_size = 0\<rparr>"

definition MemoryMapping_Allocate ::
  "('w::len) word kernel \<Rightarrow> 'w word \<Rightarrow> 'w word \<Rightarrow> 32 word \<Rightarrow> int \<Rightarrow> 'w word process \<Rightarrow>
     bool \<times> 'w word memory_mapping \<times> 'w word process" where
  "MemoryMapping_Allocate k address len prot fd s =
     (case proc_mmap k address len prot fd 0 s of
        (None, s) \<Rightarrow> (False, \<lparr>mm_map = 0, mm_size = len\<rparr>, s)
      | (Some a, s) \<Rightarrow> (True, \<lparr>mm_map = a, mm_size = len\<rparr>, s))"

definition MemoryMapping_SetProtection ::
  "('w::len) word kernel \<Rightarrow> 'w word memory_mapping \<Rightarrow> 32 word \<Rightarrow> 'w word process \<Rightarrow> bool \<times> 'w word process" where
  "MemoryMapping_SetProtection k m prot s =
     (if mm_map m = 0 then (False, s)
      else case k_mprotect k (mm_map m) (mm_size m) prot of
        Some e \<Rightarrow> (False, s\<lparr>pr_errno := e\<rparr>)
      | None \<Rightarrow> (True, s\<lparr>pr_vm := vm_set_prot (mm_map m) (PAGE_END (mm_size m)) (Some prot) (pr_vm s)\<rparr>))"

definition MemoryMapping_Deallocate ::
  "('w::len) word kernel \<Rightarrow> 'w word memory_mapping \<Rightarrow> 'w word process \<Rightarrow> 'w word memory_mapping \<times> 'w word process" where
  "MemoryMapping_Deallocate k m s =
     (if mm_map m \<noteq> 0 then (m\<lparr>mm_map := 0\<rparr>, snd (proc_munmap k (mm_map m) (mm_size m) s)) else (m, s))"

definition ScopedMemoryMapping_Release ::
  "('w::len) word memory_mapping \<Rightarrow> 'w word \<times> 'w word memory_mapping" where
  "ScopedMemoryMapping_Release m = (mm_map m, m\<lparr>mm_map := 0\<rparr>)"

section \<open>AshmemRegion\<close>

text \<open>A region is its descriptor, -1 when it has none.\<close>

definition proc_close :: "int \<Rightarrow> ('w::len) word process \<Rightarrow> 'w word process" where
  "proc_close fd s = s\<lparr>pr_open := pr_open s - {fd}\<rparr>"

definition AshmemRegion_Release :: "int \<Rightarrow> int \<times> int" where
  "AshmemRegion_Release fd = (fd, - 1)"

definition AshmemRegion_Reset :: "int \<Rightarrow> int \<Rightarrow> ('w::len) word process \<Rightarrow> int \<times> 'w word process" where
  "AshmemRegion_Reset old fd s = (fd, if old \<noteq> - 1 then proc_close old s else s)"

definition AshmemRegion_Allocate ::
  "('w::len) word kernel \<Rightarrow> 'w word \<Rightarrow> char list option \<Rightarrow> int \<Rightarrow> 'w word process \<Rightarrow> bool \<times> int \<times> 'w word process" where
  "AshmemRegion_Allocate k region_size region_name old s =
     (case k_open_ashmem k of
        Inl e \<Rightarrow> (False, old, s\<lparr>pr_errno := e\<rparr>)
      | Inr fd \<Rightarrow>
          let s = s\<lparr>pr_open := insert fd (pr_open s), pr_region := (pr_region s)(fd := \<lambda>_. 0)\<rparr> in
          case k_set_size k fd region_size of
            Some e \<Rightarrow> (False, old, proc_close fd (s\<lparr>pr_errno := e\<rparr>))
          | None \<Rightarrow>
              (case (case region_name of None \<Rightarrow> None | Some n \<Rightarrow> k_set_name k fd (take 255 n)) of
                 Some e \<Rightarrow> (False, old, proc_close fd (s\<lparr>pr_errno := e\<rparr>))
               | None \<Rightarrow> (True, AshmemRegion_Reset old fd s)))"

definition AshmemRegion_SetProtectionFlags ::
  "('w::len) word kernel \<Rightarrow> int \<Rightarrow> 32 word \<Rightarrow> 'w word process \<Rightarrow> bool \<times> 'w word process" where
  "AshmemRegion_SetProtectionFlags k fd prot s =
     (case k_set_prot_mask k fd prot of Some e \<Rightarrow> (False, s\<lparr>pr_errno := e\<rparr>) | None \<Rightarrow> (True, s))"

definition CheckFileDescriptorIsReadOnly ::
  "('w::len) word kernel \<Rightarrow> int \<Rightarrow> 'w word process \<Rightarrow> bool \<times> 'w word process" where
  "CheckFileDescriptorIsReadOnly k fd s =
     (case MemoryMapping_Allocate k 0 4096 PROT_WRITE fd s of (ok, mp, s) \<Rightarrow>
      if ok then (False, snd (MemoryMapping_Deallocate k mp (s\<lparr>pr_errno := EPERM\<rparr>)))
      else if pr_errno s \<noteq> EPERM then (False, snd (MemoryMapping_Deallocate k mp s))
      else case MemoryMapping_Allocate k 0 4096 PROT_READ fd s of (ok, mp, s) \<Rightarrow>
      if \<not> ok then (False, snd (MemoryMapping_Deallocate k mp s))
      else case MemoryMapping_SetProtection k mp (PROT_READ OR PROT_WRITE) s of (ok, s) \<Rightarrow>
      if ok then (False, snd (MemoryMapping_Deallocate k mp s))
      else if pr_errno s \<noteq> EACCES then (False, snd (MemoryMapping_Deallocate k mp s))
      else (True, snd (MemoryMapping_Deallocate k mp s)))"

section \<open>SharedRelro\<close>

datatype 'addr relro_error =
  CouldNotUnmap 'addr
| CouldNotMap 'addr
| CouldNotAllocateRegion
| CouldNotAllocateMapping
| RelocationError "'addr reloc_error"
| CouldNotMakeReadOnly
| NotReadOnly
| CannotMapReadOnly

record 'addr shared_relro =
  sr_start :: 'addr
  sr_size :: 'addr
  sr_ashmem :: int

definition SharedRelro_Init :: "('w::len) word shared_relro" where
  "SharedRelro_Init = \<lparr>sr_start = 0, sr_size = 0, sr_ashmem = - 1\<rparr>"

definition SharedRelro_end :: "('w::len) word shared_relro \<Rightarrow> 'w word" where
  "SharedRelro_end r = sr_start r + sr_size r"

definition SharedRelro_DetachFd :: "('w::len) word shared_relro \<Rightarrow> int \<times> 'w word shared_relro" where
  "SharedRelro_DetachFd r = (sr_ashmem r, r\<lparr>sr_ashmem := - 1\<rparr>)"

definition PageEquals :: "('w::len) word vm \<Rightarrow> 'w word \<Rightarrow> 'w word \<Rightarrow> bool" where
  "PageEquals vm p1 p2 \<longleftrightarrow> (\<forall>i < 4096. vm_byte vm (p1 + word_of_nat i) = vm_byte vm (p2 + word_of_nat i))"

definition SwapPagesFromFd ::
  "('w::len) word kernel \<Rightarrow> 'w word \<Rightarrow> 'w word \<Rightarrow> int \<Rightarrow> nat \<Rightarrow> 'w word process \<Rightarrow>
     'w word relro_error option \<times> 'w word process" where
  "SwapPagesFromFd k addr len fd offset s =
     (case proc_munmap k addr len s of (ok, s) \<Rightarrow>
      if \<not> ok then (Some (CouldNotUnmap addr), s)
      else case proc_mmap k addr len PROT_READ fd offset s of
        (None, s) \<Rightarrow> (Some (CouldNotMap addr), s)
      | (Some new_map, s) \<Rightarrow> (None, s))"

definition SharedRelro_Allocate ::
  "('w::len) word kernel \<Rightarrow> 'w word \<Rightarrow> char list \<Rightarrow> 'w word shared_relro \<Rightarrow> 'w word process \<Rightarrow>
     'w word relro_error option \<times> 'w word shared_relro \<times> 'w word process" where
  "SharedRelro_Allocate k relro_size library_name r s =
     (case AshmemRegion_Allocate k relro_size (Some (''RELRO:'' @ library_name)) (sr_ashmem r) s of (ok, fd, s) \<Rightarrow>
      if \<not> ok then (Some CouldNotAllocateRegion, r\<lparr>sr_ashmem := fd\<rparr>, s)
      else (None, r\<lparr>sr_ashmem := fd, sr_start := 0, sr_size := relro_size\<rparr>, s))"

definition SharedRelro_CopyFrom ::
  "('w::len) word kernel \<Rightarrow> 'w word \<Rightarrow> 'w word \<Rightarrow> 'w word shared_relro \<Rightarrow> 'w word process \<Rightarrow>
     'w word relro_error option \<times> 'w word shared_relro \<times> 'w word process" where
  "SharedRelro_CopyFrom k relro_start relro_size r s =
     (case MemoryMapping_Allocate k 0 relro_size PROT_WRITE (sr_ashmem r) s of (ok, mp, s) \<Rightarrow>
      if \<not> ok then (Some CouldNotAllocateMapping, r, s)
      else
        let s = s\<lparr>pr_vm := vm_memcpy (mm_map mp) relro_start relro_size (pr_vm s)\<rparr>;
            (mp, s) = MemoryMapping_Deallocate k mp s
        in (None, r\<lparr>sr_start := relro_start, sr_size := relro_size\<rparr>, s))"

definition SharedRelro_CopyFromRelocated ::
  "arch \<Rightarrow> ('w::len) word kernel \<Rightarrow> 'w word elf_view \<Rightarrow> 'w word \<Rightarrow> 'w word \<Rightarrow> 'w word \<Rightarrow> 'w word shared_relro \<Rightarrow>
     'w word process \<Rightarrow> 'w word relro_error option \<times> 'w word shared_relro \<times> 'w word process" where
  "SharedRelro_CopyFromRelocated arch k view load_addr relro_start relro_size r s =
     (let relro_offset = relro_start - ev_load_address view in
      case ElfRelocations_Init arch (pr_vm s) view ElfRelocations_zero of
        Inl e \<Rightarrow> (Some (RelocationError e), r, s)
      | Inr relocs \<Rightarrow>
          (case MemoryMapping_Allocate k 0 relro_size (PROT_READ OR PROT_WRITE) (sr_ashmem r) s of (ok, mp, s) \<Rightarrow>
           if \<not> ok then (Some CouldNotAllocateMapping, r, s)
           else
             let s = s\<lparr>pr_vm := CopyAndRelocate arch relocs relro_start (mm_map mp) (load_addr + relro_offset)
                                  relro_size (pr_vm s)\<rparr>;
                 (mp, s) = MemoryMapping_Deallocate k mp s
             in (None, r\<lparr>sr_start := load_addr + relro_offset, sr_size := relro_size\<rparr>, s)))"

definition SharedRelro_ForceReadOnly ::
  "('w::len) word kernel \<Rightarrow> 'w word shared_relro \<Rightarrow> 'w word process \<Rightarrow> 'w word relro_error option \<times> 'w word process" where
  "SharedRelro_ForceReadOnly k r s =
     (case AshmemRegion_SetProtectionFlags k (sr_ashmem r) PROT_READ s of (ok, s) \<Rightarrow>
      (if ok then None else Some CouldNotMakeReadOnly, s))"

text \<open>The loops of \<open>InitFrom\<close>, on offsets from the start of the section. \<open>eq\<close> tells whether the page
  at an offset equals the page of the region.\<close>

function skip_dissimilar :: "(nat \<Rightarrow> bool) \<Rightarrow> nat \<Rightarrow> nat \<Rightarrow> nat" where
  "skip_dissimilar eq sz p = (if p < sz \<and> \<not> eq p then skip_dissimilar eq sz (p + 4096) else p)"
  by auto
termination by (relation "measure (\<lambda>(eq, sz, p). sz - p)") auto

function count_similar :: "(nat \<Rightarrow> bool) \<Rightarrow> nat \<Rightarrow> nat \<Rightarrow> nat" where
  "count_similar eq sz p = (if p < sz \<and> eq p then count_similar eq sz (p + 4096) else p)"
  by auto
termination by (relation "measure (\<lambda>(eq, sz, p). sz - p)") auto

declare skip_dissimilar.simps [simp del] count_similar.simps [simp del]

lemma skip_dissimilar_ge: "p \<le> skip_dissimilar eq sz p"
  by (induction eq sz p rule: skip_dissimilar.induct) (subst skip_dissimilar.simps, auto)

lemma skip_dissimilar_stop: "skip_dissimilar eq sz p < sz \<Longrightarrow> eq (skip_dissimilar eq sz p)"
  by (induction eq sz p rule: skip_dissimilar.induct) (metis skip_dissimilar.simps)

lemma count_similar_ge: "p \<le> count_similar eq sz p"
  by (induction eq sz p rule: count_similar.induct) (subst count_similar.simps, auto)

lemma count_similar_gt: "p < sz \<Longrightarrow> eq p \<Longrightarrow> p < count_similar eq sz p"
  using count_similar_ge [of "p + 4096" eq sz] by (subst count_similar.simps) auto

lemma similar_progress:
  assumes "count_similar eq sz (skip_dissimilar eq sz p) < sz"
  shows "p < count_similar eq sz (skip_dissimilar eq sz p)"
proof (cases "skip_dissimilar eq sz p < sz")
  case True
  from count_similar_gt [where eq = eq, OF True skip_dissimilar_stop [OF True]] skip_dissimilar_ge [of p eq sz]
  show ?thesis by linarith
next
  case False
  with assms count_similar_ge [of "skip_dissimilar eq sz p" eq sz] show ?thesis by linarith
qed

lemma similar_measure:
  "count_similar eq sz (skip_dissimilar eq sz p) < sz \<Longrightarrow>
   sz - count_similar eq sz (skip_dissimilar eq sz p) < sz - p"
  using similar_progress [of eq sz p] by linarith

text \<open>The result: an error of \<open>SwapPagesFromFd\<close>, or the number of bytes swapped.\<close>

function InitFrom_loop ::
  "('w::len) word kernel \<Rightarrow> 'w word \<Rightarrow> 'w word \<Rightarrow> int \<Rightarrow> nat \<Rightarrow> nat \<Rightarrow> nat \<Rightarrow> 'w word process \<Rightarrow>
     ('w word relro_error + nat) \<times> 'w word process" where
  "InitFrom_loop k cur_page fd_page fd sz p similar_size s =
     (let eq = (\<lambda>p. PageEquals (pr_vm s) (cur_page + word_of_nat p) (fd_page + word_of_nat p));
          p1 = skip_dissimilar eq sz p;
          p2 = count_similar eq sz p1;
          (err, s) = (if p2 > p1 then SwapPagesFromFd k (cur_page + word_of_nat p1) (word_of_nat (p2 - p1)) fd p1 s
                      else (None, s))
      in case err of
           Some e \<Rightarrow> (Inl e, s)
         | None \<Rightarrow>
             if p2 < sz then InitFrom_loop k cur_page fd_page fd sz p2 (similar_size + (p2 - p1)) s
             else (Inr (similar_size + (p2 - p1)), s))"
  by pat_completeness auto
termination
  by (relation "measure (\<lambda>(k, c, f, fd, sz, p, n, s). sz - p)") (auto intro!: similar_measure)

declare InitFrom_loop.simps [simp del]

text \<open>\<open>InitFrom\<close> returns false without an error message when no page could be shared.\<close>

definition SharedRelro_InitFrom ::
  "('w::len) word kernel \<Rightarrow> 'w word \<Rightarrow> 'w word \<Rightarrow> int \<Rightarrow> 'w word shared_relro \<Rightarrow> 'w word process \<Rightarrow>
     bool \<times> 'w word relro_error option \<times> 'w word shared_relro \<times> 'w word process" where
  "SharedRelro_InitFrom k relro_start relro_size ashmem_fd r s =
     (case CheckFileDescriptorIsReadOnly k ashmem_fd s of (ok, s) \<Rightarrow>
      if \<not> ok then (False, Some NotReadOnly, r, s)
      else case MemoryMapping_Allocate k 0 relro_size PROT_READ ashmem_fd s of (ok, fd_map, s) \<Rightarrow>
      if \<not> ok then (False, Some CannotMapReadOnly, r, s)
      else case InitFrom_loop k relro_start (mm_map fd_map) ashmem_fd (unat relro_size) 0 0 s of
        (Inl e, s) \<Rightarrow> (False, Some e, r, snd (MemoryMapping_Deallocate k fd_map s))
      | (Inr similar_size, s) \<Rightarrow>
          let (fd_map, s) = MemoryMapping_Deallocate k fd_map s in
          if similar_size = 0 then (False, None, r, s)
          else (True, None, r\<lparr>sr_start := relro_start, sr_size := relro_size\<rparr>, s))"

section \<open>The pages the loop visits\<close>

lemma skip_dissimilar_mod: "skip_dissimilar eq sz p mod 4096 = p mod 4096"
  by (induction eq sz p rule: skip_dissimilar.induct) (subst skip_dissimilar.simps, simp)

lemma count_similar_mod: "count_similar eq sz p mod 4096 = p mod 4096"
  by (induction eq sz p rule: count_similar.induct) (subst count_similar.simps, simp)

lemma aligned_step:
  assumes "q mod 4096 = p mod (4096::nat)" "p \<le> q" "q \<noteq> p"
  shows "p + 4096 \<le> q"
proof -
  have "4096 dvd q - p" using assms by (simp add: mod_eq_dvd_iff_nat)
  then have "4096 \<le> q - p" using assms by (intro dvd_imp_le) simp_all
  then show ?thesis using assms by linarith
qed

lemma skip_dissimilar_range:
  "p \<le> q \<Longrightarrow> q < skip_dissimilar eq sz p \<Longrightarrow> q mod 4096 = p mod 4096 \<Longrightarrow> \<not> eq q"
proof (induction eq sz p rule: skip_dissimilar.induct)
  case (1 eq sz p)
  show ?case
  proof (cases "p < sz \<and> \<not> eq p")
    case True
    then have next_p: "skip_dissimilar eq sz p = skip_dissimilar eq sz (p + 4096)"
      by (subst skip_dissimilar.simps) simp
    show ?thesis
    proof (cases "q = p")
      case False
      then have "p + 4096 \<le> q" using 1(2,4) by (intro aligned_step) auto
      with 1(1) [OF True this] 1(3,4) next_p show ?thesis by simp
    qed (use True in simp)
  next
    case False
    then have "skip_dissimilar eq sz p = p" by (subst skip_dissimilar.simps) auto
    with 1(2,3) show ?thesis by simp
  qed
qed

lemma count_similar_range:
  "p \<le> q \<Longrightarrow> q < count_similar eq sz p \<Longrightarrow> q mod 4096 = p mod 4096 \<Longrightarrow> eq q"
proof (induction eq sz p rule: count_similar.induct)
  case (1 eq sz p)
  show ?case
  proof (cases "p < sz \<and> eq p")
    case True
    then have next_p: "count_similar eq sz p = count_similar eq sz (p + 4096)"
      by (subst count_similar.simps) simp
    show ?thesis
    proof (cases "q = p")
      case False
      then have "p + 4096 \<le> q" using 1(2,4) by (intro aligned_step) auto
      with 1(1) [OF True this] 1(3,4) next_p show ?thesis by simp
    qed (use True in simp)
  next
    case False
    then have "count_similar eq sz p = p" by (subst count_similar.simps) auto
    with 1(2,3) show ?thesis by simp
  qed
qed

lemma skip_dissimilar_le: "p \<le> sz \<Longrightarrow> sz mod 4096 = p mod 4096 \<Longrightarrow> skip_dissimilar eq sz p \<le> sz"
proof (induction eq sz p rule: skip_dissimilar.induct)
  case (1 eq sz p)
  show ?case
  proof (cases "p < sz \<and> \<not> eq p")
    case True
    then have "p + 4096 \<le> sz" using 1(3) by (intro aligned_step) auto
    from 1(1) [OF True this] 1(3) True show ?thesis by (subst skip_dissimilar.simps) simp
  next
    case False
    then have "skip_dissimilar eq sz p = p" by (subst skip_dissimilar.simps) auto
    with 1(2) show ?thesis by simp
  qed
qed

lemma count_similar_le: "p \<le> sz \<Longrightarrow> sz mod 4096 = p mod 4096 \<Longrightarrow> count_similar eq sz p \<le> sz"
proof (induction eq sz p rule: count_similar.induct)
  case (1 eq sz p)
  show ?case
  proof (cases "p < sz \<and> eq p")
    case True
    then have "p + 4096 \<le> sz" using 1(3) by (intro aligned_step) auto
    from 1(1) [OF True this] 1(3) True show ?thesis by (subst count_similar.simps) simp
  next
    case False
    then have "count_similar eq sz p = p" by (subst count_similar.simps) auto
    with 1(2) show ?thesis by simp
  qed
qed

section \<open>Offsets in a range\<close>

lemma in_range_offset:
  fixes c :: "('w::len) word"
  assumes "j < 2 ^ LENGTH('w)" "b \<le> 2 ^ LENGTH('w)" "a \<le> b" "b - a < 2 ^ LENGTH('w)"
  shows "in_range (c + word_of_nat j) (c + word_of_nat a) (word_of_nat (b - a)) \<longleftrightarrow> a \<le> j \<and> j < b"
proof -
  have len: "unat (word_of_nat (b - a) :: 'w word) = b - a" by (rule unat_word_of_nat_small [OF assms(4)])
  have diff: "c + word_of_nat j - (c + word_of_nat a) = word_of_nat j - (word_of_nat a :: 'w word)" by simp
  show ?thesis
  proof (cases "a \<le> j")
    case True
    have "word_of_nat j - (word_of_nat a :: 'w word) = word_of_nat (j - a)" using True by simp
    moreover have "unat (word_of_nat (j - a) :: 'w word) = j - a"
      using assms(1) by (intro unat_word_of_nat_small) simp
    ultimately show ?thesis using True len assms(3) by (auto simp: in_range_def diff word_less_nat_alt)
  next
    case False
    have "word_of_nat j - (word_of_nat a :: 'w word) = word_of_nat (2 ^ LENGTH('w) + j - a)"
      using False assms(2,3) by (simp add: of_nat_diff)
    moreover have "unat (word_of_nat (2 ^ LENGTH('w) + j - a) :: 'w word) = 2 ^ LENGTH('w) + j - a"
      using False assms(2,3) by (intro unat_word_of_nat_small) linarith
    ultimately show ?thesis using False len assms(1-3) by (auto simp: in_range_def diff word_less_nat_alt)
  qed
qed

section \<open>Swapping pages keeps the contents\<close>

text \<open>A kernel that grants every unmapping and every mapping at a fixed address.\<close>

definition grants_fixed :: "('w::len) word kernel \<Rightarrow> bool" where
  "grants_fixed k \<longleftrightarrow> (\<forall>a l prot fd. a \<noteq> 0 \<longrightarrow> k_mmap k a l prot fd = Inr a) \<and> (\<forall>a l. k_munmap k a l = None)"

definition page_same :: "('w::len) word process \<Rightarrow> 'w word \<Rightarrow> int \<Rightarrow> nat \<Rightarrow> bool" where
  "page_same s c fd q \<longleftrightarrow> (\<forall>i < 4096. vm_byte (pr_vm s) (c + word_of_nat (q + i)) = pr_region s fd (q + i))"

lemma PageEquals_same:
  fixes s :: "('w::len) word process"
  assumes "\<And>i. i < sz \<Longrightarrow> vm_byte (pr_vm s) (m + word_of_nat i) = pr_region s fd i"
    and "q + 4096 \<le> sz"
  shows "PageEquals (pr_vm s) (c + word_of_nat q) (m + word_of_nat q) \<longleftrightarrow> page_same s c fd q"
proof -
  have "m + word_of_nat q + word_of_nat i = m + word_of_nat (q + i)"
    "c + word_of_nat q + word_of_nat i = c + word_of_nat (q + i)" for i by simp_all
  moreover have "vm_byte (pr_vm s) (m + word_of_nat (q + i)) = pr_region s fd (q + i)" if "i < 4096" for i
    using that assms(2) by (intro assms(1)) simp
  ultimately show ?thesis by (simp only: PageEquals_def page_same_def cong: all_cong imp_cong)
qed

text \<open>What swapping a run of pages does to a process whose pages there equal those of the region.\<close>

lemma SwapPagesFromFd_same:
  fixes s :: "('w::len) word process"
  assumes k: "grants_fixed k" and w: "12 \<le> LENGTH('w)"
    and range: "p1 < p2" "p2 \<le> sz" "sz < 2 ^ LENGTH('w)" "p1 mod 4096 = 0" "p2 mod 4096 = 0"
    and same: "\<And>q. p1 \<le> q \<Longrightarrow> q < p2 \<Longrightarrow> q mod 4096 = 0 \<Longrightarrow> page_same s c fd q"
    and start: "c + word_of_nat p1 \<noteq> 0" "\<And>mp. mp \<in> set (pr_shared s) \<Longrightarrow> sm_start mp \<noteq> c + word_of_nat p1"
  shows "\<exists>s'. SwapPagesFromFd k (c + word_of_nat p1) (word_of_nat (p2 - p1)) fd p1 s = (None, s') \<and>
     vm_byte (pr_vm s') = vm_byte (pr_vm s) \<and> pr_region s' = pr_region s \<and>
     (\<forall>j < sz. vm_prot (pr_vm s') (c + word_of_nat j) =
        (if p1 \<le> j \<and> j < p2 then Some PROT_READ else vm_prot (pr_vm s) (c + word_of_nat j))) \<and>
     (\<forall>mp \<in> set (pr_shared s'). mp \<in> set (pr_shared s) \<or> sm_start mp = c + word_of_nat p1)"
proof -
  let ?a = "c + word_of_nat p1"
  define l where "l = (word_of_nat (p2 - p1) :: 'w word)"
  have len: "unat l = p2 - p1" unfolding l_def using range by (intro unat_word_of_nat_small) simp
  have end_l: "PAGE_END l = l"
    using range page_diff_mod [of p2 p1] len by (intro word_unat_eq_iff [THEN iffD2] unat_PAGE_END_aligned w) simp
  have gone: "filter (\<lambda>mp. sm_start mp = ?a \<and> sm_len mp = l) (pr_shared s) = []"
    using start(2) by (auto simp: filter_empty_conv)
  define s1 where "s1 = s\<lparr>pr_vm := sys_munmap ?a l (pr_vm s),
      pr_shared := filter (\<lambda>mp. \<not> (sm_start mp = ?a \<and> sm_len mp = l)) (pr_shared s)\<rparr>"
  have unmap: "proc_munmap k ?a l s = (True, s1)"
    using k gone by (simp add: proc_munmap_def grants_fixed_def s1_def Let_def)
  define s2 where "s2 = s1\<lparr>pr_vm := vm_set_prot ?a l (Some PROT_READ)
        (vm_set_bytes ?a l (\<lambda>i. pr_region s fd (p1 + unat i)) (pr_vm s1)),
      pr_shared := \<lparr>sm_start = ?a, sm_len = l, sm_fd = fd, sm_offset = p1\<rparr> # pr_shared s1\<rparr>"
  have remap: "proc_mmap k ?a l PROT_READ fd p1 s1 = (Some ?a, s2)"
    using k start(1) by (simp add: proc_mmap_def grants_fixed_def s2_def s1_def end_l)
  have run: "SwapPagesFromFd k ?a l fd p1 s = (None, s2)"
    by (simp add: SwapPagesFromFd_def unmap remap)
  have byte: "vm_byte (pr_vm s2) x = vm_byte (pr_vm s) x" for x
  proof (cases "in_range x ?a l")
    case True
    define j where "j = unat (x - ?a)"
    have j: "j < p2 - p1" using True len by (simp add: in_range_def j_def word_less_nat_alt)
    have x: "x = c + word_of_nat (p1 + j)" by (simp add: j_def)
    define q where "q = p1 + page_down j"
    have q: "p1 \<le> q" "q < p2" "p1 + j = q + j mod 4096"
      using j page_down_le [of j] page_down_mod [of j] by (simp_all add: q_def)
    have q0: "q mod 4096 = 0" using range(4) by (simp add: q_def page_down_def mod_add_eq [symmetric])
    have "vm_byte (pr_vm s) x = pr_region s fd (p1 + j)"
      using same [OF q(1,2) q0] unfolding x page_same_def q(3) by simp
    then show ?thesis using True by (simp add: s2_def s1_def vm_set_bytes_def sys_munmap_def j_def)
  next
    case False
    then show ?thesis by (simp add: s2_def s1_def vm_set_bytes_def sys_munmap_def)
  qed
  have "vm_prot (pr_vm s2) (c + word_of_nat j) =
      (if p1 \<le> j \<and> j < p2 then Some PROT_READ else vm_prot (pr_vm s) (c + word_of_nat j))" if "j < sz" for j
  proof -
    have "in_range (c + word_of_nat j) ?a l \<longleftrightarrow> p1 \<le> j \<and> j < p2"
      unfolding l_def using that range by (intro in_range_offset) linarith+
    then show ?thesis by (simp add: s2_def s1_def vm_set_prot_def sys_munmap_def end_l)
  qed
  moreover have "pr_region s2 = pr_region s" by (simp add: s2_def s1_def)
  moreover have "\<forall>mp \<in> set (pr_shared s2). mp \<in> set (pr_shared s) \<or> sm_start mp = ?a"
    by (auto simp: s2_def s1_def)
  moreover have "vm_byte (pr_vm s2) = vm_byte (pr_vm s)" by (rule ext) (rule byte)
  ultimately show ?thesis using run unfolding l_def by (intro exI [of _ s2]) simp
qed

text \<open>What the loop starts from: the region is mapped at \<open>m\<close>, and no shared mapping starts at or after
  the offset \<open>p\<close> of the section.\<close>

definition loop_ready :: "('w::len) word process \<Rightarrow> 'w word \<Rightarrow> 'w word \<Rightarrow> int \<Rightarrow> nat \<Rightarrow> nat \<Rightarrow> bool" where
  "loop_ready s c m fd sz p \<longleftrightarrow>
     sz mod 4096 = 0 \<and> sz < 2 ^ LENGTH('w) \<and> p mod 4096 = 0 \<and> p \<le> sz \<and>
     (\<forall>i < sz. vm_byte (pr_vm s) (m + word_of_nat i) = pr_region s fd i \<and> c + word_of_nat i \<noteq> 0) \<and>
     (\<forall>mp \<in> set (pr_shared s). \<forall>j. p \<le> j \<and> j < sz \<longrightarrow> sm_start mp \<noteq> c + word_of_nat j)"

text \<open>What it leaves: the same bytes, and the pages from \<open>p\<close> on that equal those of the region mapped
  read-only from it.\<close>

definition loop_done ::
  "('w::len) word process \<Rightarrow> 'w word \<Rightarrow> int \<Rightarrow> nat \<Rightarrow> nat \<Rightarrow> 'w word process \<Rightarrow> bool" where
  "loop_done s c fd sz p s' \<longleftrightarrow>
     vm_byte (pr_vm s') = vm_byte (pr_vm s) \<and> pr_region s' = pr_region s \<and>
     (\<forall>j < sz. vm_prot (pr_vm s') (c + word_of_nat j) =
        (if p \<le> j \<and> page_same s c fd (page_down j) then Some PROT_READ else vm_prot (pr_vm s) (c + word_of_nat j))) \<and>
     (\<forall>mp \<in> set (pr_shared s'). mp \<in> set (pr_shared s) \<or> (\<exists>j < sz. sm_start mp = c + word_of_nat j))"

lemma page_same_bytes:
  "vm_byte (pr_vm s') = vm_byte (pr_vm s) \<Longrightarrow> pr_region s' = pr_region s \<Longrightarrow> page_same s' c fd q = page_same s c fd q"
  by (simp add: page_same_def)

lemma page_down_bounds:
  assumes "p mod 4096 = 0"
  shows "p \<le> page_down j \<longleftrightarrow> p \<le> j" "page_down j < p \<longleftrightarrow> j < p"
proof -
  show "p \<le> page_down j \<longleftrightarrow> p \<le> j"
    using page_down_le [of j] page_down_mono [of p j] assms by (auto simp: page_down_def)
  then show "page_down j < p \<longleftrightarrow> j < p" by auto
qed

lemma page_down_aligned [simp]: "page_down j mod 4096 = 0"
  by (simp add: page_down_def)

text \<open>One round: the pages up to \<open>p1\<close> differ, those from \<open>p1\<close> to \<open>p2\<close> are the same.\<close>

lemma round_ranges:
  fixes s :: "('w::len) word process"
  assumes ready: "loop_ready s c m fd sz p"
  defines "eq \<equiv> \<lambda>p. PageEquals (pr_vm s) (c + word_of_nat p) (m + word_of_nat p)"
  defines "p1 \<equiv> skip_dissimilar eq sz p"
  defines "p2 \<equiv> count_similar eq sz p1"
  shows "p \<le> p1" "p1 \<le> p2" "p2 \<le> sz" "p1 mod 4096 = 0" "p2 mod 4096 = 0"
    and "\<And>q. p \<le> q \<Longrightarrow> q < p1 \<Longrightarrow> q mod 4096 = 0 \<Longrightarrow> \<not> page_same s c fd q"
    and "\<And>q. p1 \<le> q \<Longrightarrow> q < p2 \<Longrightarrow> q mod 4096 = 0 \<Longrightarrow> page_same s c fd q"
proof -
  have sz: "sz mod 4096 = 0" "p mod 4096 = 0" "p \<le> sz"
    and content: "\<And>i. i < sz \<Longrightarrow> vm_byte (pr_vm s) (m + word_of_nat i) = pr_region s fd i"
    using ready by (auto simp: loop_ready_def)
  show "p \<le> p1" "p1 \<le> p2" unfolding p1_def p2_def by (rule skip_dissimilar_ge, rule count_similar_ge)
  show m1: "p1 mod 4096 = 0" unfolding p1_def skip_dissimilar_mod by (rule sz(2))
  show "p2 mod 4096 = 0" unfolding p2_def count_similar_mod by (rule m1)
  have "p1 \<le> sz" unfolding p1_def by (rule skip_dissimilar_le) (simp_all add: sz)
  then show le: "p2 \<le> sz" unfolding p2_def by (rule count_similar_le) (simp add: sz m1)
  have eq_same: "eq q \<longleftrightarrow> page_same s c fd q" if "q < sz" "q mod 4096 = 0" for q
    unfolding eq_def using that sz aligned_step [of sz q] by (intro PageEquals_same [OF content]) auto
  show "\<not> page_same s c fd q" if "p \<le> q" "q < p1" "q mod 4096 = 0" for q
    using skip_dissimilar_range [of p q eq sz] that sz eq_same [of q] \<open>p1 \<le> sz\<close> by (simp add: p1_def)
  show "page_same s c fd q" if "p1 \<le> q" "q < p2" "q mod 4096 = 0" for q
    using count_similar_range [of p1 q eq sz] that m1 eq_same [of q] le by (simp add: p2_def)
qed

lemma round_step:
  fixes s :: "('w::len) word process"
  assumes k: "grants_fixed k" and w: "12 \<le> LENGTH('w)" and ready: "loop_ready s c m fd sz p"
  defines "eq \<equiv> \<lambda>p. PageEquals (pr_vm s) (c + word_of_nat p) (m + word_of_nat p)"
  defines "p1 \<equiv> skip_dissimilar eq sz p"
  defines "p2 \<equiv> count_similar eq sz p1"
  shows "\<exists>s1. (if p2 > p1 then SwapPagesFromFd k (c + word_of_nat p1) (word_of_nat (p2 - p1)) fd p1 s
       else (None, s)) = (None, s1) \<and> loop_ready s1 c m fd sz p2 \<and>
     vm_byte (pr_vm s1) = vm_byte (pr_vm s) \<and> pr_region s1 = pr_region s \<and>
     (\<forall>j < sz. vm_prot (pr_vm s1) (c + word_of_nat j) =
        (if p1 \<le> j \<and> j < p2 then Some PROT_READ else vm_prot (pr_vm s) (c + word_of_nat j))) \<and>
     (\<forall>mp \<in> set (pr_shared s1). mp \<in> set (pr_shared s) \<or> (\<exists>j < sz. sm_start mp = c + word_of_nat j))"
proof -
  note R = round_ranges [OF ready, folded eq_def, folded p1_def, folded p2_def]
  have rd: "sz mod 4096 = 0" "sz < 2 ^ LENGTH('w)"
      "\<And>i. i < sz \<Longrightarrow> vm_byte (pr_vm s) (m + word_of_nat i) = pr_region s fd i"
      "\<And>i. i < sz \<Longrightarrow> c + word_of_nat i \<noteq> 0"
      "\<And>mp j. mp \<in> set (pr_shared s) \<Longrightarrow> p \<le> j \<Longrightarrow> j < sz \<Longrightarrow> sm_start mp \<noteq> c + word_of_nat j"
    using ready by (auto simp: loop_ready_def)
  show ?thesis
  proof (cases "p2 > p1")
    case False
    with R(1-5) rd have "loop_ready s c m fd sz p2" by (auto simp: loop_ready_def)
    with False show ?thesis by auto
  next
    case True
    have "p1 < sz" using True R(3) by simp
    then have "c + word_of_nat p1 \<noteq> 0" "\<And>mp. mp \<in> set (pr_shared s) \<Longrightarrow> sm_start mp \<noteq> c + word_of_nat p1"
      using rd(4,5) R(1) by auto
    from SwapPagesFromFd_same [OF k w True R(3) rd(2) R(4,5,7) this] obtain s1
      where s1: "SwapPagesFromFd k (c + word_of_nat p1) (word_of_nat (p2 - p1)) fd p1 s = (None, s1)"
        "vm_byte (pr_vm s1) = vm_byte (pr_vm s)" "pr_region s1 = pr_region s"
        "\<forall>j < sz. vm_prot (pr_vm s1) (c + word_of_nat j) =
          (if p1 \<le> j \<and> j < p2 then Some PROT_READ else vm_prot (pr_vm s) (c + word_of_nat j))"
        "\<forall>mp \<in> set (pr_shared s1). mp \<in> set (pr_shared s) \<or> sm_start mp = c + word_of_nat p1"
      by blast
    have "sm_start mp \<noteq> c + word_of_nat j" if "mp \<in> set (pr_shared s1)" "p2 \<le> j" "j < sz" for mp j
    proof (cases "mp \<in> set (pr_shared s)")
      case True
      with rd(5) that R(1,2) show ?thesis by simp
    next
      case False
      with s1(5) that have "sm_start mp = c + word_of_nat p1" by blast
      moreover have "word_of_nat p1 \<noteq> (word_of_nat j :: 'w word)"
        using that True rd(2) \<open>p1 < sz\<close> unat_word_of_nat_small [of p1, where 'w = 'w]
          unat_word_of_nat_small [of j, where 'w = 'w] by force
      ultimately show ?thesis by simp
    qed
    with R(3,5) rd s1(2,3) have "loop_ready s1 c m fd sz p2" by (auto simp: loop_ready_def)
    moreover have "\<forall>mp \<in> set (pr_shared s1). mp \<in> set (pr_shared s) \<or> (\<exists>j < sz. sm_start mp = c + word_of_nat j)"
      using s1(5) \<open>p1 < sz\<close> by blast
    ultimately show ?thesis using True s1(1-4) by (intro exI [of _ s1]) simp
  qed
qed

lemma round_compose:
  assumes p0: "p mod 4096 = 0"
    and R: "p \<le> p1" "p1 \<le> p2" "p2 \<le> sz" "p1 mod 4096 = 0" "p2 mod 4096 = 0"
      "\<And>q. p \<le> q \<Longrightarrow> q < p1 \<Longrightarrow> q mod 4096 = 0 \<Longrightarrow> \<not> page_same s c fd q"
      "\<And>q. p1 \<le> q \<Longrightarrow> q < p2 \<Longrightarrow> q mod 4096 = 0 \<Longrightarrow> page_same s c fd q"
    and s1: "vm_byte (pr_vm s1) = vm_byte (pr_vm s)" "pr_region s1 = pr_region s"
      "\<forall>j < sz. vm_prot (pr_vm s1) (c + word_of_nat j) =
        (if p1 \<le> j \<and> j < p2 then Some PROT_READ else vm_prot (pr_vm s) (c + word_of_nat j))"
      "\<forall>mp \<in> set (pr_shared s1). mp \<in> set (pr_shared s) \<or> (\<exists>j < sz. sm_start mp = c + word_of_nat j)"
    and rest: "loop_done s1 c fd sz p2 s'"
  shows "loop_done s c fd sz p s'"
proof -
  have "vm_prot (pr_vm s') (c + word_of_nat j) =
      (if p \<le> j \<and> page_same s c fd (page_down j) then Some PROT_READ else vm_prot (pr_vm s) (c + word_of_nat j))"
    if "j < sz" for j
  proof -
    have step: "vm_prot (pr_vm s') (c + word_of_nat j) =
        (if p2 \<le> j \<and> page_same s c fd (page_down j) then Some PROT_READ else
         if p1 \<le> j \<and> j < p2 then Some PROT_READ else vm_prot (pr_vm s) (c + word_of_nat j))"
      using rest that s1(3) page_same_bytes [OF s1(1,2)] by (simp add: loop_done_def)
    consider "p2 \<le> j" | "p1 \<le> j" "j < p2" | "p \<le> j" "j < p1" | "j < p" by linarith
    then show ?thesis
    proof cases
      case 1
      with step R(1,2) show ?thesis by simp
    next
      case 2
      then have "page_same s c fd (page_down j)"
        using page_down_bounds [OF R(4)] page_down_bounds [OF R(5)] by (intro R(7)) auto
      with step 2 R(1) show ?thesis by simp
    next
      case 3
      then have "\<not> page_same s c fd (page_down j)"
        using page_down_bounds [OF R(4)] page_down_bounds [OF p0] by (intro R(6)) auto
      with step 3 R(2) show ?thesis by simp
    next
      case 4
      with step R(1,2) show ?thesis by simp
    qed
  qed
  moreover have "\<forall>mp \<in> set (pr_shared s'). mp \<in> set (pr_shared s) \<or> (\<exists>j < sz. sm_start mp = c + word_of_nat j)"
    using rest s1(4) by (auto simp: loop_done_def)
  ultimately show ?thesis using rest s1(1,2) by (simp add: loop_done_def)
qed

lemma loop_done_end: "loop_done s c fd sz sz s"
  by (auto simp: loop_done_def)

lemma InitFrom_loop_done:
  fixes s :: "('w::len) word process"
  assumes k: "grants_fixed k" and w: "12 \<le> LENGTH('w)" and ready: "loop_ready s c m fd sz p"
  shows "\<exists>n' s'. InitFrom_loop k c m fd sz p n s = (Inr n', s') \<and> loop_done s c fd sz p s' \<and> n \<le> n' \<and>
     (n < n' \<longleftrightarrow> (\<exists>q. p \<le> q \<and> q < sz \<and> q mod 4096 = 0 \<and> page_same s c fd q))"
  using ready
proof (induction "sz - p" arbitrary: p n s rule: less_induct)
  case less
  let ?eq = "\<lambda>p. PageEquals (pr_vm s) (c + word_of_nat p) (m + word_of_nat p)"
  define p1 where "p1 = skip_dissimilar ?eq sz p"
  define p2 where "p2 = count_similar ?eq sz p1"
  note R = round_ranges [OF less.prems, folded p1_def, folded p2_def]
  from round_step [OF k w less.prems, folded p1_def, folded p2_def] obtain s1
    where step: "(if p2 > p1 then SwapPagesFromFd k (c + word_of_nat p1) (word_of_nat (p2 - p1)) fd p1 s
        else (None, s)) = (None, s1)" and ready1: "loop_ready s1 c m fd sz p2"
      and s1: "vm_byte (pr_vm s1) = vm_byte (pr_vm s)" "pr_region s1 = pr_region s"
        "\<forall>j < sz. vm_prot (pr_vm s1) (c + word_of_nat j) =
          (if p1 \<le> j \<and> j < p2 then Some PROT_READ else vm_prot (pr_vm s) (c + word_of_nat j))"
        "\<forall>mp \<in> set (pr_shared s1). mp \<in> set (pr_shared s) \<or> (\<exists>j < sz. sm_start mp = c + word_of_nat j)"
    by blast
  have p0: "p mod 4096 = 0" using less.prems by (simp add: loop_ready_def)
  have compose: "loop_done s c fd sz p s'" if "loop_done s1 c fd sz p2 s'" for s'
    using p0 R s1 that by (rule round_compose)
  have run: "InitFrom_loop k c m fd sz p n s =
      (if p2 < sz then InitFrom_loop k c m fd sz p2 (n + (p2 - p1)) s1 else (Inr (n + (p2 - p1)), s1))"
    unfolding InitFrom_loop.simps [of k c m fd sz p n s] Let_def p1_def [symmetric] p2_def [symmetric] step
    by simp
  have hit: "p2 > p1 \<longleftrightarrow> (\<exists>q. p \<le> q \<and> q < p2 \<and> q mod 4096 = 0 \<and> page_same s c fd q)"
  proof
    assume "p2 > p1"
    then show "\<exists>q. p \<le> q \<and> q < p2 \<and> q mod 4096 = 0 \<and> page_same s c fd q"
      by (intro exI [of _ p1] conjI R(1) R(4) R(7) order_refl)
  next
    assume "\<exists>q. p \<le> q \<and> q < p2 \<and> q mod 4096 = 0 \<and> page_same s c fd q"
    then obtain q where q: "p \<le> q" "q < p2" "q mod 4096 = 0" "page_same s c fd q"
      by (elim exE conjE)
    have "p1 \<le> q"
    proof (rule ccontr)
      assume "\<not> p1 \<le> q"
      then have "q < p1" by simp
      with R(6) [OF q(1) this q(3)] q(4) show False by simp
    qed
    with q(2) show "p2 > p1" by simp
  qed
  show ?case
  proof (cases "p2 < sz")
    case True
    have "sz - p2 < sz - p"
      using similar_measure [of ?eq sz p] True unfolding p1_def [symmetric] p2_def [symmetric] by simp
    from less.hyps [OF this ready1, of "n + (p2 - p1)"] obtain n' s' where
      IH: "InitFrom_loop k c m fd sz p2 (n + (p2 - p1)) s1 = (Inr n', s')" "loop_done s1 c fd sz p2 s'"
        "n + (p2 - p1) \<le> n'"
        "n + (p2 - p1) < n' \<longleftrightarrow> (\<exists>q. p2 \<le> q \<and> q < sz \<and> q mod 4096 = 0 \<and> page_same s c fd q)"
      unfolding page_same_bytes [OF s1(1,2)] by (elim exE conjE)
    have "n < n' \<longleftrightarrow> p2 > p1 \<or> n + (p2 - p1) < n'" using IH(3) R(2) by auto
    also have "\<dots> \<longleftrightarrow> (\<exists>q. p \<le> q \<and> q < sz \<and> q mod 4096 = 0 \<and> page_same s c fd q)"
      unfolding hit IH(4)
    proof (intro iffI, elim disjE exE conjE)
      fix q assume "p \<le> q" "q < p2" "q mod 4096 = 0" "page_same s c fd q"
      with True show "\<exists>q. p \<le> q \<and> q < sz \<and> q mod 4096 = 0 \<and> page_same s c fd q"
        by (intro exI [of _ q]) simp
    next
      fix q assume "p2 \<le> q" "q < sz" "q mod 4096 = 0" "page_same s c fd q"
      with R(1,2) show "\<exists>q. p \<le> q \<and> q < sz \<and> q mod 4096 = 0 \<and> page_same s c fd q"
        by (intro exI [of _ q]) simp
    next
      assume "\<exists>q. p \<le> q \<and> q < sz \<and> q mod 4096 = 0 \<and> page_same s c fd q"
      then obtain q where q: "p \<le> q" "q < sz" "q mod 4096 = 0" "page_same s c fd q"
      by (elim exE conjE)
      show "(\<exists>q. p \<le> q \<and> q < p2 \<and> q mod 4096 = 0 \<and> page_same s c fd q) \<or>
          (\<exists>q. p2 \<le> q \<and> q < sz \<and> q mod 4096 = 0 \<and> page_same s c fd q)"
      proof (cases "q < p2")
        case True
        with q show ?thesis by (intro disjI1 exI [of _ q]) simp
      next
        case False
        with q show ?thesis by (intro disjI2 exI [of _ q]) simp
      qed
    qed
    finally show ?thesis
      using True IH(1,3) compose [OF IH(2)] unfolding run by (intro exI [of _ n'] exI [of _ s']) simp
  next
    case False
    then have p2: "p2 = sz" using R(3) by simp
    have "n < n + (p2 - p1) \<longleftrightarrow> (\<exists>q. p \<le> q \<and> q < sz \<and> q mod 4096 = 0 \<and> page_same s c fd q)"
      using hit p2 by simp
    with False compose [unfolded p2, OF loop_done_end] show ?thesis
      unfolding run by (intro exI [of _ "n + (p2 - p1)"] exI [of _ s1]) simp
  qed
qed

section \<open>InitFrom\<close>

text \<open>A mapping whose address the kernel chooses does not overlap the section, nor does it start where
  a shared mapping starts.\<close>

definition picks_fresh :: "('w::len) word kernel \<Rightarrow> 'w word \<Rightarrow> nat \<Rightarrow> 'w word shared_map list \<Rightarrow> bool" where
  "picks_fresh k c sz maps \<longleftrightarrow>
     (\<forall>len prot fd a. k_mmap k 0 len prot fd = Inr a \<longrightarrow>
        a \<noteq> 0 \<and> (\<forall>j < sz. \<not> in_range (c + word_of_nat j) a (PAGE_END len)) \<and> (\<forall>mp \<in> set maps. sm_start mp \<noteq> a))"

text \<open>Two processes that agree on the section, the regions and the shared mappings.\<close>

definition same_section :: "('w::len) word \<Rightarrow> nat \<Rightarrow> 'w word process \<Rightarrow> 'w word process \<Rightarrow> bool" where
  "same_section c sz s s' \<longleftrightarrow> pr_region s' = pr_region s \<and>
     (\<forall>j < sz. vm_byte (pr_vm s') (c + word_of_nat j) = vm_byte (pr_vm s) (c + word_of_nat j) \<and>
        vm_prot (pr_vm s') (c + word_of_nat j) = vm_prot (pr_vm s) (c + word_of_nat j))"

lemma page_same_section:
  assumes "same_section c sz s s'" "q + 4096 \<le> sz"
  shows "page_same s' c fd q = page_same s c fd q"
proof -
  have "vm_byte (pr_vm s') (c + word_of_nat (q + i)) = vm_byte (pr_vm s) (c + word_of_nat (q + i))" if "i < 4096" for i
    using assms that by (simp add: same_section_def del: of_nat_add)
  then show ?thesis using assms(1) by (simp add: page_same_def same_section_def del: of_nat_add)
qed

lemma flush_same:
  assumes "\<And>i. i < unat len \<Longrightarrow> vm_byte vm (a + word_of_nat i) = region fd i"
  shows "flush_map vm \<lparr>sm_start = a, sm_len = len, sm_fd = fd, sm_offset = 0\<rparr> region = region"
  using assms by (auto simp: flush_map_def fun_eq_iff)

lemma fold_flush_same:
  assumes "\<And>i. i < unat len \<Longrightarrow> vm_byte vm (a + word_of_nat i) = region fd i"
    and "\<forall>mp \<in> set ms. mp = \<lparr>sm_start = a, sm_len = len, sm_fd = fd, sm_offset = 0\<rparr>"
  shows "fold (flush_map vm) ms region = region"
  using assms(2) by (induction ms) (simp_all add: flush_same [where region = region, OF assms(1)])

text \<open>Removing a mapping of a region that still has the contents of the region.\<close>

lemma Deallocate_unchanged:
  assumes k: "grants_fixed k" and a: "a \<noteq> 0"
    and content: "\<And>i. i < unat len \<Longrightarrow> vm_byte (pr_vm s) (a + word_of_nat i) = pr_region s fd i"
    and maps: "\<And>mp. mp \<in> set (pr_shared s) \<Longrightarrow> sm_start mp = a \<Longrightarrow>
        mp = \<lparr>sm_start = a, sm_len = len, sm_fd = fd, sm_offset = 0\<rparr>"
    and out: "\<And>j. j < sz \<Longrightarrow> \<not> in_range (c + word_of_nat j) a (PAGE_END len)"
  shows "same_section c sz s (snd (MemoryMapping_Deallocate k \<lparr>mm_map = a, mm_size = len\<rparr> s)) \<and>
     pr_shared (snd (MemoryMapping_Deallocate k \<lparr>mm_map = a, mm_size = len\<rparr> s)) =
       filter (\<lambda>mp. \<not> (sm_start mp = a \<and> sm_len mp = len)) (pr_shared s)"
proof -
  have "fold (flush_map (pr_vm s)) (filter (\<lambda>mp. sm_start mp = a \<and> sm_len mp = len) (pr_shared s)) (pr_region s) =
      pr_region s"
    using maps by (intro fold_flush_same [where region = "pr_region s", OF content]) auto
  then show ?thesis
    using k a out by (simp add: MemoryMapping_Deallocate_def proc_munmap_def grants_fixed_def Let_def
        same_section_def sys_munmap_def vm_set_prot_def)
qed

text \<open>Making one.\<close>

lemma Allocate_fresh:
  fixes s :: "('w::len) word process"
  assumes fresh: "picks_fresh k c sz (pr_shared s)" and w: "12 \<le> LENGTH('w)" and len: "unat len mod 4096 = 0"
    and alloc: "MemoryMapping_Allocate k 0 len prot fd s = (True, mp, s')"
  obtains a where "mp = \<lparr>mm_map = a, mm_size = len\<rparr>" "a \<noteq> 0" "same_section c sz s s'"
    "\<And>i. i < unat len \<Longrightarrow> vm_byte (pr_vm s') (a + word_of_nat i) = pr_region s' fd i"
    "pr_shared s' = \<lparr>sm_start = a, sm_len = len, sm_fd = fd, sm_offset = 0\<rparr> # pr_shared s"
    "\<And>j. j < sz \<Longrightarrow> \<not> in_range (c + word_of_nat j) a (PAGE_END len)"
    "\<And>mp. mp \<in> set (pr_shared s) \<Longrightarrow> sm_start mp \<noteq> a"
proof -
  from alloc obtain a where a: "k_mmap k 0 len prot fd = Inr a" and mp: "mp = \<lparr>mm_map = a, mm_size = len\<rparr>"
    and s': "s' = s\<lparr>pr_vm := vm_set_prot a (PAGE_END len) (Some prot)
          (vm_set_bytes a (PAGE_END len) (\<lambda>i. pr_region s fd (unat i)) (pr_vm s)),
        pr_shared := \<lparr>sm_start = a, sm_len = len, sm_fd = fd, sm_offset = 0\<rparr> # pr_shared s\<rparr>"
    by (auto simp: MemoryMapping_Allocate_def proc_mmap_def split: sum.splits)
  have end_len: "PAGE_END len = len"
    using unat_PAGE_END_aligned [OF len w] by (rule word_unat_eq_iff [THEN iffD2])
  note fr = fresh [unfolded picks_fresh_def, rule_format, OF a]
  have out: "\<not> in_range (c + word_of_nat j) a (PAGE_END len)" if "j < sz" for j using fr that by blast
  have "vm_byte (pr_vm s') (a + word_of_nat i) = pr_region s' fd i" if "i < unat len" for i
  proof -
    have "unat (word_of_nat i :: 'w word) = i"
      using that unsigned_less [of len] less_trans by (intro unat_word_of_nat_small) blast
    with that show ?thesis
      by (simp add: s' end_len vm_set_bytes_def in_range_def word_less_nat_alt)
  qed
  moreover have "same_section c sz s s'"
    using out by (simp add: same_section_def s' vm_set_bytes_def vm_set_prot_def)
  ultimately show ?thesis
    using that [OF mp] fr out s' by simp
qed

lemma CheckFileDescriptor_frame:
  fixes s :: "('w::len) word process"
  assumes w: "elf_width LENGTH('w)" and k: "grants_fixed k" and fresh: "picks_fresh k c sz (pr_shared s)"
    and ok: "CheckFileDescriptorIsReadOnly k fd s = (True, s')"
  shows "same_section c sz s s' \<and> pr_shared s' = pr_shared s"
proof -
  have w12: "12 \<le> LENGTH('w)" using w by (auto simp: elf_width_def)
  have page: "unat (4096 :: 'w word) mod 4096 = 0"
    using w by (auto simp: elf_width_def unsigned_numeral take_bit_eq_mod)
  define s1 where "s1 = snd (snd (MemoryMapping_Allocate k 0 4096 PROT_WRITE fd s))"
  have first: "\<not> fst (MemoryMapping_Allocate k 0 4096 PROT_WRITE fd s)"
    using ok by (auto simp: CheckFileDescriptorIsReadOnly_def split: prod.splits if_splits)
  then have s1: "same_section c sz s s1 \<and> pr_shared s1 = pr_shared s"
    by (auto simp: s1_def MemoryMapping_Allocate_def proc_mmap_def same_section_def split: sum.splits)
  from ok first obtain mp s2 s3 where
    alloc: "MemoryMapping_Allocate k 0 4096 PROT_READ fd s1 = (True, mp, s2)"
    and prot: "MemoryMapping_SetProtection k mp (PROT_READ OR PROT_WRITE) s2 = (False, s3)"
    and s': "s' = snd (MemoryMapping_Deallocate k mp s3)"
    by (auto simp: CheckFileDescriptorIsReadOnly_def s1_def split: prod.splits if_splits)
  obtain a where mp: "mp = \<lparr>mm_map = a, mm_size = 4096\<rparr>" "a \<noteq> 0" "same_section c sz s1 s2"
    "\<And>i. i < unat (4096 :: 'w word) \<Longrightarrow> vm_byte (pr_vm s2) (a + word_of_nat i) = pr_region s2 fd i"
    "pr_shared s2 = \<lparr>sm_start = a, sm_len = 4096, sm_fd = fd, sm_offset = 0\<rparr> # pr_shared s1"
    "\<And>j. j < sz \<Longrightarrow> \<not> in_range (c + word_of_nat j) a (PAGE_END 4096)"
    "\<And>mp. mp \<in> set (pr_shared s1) \<Longrightarrow> sm_start mp \<noteq> a"
    using Allocate_fresh [OF _ w12 page alloc] fresh s1 by metis
  have s3: "\<exists>e. s3 = s2\<lparr>pr_errno := e\<rparr>"
    using prot mp(1,2) by (auto simp: MemoryMapping_SetProtection_def split: option.splits)
  have rest: "same_section c sz s3 s' \<and> pr_shared s' = pr_shared s1"
  proof -
    have "pr_vm s3 = pr_vm s2" "pr_region s3 = pr_region s2" "pr_shared s3 = pr_shared s2" using s3 by auto
    moreover have "filter (\<lambda>m. \<not> (sm_start m = a \<and> sm_len m = 4096)) (pr_shared s1) = pr_shared s1"
      using mp(7) by (auto simp: filter_id_conv)
    ultimately show ?thesis
      unfolding s' mp(1) using Deallocate_unchanged [OF k mp(2), of 4096 s3 fd sz c] mp(4-7) by auto
  qed
  have "same_section c sz s2 s3" using s3 by (auto simp: same_section_def)
  with s1 mp(3) rest show ?thesis by (simp add: same_section_def)
qed

text \<open>What sharing a section takes for granted of the process.\<close>

definition section_ok :: "('w::len) word kernel \<Rightarrow> 'w word \<Rightarrow> 'w word \<Rightarrow> 'w word process \<Rightarrow> bool" where
  "section_ok k c len s \<longleftrightarrow>
     elf_width LENGTH('w) \<and> grants_fixed k \<and> picks_fresh k c (unat len) (pr_shared s) \<and> unat len mod 4096 = 0 \<and>
     (\<forall>j < unat len. c + word_of_nat j \<noteq> 0 \<and> (\<forall>mp \<in> set (pr_shared s). sm_start mp \<noteq> c + word_of_nat j))"

definition shares_pages :: "('w::len) word process \<Rightarrow> 'w word \<Rightarrow> int \<Rightarrow> nat \<Rightarrow> 'w word process \<Rightarrow> bool" where
  "shares_pages s c fd sz s' \<longleftrightarrow> pr_region s' = pr_region s \<and>
     (\<forall>j < sz. vm_byte (pr_vm s') (c + word_of_nat j) = vm_byte (pr_vm s) (c + word_of_nat j) \<and>
        vm_prot (pr_vm s') (c + word_of_nat j) =
          (if page_same s c fd (page_down j) then Some PROT_READ else vm_prot (pr_vm s) (c + word_of_nat j)))"

lemma InitFrom_shares:
  fixes s :: "('w::len) word process"
  assumes ok: "section_ok k c len s" and check: "CheckFileDescriptorIsReadOnly k fd s = (True, s1)"
    and alloc: "MemoryMapping_Allocate k 0 len PROT_READ fd s1 = (True, mp, s2)"
  shows "\<exists>shared r' s'. SharedRelro_InitFrom k c len fd r s = (shared, None, r', s') \<and>
     shares_pages s c fd (unat len) s' \<and>
     (shared \<longleftrightarrow> (\<exists>q < unat len. q mod 4096 = 0 \<and> page_same s c fd q)) \<and>
     (shared \<longrightarrow> sr_start r' = c \<and> sr_size r' = len)"
proof -
  have w: "elf_width LENGTH('w)" and k: "grants_fixed k" and fresh: "picks_fresh k c (unat len) (pr_shared s)"
    and al: "unat len mod 4096 = 0"
    and sec: "\<And>j. j < unat len \<Longrightarrow> c + word_of_nat j \<noteq> 0"
      "\<And>j mp. j < unat len \<Longrightarrow> mp \<in> set (pr_shared s) \<Longrightarrow> sm_start mp \<noteq> c + word_of_nat j"
    using ok by (auto simp: section_ok_def)
  have w12: "12 \<le> LENGTH('w)" using w by (auto simp: elf_width_def)
  have s1: "same_section c (unat len) s s1" "pr_shared s1 = pr_shared s"
    using CheckFileDescriptor_frame [OF w k fresh check] by auto
  obtain a where mp: "mp = \<lparr>mm_map = a, mm_size = len\<rparr>" "a \<noteq> 0" "same_section c (unat len) s1 s2"
    "\<And>i. i < unat len \<Longrightarrow> vm_byte (pr_vm s2) (a + word_of_nat i) = pr_region s2 fd i"
    "pr_shared s2 = \<lparr>sm_start = a, sm_len = len, sm_fd = fd, sm_offset = 0\<rparr> # pr_shared s1"
    "\<And>j. j < unat len \<Longrightarrow> \<not> in_range (c + word_of_nat j) a (PAGE_END len)"
    "\<And>mp. mp \<in> set (pr_shared s1) \<Longrightarrow> sm_start mp \<noteq> a"
    using Allocate_fresh [OF _ w12 al alloc] fresh s1(2) by metis
  have sec2: "same_section c (unat len) s s2" using s1(1) mp(3) by (simp add: same_section_def)
  have same: "page_same s2 c fd q = page_same s c fd q" if "q < unat len" "q mod 4096 = 0" for q
    using page_same_section [OF sec2, of q fd] that al aligned_step [of "unat len" q] by auto
  have apart: "c + word_of_nat j \<noteq> a" if j: "j < unat len" for j
  proof
    assume "c + word_of_nat j = a"
    moreover have "PAGE_END len = len"
      using unat_PAGE_END_aligned [OF al w12] by (rule word_unat_eq_iff [THEN iffD2])
    moreover have "len \<noteq> 0" using j by auto
    ultimately show False using mp(6) [OF j] by (simp add: in_range_def word_gt_0)
  qed
  have ready: "loop_ready s2 c a fd (unat len) 0"
    using al sec mp(4,5) s1(2) apart apart [symmetric] unsigned_less [of len] by (simp add: loop_ready_def)
  obtain n s3 where loop: "InitFrom_loop k c a fd (unat len) 0 0 s2 = (Inr n, s3)"
    "loop_done s2 c fd (unat len) 0 s3"
    and hits: "0 < n \<longleftrightarrow> (\<exists>q. 0 \<le> q \<and> q < unat len \<and> q mod 4096 = 0 \<and> page_same s2 c fd q)"
    using InitFrom_loop_done [OF k w12 ready, of 0] by (elim exE conjE)
  define s4 where "s4 = snd (MemoryMapping_Deallocate k mp s3)"
  have "same_section c (unat len) s3 s4"
    unfolding s4_def mp(1)
  proof (rule conjunct1 [OF Deallocate_unchanged [OF k mp(2) _ _ mp(6)]])
    show "vm_byte (pr_vm s3) (a + word_of_nat i) = pr_region s3 fd i" if "i < unat len" for i
      using loop(2) mp(4) [OF that] by (simp add: loop_done_def)
    show "m = \<lparr>sm_start = a, sm_len = len, sm_fd = fd, sm_offset = 0\<rparr>" if "m \<in> set (pr_shared s3)" "sm_start m = a" for m
      using loop(2) that apart mp(5,7) unfolding loop_done_def by force
  qed
  then have "shares_pages s c fd (unat len) s4"
    using loop(2) sec2 same page_down_bounds(2) [OF al]
    by (simp add: shares_pages_def loop_done_def same_section_def)
  moreover have "SharedRelro_InitFrom k c len fd r s =
      (n \<noteq> 0, None, if n = 0 then r else r\<lparr>sr_start := c, sr_size := len\<rparr>, s4)"
    using loop(1) mp(1,2) by (simp add: SharedRelro_InitFrom_def check alloc s4_def MemoryMapping_Deallocate_def)
  moreover have "n \<noteq> 0 \<longleftrightarrow> (\<exists>q < unat len. q mod 4096 = 0 \<and> page_same s c fd q)"
    using hits same by auto
  moreover have "n \<noteq> 0 \<longrightarrow> sr_start (if n = 0 then r else r\<lparr>sr_start := c, sr_size := len\<rparr>) = c \<and>
      sr_size (if n = 0 then r else r\<lparr>sr_start := c, sr_size := len\<rparr>) = len" by simp
  ultimately show ?thesis
    by (intro exI [of _ "n \<noteq> 0"] exI [of _ "if n = 0 then r else r\<lparr>sr_start := c, sr_size := len\<rparr>"] exI [of _ s4] conjI)
qed

lemma CopyFrom_fills:
  fixes s :: "('w::len) word process"
  assumes ok: "section_ok k c len s"
    and alloc: "MemoryMapping_Allocate k 0 len PROT_WRITE (sr_ashmem r) s = (True, mp, s2)"
  shows "\<exists>s'. SharedRelro_CopyFrom k c len r s = (None, r\<lparr>sr_start := c, sr_size := len\<rparr>, s') \<and>
     (\<forall>i < unat len. pr_region s' (sr_ashmem r) i = vm_byte (pr_vm s) (c + word_of_nat i) \<and>
        vm_byte (pr_vm s') (c + word_of_nat i) = vm_byte (pr_vm s) (c + word_of_nat i) \<and>
        vm_prot (pr_vm s') (c + word_of_nat i) = vm_prot (pr_vm s) (c + word_of_nat i)) \<and>
     pr_shared s' = pr_shared s"
proof -
  have w: "elf_width LENGTH('w)" and k: "grants_fixed k" and fresh: "picks_fresh k c (unat len) (pr_shared s)"
    and al: "unat len mod 4096 = 0" using ok by (auto simp: section_ok_def)
  have w12: "12 \<le> LENGTH('w)" using w by (auto simp: elf_width_def)
  have end_len: "PAGE_END len = len"
    using unat_PAGE_END_aligned [OF al w12] by (rule word_unat_eq_iff [THEN iffD2])
  let ?fd = "sr_ashmem r"
  obtain a where mp: "mp = \<lparr>mm_map = a, mm_size = len\<rparr>" "a \<noteq> 0" "same_section c (unat len) s s2"
    "pr_shared s2 = \<lparr>sm_start = a, sm_len = len, sm_fd = ?fd, sm_offset = 0\<rparr> # pr_shared s"
    "\<And>j. j < unat len \<Longrightarrow> \<not> in_range (c + word_of_nat j) a (PAGE_END len)"
    "\<And>mp. mp \<in> set (pr_shared s) \<Longrightarrow> sm_start mp \<noteq> a"
    using Allocate_fresh [OF fresh w12 al alloc] by metis
  define s3 where "s3 = s2\<lparr>pr_vm := vm_memcpy a c len (pr_vm s2)\<rparr>"
  have gone: "filter (\<lambda>m. sm_start m = a \<and> sm_len m = len) (pr_shared s3) =
      [\<lparr>sm_start = a, sm_len = len, sm_fd = ?fd, sm_offset = 0\<rparr>]"
    "filter (\<lambda>m. \<not> (sm_start m = a \<and> sm_len m = len)) (pr_shared s3) = pr_shared s"
    using mp(4,6) by (auto simp: s3_def filter_empty_conv filter_id_conv)
  define s4 where "s4 = snd (MemoryMapping_Deallocate k mp s3)"
  have s4: "s4 = s3\<lparr>pr_vm := sys_munmap a len (pr_vm s3),
      pr_region := flush_map (pr_vm s3) \<lparr>sm_start = a, sm_len = len, sm_fd = ?fd, sm_offset = 0\<rparr> (pr_region s3),
      pr_shared := pr_shared s\<rparr>"
    using k mp(1,2) gone by (simp add: s4_def MemoryMapping_Deallocate_def proc_munmap_def grants_fixed_def)
  have run: "SharedRelro_CopyFrom k c len r s = (None, r\<lparr>sr_start := c, sr_size := len\<rparr>, s4)"
    using mp(1,2) by (simp add: SharedRelro_CopyFrom_def alloc s3_def s4_def MemoryMapping_Deallocate_def)
  have reg: "pr_region s4 ?fd i = vm_byte (pr_vm s) (c + word_of_nat i)" if i: "i < unat len" for i
  proof -
    have "unat (word_of_nat i :: 'w word) = i"
      using i unsigned_less [of len] less_trans by (intro unat_word_of_nat_small) blast
    then have "vm_byte (pr_vm s3) (a + word_of_nat i) = vm_byte (pr_vm s2) (c + word_of_nat i)"
      using i by (simp add: s3_def vm_memcpy_def vm_set_bytes_def in_range_def word_less_nat_alt)
    with i mp(3) show ?thesis by (simp add: s4 flush_map_def same_section_def)
  qed
  have "vm_byte (pr_vm s4) (c + word_of_nat i) = vm_byte (pr_vm s) (c + word_of_nat i) \<and>
      vm_prot (pr_vm s4) (c + word_of_nat i) = vm_prot (pr_vm s) (c + word_of_nat i)" if i: "i < unat len" for i
    using mp(3) mp(5) [OF i] i
    by (simp add: s4 s3_def same_section_def sys_munmap_def vm_memcpy_def vm_set_bytes_def vm_set_prot_def end_len)
  with run reg show ?thesis by (intro exI [of _ s4]) (simp add: s4)
qed

section \<open>An example process\<close>

text \<open>A kernel that maps one page where asked, or at 0x40000, and a process with a page of zeroes at
  0x10000. The second kernel refuses writable mappings, as it does for a read-only region.\<close>

definition open_kernel :: "32 word kernel" where
  "open_kernel = \<lparr>k_mmap = (\<lambda>a l p fd. if a \<noteq> 0 then Inr a else if l = 4096 then Inr 0x40000 else Inl 12),
     k_mprotect = (\<lambda>_ _ _. None), k_munmap = (\<lambda>_ _. None), k_open_ashmem = Inr 5, k_set_size = (\<lambda>_ _. None),
     k_set_name = (\<lambda>_ _. None), k_set_prot_mask = (\<lambda>_ _. None)\<rparr>"

definition sealed_kernel :: "32 word kernel" where
  "sealed_kernel = open_kernel\<lparr>
     k_mmap := (\<lambda>a l p fd. if a \<noteq> 0 then Inr a else if p = PROT_WRITE then Inl EPERM
                 else if l = 4096 then Inr 0x40000 else Inl 12),
     k_mprotect := (\<lambda>_ _ _. Some EACCES)\<rparr>"

definition page_process :: "32 word process" where
  "page_process = \<lparr>pr_vm = zero_vm, pr_region = (\<lambda>_ _. 7), pr_shared = [], pr_open = {5}, pr_errno = 0\<rparr>"

lemma page_offset_nonzero: "j < 4096 \<Longrightarrow> 0x10000 + word_of_nat j \<noteq> (0 :: 32 word)"
proof
  assume j: "j < 4096" and "0x10000 + word_of_nat j = (0 :: 32 word)"
  then have "word_of_nat (0x10000 + j) = (0 :: 32 word)" by simp
  then have "unat (word_of_nat (0x10000 + j) :: 32 word) = 0" by simp
  moreover have "unat (word_of_nat (0x10000 + j) :: 32 word) = 0x10000 + j"
    using j by (intro unat_word_of_nat_small) simp
  ultimately show False by simp
qed

lemma page_far: "j < 4096 \<Longrightarrow> \<not> in_range (0x10000 + word_of_nat j) 0x40000 (PAGE_END (4096 :: 32 word))"
proof -
  assume j: "j < 4096"
  have x: "0x10000 + word_of_nat j - 0x40000 = (word_of_nat (0xfffd0000 + j) :: 32 word)" by simp
  have "unat (word_of_nat (0xfffd0000 + j) :: 32 word) = 0xfffd0000 + j"
    using j by (intro unat_word_of_nat_small) simp
  moreover have "PAGE_END (4096 :: 32 word) = 4096" by (simp add: PAGE_END_def PAGE_START_def PAGE_MASK_def)
  ultimately show ?thesis unfolding in_range_def x word_less_nat_alt by simp
qed

lemma kernels_fresh:
  "picks_fresh open_kernel 0x10000 4096 []" "picks_fresh sealed_kernel 0x10000 4096 []"
  using page_far by (auto simp: picks_fresh_def open_kernel_def sealed_kernel_def split: if_splits)

lemma kernels_section:
  "pr_shared s = [] \<Longrightarrow> section_ok open_kernel 0x10000 4096 s"
  "pr_shared s = [] \<Longrightarrow> section_ok sealed_kernel 0x10000 4096 s"
  using page_offset_nonzero kernels_fresh
  by (auto simp: section_ok_def grants_fixed_def open_kernel_def sealed_kernel_def)

lemma sealed_check: "fst (CheckFileDescriptorIsReadOnly sealed_kernel fd s)"
  by (simp add: CheckFileDescriptorIsReadOnly_def MemoryMapping_Allocate_def proc_mmap_def sealed_kernel_def
      open_kernel_def MemoryMapping_SetProtection_def PROT_READ_def PROT_WRITE_def EPERM_def EACCES_def)

lemma kernels_alloc:
  "fst (MemoryMapping_Allocate open_kernel 0 4096 p fd s)"
  "fst (MemoryMapping_Allocate sealed_kernel 0 4096 PROT_READ fd s)"
  by (simp_all add: MemoryMapping_Allocate_def proc_mmap_def sealed_kernel_def open_kernel_def PROT_READ_def PROT_WRITE_def)

section \<open>Properties\<close>





end
