(* ===== verification/Rdebug.thy ===== *)
theory Rdebug
  imports Elf_Memory Proc_Maps Crazy_Util
begin

text \<open>
  The list of libraries the debugger reads, class \<open>RDebug\<close> of \<open>crazy_linker_rdebug.cpp\<close>: finding the
  system linker's \<open>_r_debug\<close> through the executable's dynamic section, inserting and removing entries
  of its doubly linked list \<open>r_map\<close>, making read-only pages writable for the time of a store, and
  posting the two operations to another thread.

  The structures \<open>r_debug\<close> and \<open>link_map_t\<close> are in the memory of the process, at the offsets the C++
  declarations give them. A store to a page that is not writable, and an access through \<open>NULL\<close>, is the
  value \<^term>\<open>None\<close>. A call of \<open>r_brk\<close> is where the debugger looks at the list: the trace holds the
  memory at each of these calls.
\<close>

section \<open>The structures in memory\<close>

definition r_version :: "('w::len) word vm \<Rightarrow> 'w word \<Rightarrow> nat" where
  "r_version vm r = le_at (mem_from vm r) 0 4"

definition r_map_ptr :: "('w::len) word \<Rightarrow> 'w word" where
  "r_map_ptr r = r + word_of_nat (addr_size LENGTH('w))"

definition r_state_ptr :: "('w::len) word \<Rightarrow> 'w word" where
  "r_state_ptr r = r + word_of_nat (3 * addr_size LENGTH('w))"

definition l_next_ptr :: "('w::len) word \<Rightarrow> 'w word" where
  "l_next_ptr n = n + word_of_nat (3 * addr_size LENGTH('w))"

definition l_prev_ptr :: "('w::len) word \<Rightarrow> 'w word" where
  "l_prev_ptr n = n + word_of_nat (4 * addr_size LENGTH('w))"

definition r_map :: "('w::len) word vm \<Rightarrow> 'w word \<Rightarrow> 'w word" where
  "r_map vm r = read_addr vm (r_map_ptr r)"

definition l_next :: "('w::len) word vm \<Rightarrow> 'w word \<Rightarrow> 'w word" where
  "l_next vm n = read_addr vm (l_next_ptr n)"

definition l_prev :: "('w::len) word vm \<Rightarrow> 'w word \<Rightarrow> 'w word" where
  "l_prev vm n = read_addr vm (l_prev_ptr n)"

datatype r_state = RT_CONSISTENT | RT_ADD | RT_DELETE

fun r_state_num :: "r_state \<Rightarrow> nat" where
  "r_state_num RT_CONSISTENT = 0"
| "r_state_num RT_ADD = 1"
| "r_state_num RT_DELETE = 2"

definition r_state_at :: "('w::len) word vm \<Rightarrow> 'w word \<Rightarrow> nat" where
  "r_state_at vm r = le_at (mem_from vm (r_state_ptr r)) 0 4"

text \<open>Stores, which need a writable page.\<close>

definition writable :: "('w::len) word vm \<Rightarrow> 'w word \<Rightarrow> bool" where
  "writable vm a = (case vm_prot vm a of None \<Rightarrow> False | Some p \<Rightarrow> p AND PROT_WRITE \<noteq> 0)"

definition store_addr :: "('w::len) word \<Rightarrow> 'w word \<Rightarrow> 'w word vm \<Rightarrow> 'w word vm option" where
  "store_addr a v vm =
     (if list_all (\<lambda>i. writable vm (a + word_of_nat i)) [0..<addr_size LENGTH('w)]
      then Some (write_addr vm a v) else None)"

definition store_int32 :: "('w::len) word \<Rightarrow> nat \<Rightarrow> 'w word vm \<Rightarrow> 'w word vm option" where
  "store_int32 a v vm =
     (if list_all (\<lambda>i. writable vm (a + word_of_nat i)) [0..<4]
      then Some (vm\<lparr>vm_byte := (\<lambda>x. if unat (x - a) < 4 then le_bytes 4 v ! unat (x - a) else vm_byte vm x)\<rparr>)
      else None)"

section \<open>Finding the executable\<close>

record 'addr rdebug_env =
  env_exe_link :: "char list option"
  env_exe_file :: "char list \<Rightarrow> elf_file"
  env_self_maps :: "'addr vm \<Rightarrow> 'addr proc_maps"
  env_refuse :: "'addr refusal"

definition FindExecutablePath :: "('w::len) word rdebug_env \<Rightarrow> char list option" where
  "FindExecutablePath env = map_option (take 512) (env_exe_link env)"

definition e_phentsize :: "nat \<Rightarrow> (nat \<Rightarrow> byte) \<Rightarrow> nat" where
  "e_phentsize bits f = le_at f (if bits = 32 then 42 else 54) 2"

text \<open>The loop over the program headers; the result of a read that fails is \<^term>\<open>None\<close>.\<close>

fun scan_phdrs ::
  "elf_file \<Rightarrow> nat \<Rightarrow> nat \<Rightarrow> ('w::len) word phdr option \<Rightarrow> 'w word phdr option \<Rightarrow>
     ('w word phdr option \<times> 'w word phdr option) option" where
  "scan_phdrs file 0 pos load0 dyn = Some (load0, dyn)"
| "scan_phdrs file (Suc n) pos load0 dyn =
     (if \<not> f_reads file \<or> f_size file < pos + sizeof_Phdr LENGTH('w) then None
      else
        let ph = decode_phdr (f_byte file) pos in
        if p_type ph = PT_LOAD \<and> load0 = None
        then scan_phdrs file n (pos + sizeof_Phdr LENGTH('w)) (Some ph) dyn
        else if p_type ph = PT_DYNAMIC \<and> dyn = None
        then scan_phdrs file n (pos + sizeof_Phdr LENGTH('w)) load0 (Some ph)
        else scan_phdrs file n (pos + sizeof_Phdr LENGTH('w)) load0 dyn)"

definition FindElfDynamicSection ::
  "elf_file \<Rightarrow> char list \<Rightarrow> ('w::len) word proc_maps \<Rightarrow> ('w word \<times> 'w word) option \<times> 'w word proc_maps" where
  "FindElfDynamicSection file path self_maps =
     (let header = decode_ehdr (f_byte file) 0 :: 'w word ehdr in
      if \<not> f_opens file \<or> \<not> f_reads file \<or> f_size file < sizeof_Ehdr LENGTH('w) then (None, self_maps)
      else if take 4 (e_ident header) \<noteq> ELFMAG \<or> e_ident header ! 4 \<noteq> kElfClass LENGTH('w) then (None, self_maps)
      else if e_phoff header = 0 \<or> e_phentsize LENGTH('w) (f_byte file) \<noteq> sizeof_Phdr LENGTH('w)
      then (None, self_maps)
      else if \<not> f_seeks file then (None, self_maps)
      else case scan_phdrs file (e_phnum header) (unat (e_phoff header)) None None of
        Some (Some load0, Some dyn) \<Rightarrow>
          entry_loop (\<lambda>entry.
            case entry_path entry of
              None \<Rightarrow> None
            | Some p \<Rightarrow>
                if path_len entry \<noteq> length path \<or> take (length path) p \<noteq> path then None
                else let bias = vma_start entry - p_vaddr load0 in Some (bias + p_vaddr dyn, p_memsz dyn))
            (ProcMaps_Rewind self_maps)
      | _ \<Rightarrow> (None, self_maps))"

section \<open>Making a page writable\<close>

definition page_of :: "('w::len) word \<Rightarrow> 'w word" where
  "page_of address = address AND NOT (4096 - 1)"

text \<open>\<open>page_address_\<close> and \<open>page_prot_\<close> of a \<open>ScopedPageMapper\<close>, and the memory after the call.\<close>

definition MapReadWrite ::
  "('w::len) word rdebug_env \<Rightarrow> 'w word \<Rightarrow> 'w word vm \<Rightarrow> ('w word \<times> 32 word) \<times> 'w word vm" where
  "MapReadWrite env address vm =
     (let page_address = page_of address in
      case FindProtectionFlagsForAddress (env_self_maps env vm) address of
        None \<Rightarrow> ((0, 0), vm)
      | Some page_prot \<Rightarrow>
          if page_prot AND (PROT_READ OR PROT_WRITE) = PROT_READ OR PROT_WRITE then ((0, page_prot), vm)
          else
            let new_page_prot = page_prot OR PROT_READ OR PROT_WRITE;
                (ret, vm) = sys_mprotect (env_refuse env) page_address 4096 new_page_prot vm
            in if ret < 0 then ((0, page_prot), vm) else ((page_address, page_prot), vm))"

definition ScopedPageMapper_end ::
  "('w::len) word rdebug_env \<Rightarrow> 'w word \<times> 32 word \<Rightarrow> 'w word vm \<Rightarrow> 'w word vm" where
  "ScopedPageMapper_end env mapper vm =
     (if fst mapper \<noteq> 0 then snd (sys_mprotect (env_refuse env) (fst mapper) 4096 (snd mapper) vm) else vm)"

text \<open>The blocks \<open>{ ScopedPageMapper mapper; if (readonly_entries_) ...; ... = v; }\<close>: a store under the
  protection of the mapper, which is undone at the end of the block.\<close>

definition mapped_store ::
  "('w::len) word rdebug_env \<Rightarrow> bool \<Rightarrow> 'w word \<Rightarrow> 'w word \<Rightarrow> 'w word \<Rightarrow> 'w word vm \<Rightarrow> 'w word vm option" where
  "mapped_store env readonly_entries node a v vm =
     (let (mapper, vm) = (if readonly_entries then MapReadWrite env node vm else ((0, 0), vm)) in
      do {
        vm \<leftarrow> store_addr a v vm;
        Some (ScopedPageMapper_end env mapper vm)
      })"

section \<open>The class \<open>RDebug\<close>\<close>

datatype rdebug_handler = AddEntryInternal | DelEntryInternal

text \<open>\<open>post_for_later_execution_\<close> with its context decides whether a task is accepted; \<^term>\<open>None\<close> is the
  null poster. The accepted tasks wait in \<open>rd_posted\<close> for the other thread.\<close>

record 'addr rdebug =
  r_debug :: 'addr
  init :: bool
  readonly_entries :: bool
  post_for_later_execution :: "(rdebug_handler \<times> 'addr \<Rightarrow> bool) option"
  rd_posted :: "(rdebug_handler \<times> 'addr) list"

definition RDebug_Init :: "('w::len) word rdebug" where
  "RDebug_Init = \<lparr>r_debug = 0, init = False, readonly_entries = False,
     post_for_later_execution = None, rd_posted = []\<rparr>"

definition SetDelayedCallbackPoster ::
  "(rdebug_handler \<times> ('w::len) word \<Rightarrow> bool) option \<Rightarrow> 'w word rdebug \<Rightarrow> 'w word rdebug" where
  "SetDelayedCallbackPoster poster rd = rd\<lparr>post_for_later_execution := poster\<rparr>"

definition DT_DEBUG :: nat where "DT_DEBUG = 21"

text \<open>The loop over the dynamic section: the number of entries that are left, and their address.\<close>

fun RDebug_scan ::
  "('w::len) word vm \<Rightarrow> 'w word proc_maps \<Rightarrow> nat \<Rightarrow> 'w word \<Rightarrow> 'w word rdebug \<Rightarrow> (bool \<times> 'w word rdebug) option" where
  "RDebug_scan vm self_maps 0 dyn rd = Some (False, rd)"
| "RDebug_scan vm self_maps (Suc n) dyn rd =
     (let d_ptr = read_addr vm (dyn + word_of_nat (addr_size LENGTH('w))) in
      if unat (read_addr vm dyn) = DT_DEBUG \<and> d_ptr \<noteq> 0
      then
        let rd = rd\<lparr>r_debug := d_ptr\<rparr>;
            rd = (if r_version vm (r_debug rd) \<noteq> 1 then rd\<lparr>r_debug := 0\<rparr> else rd)
        in if r_debug rd = 0 then None
           else
             let prot = fst (GetProtectionFlagsForAddress (r_map vm (r_debug rd)) self_maps)
             in Some (True, rd\<lparr>readonly_entries := (prot AND PROT_WRITE = 0)\<rparr>)
      else RDebug_scan vm self_maps n (dyn + word_of_nat (sizeof_Dyn LENGTH('w))) rd)"

definition RDebug_Init_method ::
  "('w::len) word rdebug_env \<Rightarrow> 'w word vm \<Rightarrow> 'w word rdebug \<Rightarrow> (bool \<times> 'w word rdebug) option" where
  "RDebug_Init_method env vm rd =
     (let rd = rd\<lparr>init := True\<rparr> in
      case FindExecutablePath env of
        None \<Rightarrow> Some (False, rd)
      | Some path \<Rightarrow>
          (case FindElfDynamicSection (env_exe_file env (c_str path)) (c_str path) (env_self_maps env vm) of
             (None, self_maps) \<Rightarrow> Some (False, rd)
           | (Some (dynamic_addr, dynamic_size), self_maps) \<Rightarrow>
               RDebug_scan vm self_maps (unat dynamic_size div sizeof_Dyn LENGTH('w)) dynamic_addr rd))"

text \<open>The state an operation works on: the object, the memory, and the memory at each call of \<open>r_brk\<close>.\<close>

type_synonym 'addr dbg_state = "'addr rdebug \<times> 'addr vm \<times> 'addr vm list"

text \<open>\<open>AddEntryImpl\<close> after the call of \<open>Init\<close>.\<close>

definition AddEntry_link ::
  "('w::len) word rdebug_env \<Rightarrow> 'w word \<Rightarrow> 'w word dbg_state \<Rightarrow> 'w word dbg_state option" where
  "AddEntry_link env entry = (\<lambda>(rd, vm, brks).
     if r_debug rd = 0 then Some (rd, vm, brks)
     else do {
       vm \<leftarrow> store_int32 (r_state_ptr (r_debug rd)) (r_state_num RT_ADD) vm;
       let brks = brks @ [vm];
       let head = r_map vm (r_debug rd);
       let malformed = (head = 0 \<or> l_next vm head = 0 \<or> l_next vm (l_next vm head) = 0);
       let before = l_next vm head;
       let after = l_next vm before;
       let readonly = readonly_entries rd;
       if malformed then Some (rd\<lparr>r_debug := 0\<rparr>, vm, brks)
       else do {
         vm \<leftarrow> store_addr (l_prev_ptr entry) before vm;
         vm \<leftarrow> store_addr (l_next_ptr entry) after vm;
         vm \<leftarrow> mapped_store env readonly before (l_next_ptr before) entry vm;
         vm \<leftarrow> mapped_store env readonly after (l_prev_ptr after) entry vm;
         vm \<leftarrow> store_int32 (r_state_ptr (r_debug rd)) (r_state_num RT_CONSISTENT) vm;
         Some (rd, vm, brks @ [vm])
       }
     })"

definition AddEntryImpl ::
  "('w::len) word rdebug_env \<Rightarrow> 'w word \<Rightarrow> 'w word dbg_state \<Rightarrow> 'w word dbg_state option" where
  "AddEntryImpl env entry = (\<lambda>(rd, vm, brks).
     do {
       rd \<leftarrow> (if \<not> init rd then map_option snd (RDebug_Init_method env vm rd) else Some rd);
       AddEntry_link env entry (rd, vm, brks)
     })"

definition DelEntryImpl ::
  "('w::len) word rdebug_env \<Rightarrow> 'w word \<Rightarrow> 'w word dbg_state \<Rightarrow> 'w word dbg_state option" where
  "DelEntryImpl env entry = (\<lambda>(rd, vm, brks).
     if r_debug rd = 0 then Some (rd, vm, brks)
     else do {
       vm \<leftarrow> store_int32 (r_state_ptr (r_debug rd)) (r_state_num RT_DELETE) vm;
       let brks = brks @ [vm];
       vm \<leftarrow> (if l_prev vm entry \<noteq> 0
              then mapped_store env (readonly_entries rd) (l_prev vm entry)
                     (l_next_ptr (l_prev vm entry)) (l_next vm entry) vm
              else Some vm);
       vm \<leftarrow> (if l_next vm entry \<noteq> 0
              then mapped_store env (readonly_entries rd) (l_next vm entry)
                     (l_prev_ptr (l_next vm entry)) (l_prev vm entry) vm
              else Some vm);
       vm \<leftarrow> (if r_map vm (r_debug rd) = entry then store_addr (r_map_ptr (r_debug rd)) (l_next vm entry) vm
              else Some vm);
       vm \<leftarrow> store_addr (l_prev_ptr entry) 0 vm;
       vm \<leftarrow> store_addr (l_next_ptr entry) 0 vm;
       vm \<leftarrow> store_int32 (r_state_ptr (r_debug rd)) (r_state_num RT_CONSISTENT) vm;
       Some (rd, vm, brks @ [vm])
     })"

fun run_handler ::
  "('w::len) word rdebug_env \<Rightarrow> rdebug_handler \<times> 'w word \<Rightarrow> 'w word dbg_state \<Rightarrow> 'w word dbg_state option" where
  "run_handler env (AddEntryInternal, entry) s = AddEntryImpl env entry s"
| "run_handler env (DelEntryInternal, entry) s = DelEntryImpl env entry s"

definition PostCallback ::
  "rdebug_handler \<times> ('w::len) word \<Rightarrow> 'w word rdebug \<Rightarrow> bool \<times> 'w word rdebug" where
  "PostCallback runnable rd =
     (case post_for_later_execution rd of
        None \<Rightarrow> (False, rd)
      | Some poster \<Rightarrow>
          if \<not> poster runnable then (False, rd)
          else (True, rd\<lparr>rd_posted := rd_posted rd @ [runnable]\<rparr>))"

definition RunOrDelay ::
  "('w::len) word rdebug_env \<Rightarrow> rdebug_handler \<times> 'w word \<Rightarrow> 'w word dbg_state \<Rightarrow> 'w word dbg_state option" where
  "RunOrDelay env runnable = (\<lambda>(rd, vm, brks).
     case PostCallback runnable rd of (posted, rd) \<Rightarrow>
       if \<not> posted then run_handler env runnable (rd, vm, brks) else Some (rd, vm, brks))"

definition AddEntry ::
  "('w::len) word rdebug_env \<Rightarrow> 'w word \<Rightarrow> 'w word dbg_state \<Rightarrow> 'w word dbg_state option" where
  "AddEntry env entry = RunOrDelay env (AddEntryInternal, entry)"

definition DelEntry ::
  "('w::len) word rdebug_env \<Rightarrow> 'w word \<Rightarrow> 'w word dbg_state \<Rightarrow> 'w word dbg_state option" where
  "DelEntry env entry = RunOrDelay env (DelEntryInternal, entry)"

text \<open>\<open>RDebugRunnable::Run\<close>, on the other thread, for the first task that waits.\<close>

definition RDebugRunnable_Run ::
  "('w::len) word rdebug_env \<Rightarrow> 'w word dbg_state \<Rightarrow> 'w word dbg_state option" where
  "RDebugRunnable_Run env = (\<lambda>(rd, vm, brks).
     case rd_posted rd of
       [] \<Rightarrow> Some (rd, vm, brks)
     | runnable # rest \<Rightarrow> run_handler env runnable (rd\<lparr>rd_posted := rest\<rparr>, vm, brks))"

section \<open>Doubly linked lists\<close>

text \<open>A list of nodes linked by \<open>nx\<close> and \<open>pv\<close>, after \<open>p\<close> and before \<open>n\<close>.\<close>

definition first :: "'a list \<Rightarrow> 'a \<Rightarrow> 'a" where
  "first xs n = (case xs of [] \<Rightarrow> n | x # _ \<Rightarrow> x)"

definition final :: "'a \<Rightarrow> 'a list \<Rightarrow> 'a" where
  "final p xs = (if xs = [] then p else last xs)"

fun links :: "('a \<Rightarrow> 'a) \<Rightarrow> ('a \<Rightarrow> 'a) \<Rightarrow> 'a \<Rightarrow> 'a::zero list \<Rightarrow> 'a \<Rightarrow> bool" where
  "links nx pv p [] n = True"
| "links nx pv p (x # xs) n = (x \<noteq> 0 \<and> pv x = p \<and> nx x = first xs n \<and> links nx pv x xs n)"

lemma first_simps [simp]: "first [] n = n" "first (x # xs) n = x"
  by (simp_all add: first_def)

lemma first_append [simp]: "first (xs @ ys) n = first xs (first ys n)"
  by (cases xs) simp_all

lemma final_simps [simp]: "final p [] = p" "final p (x # xs) = final x xs" "final p (xs @ [y]) = y"
  by (simp_all add: final_def)

lemma first_in_set: "first xs n \<noteq> n \<Longrightarrow> first xs n \<in> set xs"
  by (cases xs) simp_all

lemma final_in_set: "final p xs \<noteq> p \<Longrightarrow> final p xs \<in> set xs"
  by (simp add: final_def split: if_splits)

lemma links_append:
  "links nx pv p (xs @ ys) n \<longleftrightarrow> links nx pv p xs (first ys n) \<and> links nx pv (final p xs) ys n"
  by (induction xs arbitrary: p) auto

lemma links_cong:
  "(\<And>x. x \<in> set xs \<Longrightarrow> nx x = nx' x \<and> pv x = pv' x) \<Longrightarrow> links nx pv p xs n = links nx' pv' p xs n"
  by (induction xs arbitrary: p) auto

lemma links_nonzero: "links nx pv p xs n \<Longrightarrow> x \<in> set xs \<Longrightarrow> x \<noteq> 0"
  by (induction xs arbitrary: p) auto

lemma links_relink_end:
  assumes "links nx pv p xs n" "distinct xs" "nx' (final p xs) = m" "xs = [] \<longrightarrow> n = m"
    and "\<And>x. x \<in> set xs \<Longrightarrow> x \<noteq> final p xs \<Longrightarrow> nx' x = nx x" "\<And>x. x \<in> set xs \<Longrightarrow> pv' x = pv x"
  shows "links nx' pv' p xs m"
  using assms
proof (induction xs arbitrary: p)
  case (Cons x xs)
  show ?case
  proof (cases xs)
    case Nil
    with Cons.prems show ?thesis by simp
  next
    case (Cons y ys)
    have "final x xs \<in> set xs" using Cons by (simp add: final_def)
    then have "x \<noteq> final x xs" using Cons.prems(2) by auto
    moreover have "links nx' pv' x xs m" using Cons.prems Cons by (intro Cons.IH) auto
    ultimately show ?thesis using Cons.prems Cons by simp
  qed
qed simp

lemma links_relink_start:
  assumes "links nx pv p xs n" "distinct xs" "pv' (first xs n) = q"
    and "\<And>x. x \<in> set xs \<Longrightarrow> x \<noteq> first xs n \<Longrightarrow> pv' x = pv x" "\<And>x. x \<in> set xs \<Longrightarrow> nx' x = nx x"
  shows "links nx' pv' q xs n"
proof (cases xs)
  case (Cons x ys)
  have "links nx pv x ys n" using assms(1) Cons by simp
  moreover have "links nx pv x ys n = links nx' pv' x ys n"
  proof (rule links_cong)
    fix y assume y: "y \<in> set ys"
    then have "y \<noteq> x" using assms(2) Cons by auto
    with y show "nx y = nx' y \<and> pv y = pv' y" using assms(4) [of y] assms(5) [of y] Cons by simp
  qed
  ultimately show ?thesis using assms Cons by simp
qed simp

lemma links_insert:
  assumes l: "links nx pv p (xs @ ys) n" "distinct (xs @ ys)" "xs \<noteq> []" "ys \<noteq> []" "e \<notin> set (xs @ ys)" "e \<noteq> 0"
    and upd: "\<And>x. x \<in> insert e (set (xs @ ys)) \<Longrightarrow> nx' x = (if x = e then hd ys else if x = last xs then e else nx x)"
      "\<And>x. x \<in> insert e (set (xs @ ys)) \<Longrightarrow> pv' x = (if x = e then last xs else if x = hd ys then e else pv x)"
  shows "links nx' pv' p (xs @ e # ys) n"
proof -
  have e: "e \<notin> set xs" "e \<notin> set ys" and dj: "set xs \<inter> set ys = {}" and d: "distinct xs" "distinct ys"
    using l by auto
  have last: "last xs \<in> set xs" "last xs \<notin> set ys" and hd: "hd ys \<in> set ys" "hd ys \<notin> set xs"
    using l by (auto dest: last_in_set hd_in_set)
  have f: "final p xs = last xs" "first ys n = hd ys" using l(3,4) by (auto simp: final_def first_def split: list.splits)
  have "links nx' pv' p xs e"
  proof (rule links_relink_end)
    show "links nx pv p xs (first ys n)" using l(1) by (simp add: links_append)
    show "nx' x = nx x" if "x \<in> set xs" "x \<noteq> final p xs" for x using that e f upd(1) [of x] by auto
    show "pv' x = pv x" if "x \<in> set xs" for x using that e hd upd(2) [of x] by auto
  qed (use l(3) last e f upd(1) [of "last xs"] d in auto)
  moreover have "links nx' pv' e ys n"
  proof (rule links_relink_start)
    show "links nx pv (final p xs) ys n" using l(1) by (simp add: links_append)
    show "pv' x = pv x" if "x \<in> set ys" "x \<noteq> first ys n" for x using that e f upd(2) [of x] by auto
    show "nx' x = nx x" if "x \<in> set ys" for x using that e last upd(1) [of x] by auto
  qed (use hd e f upd(2) [of "hd ys"] d in auto)
  ultimately show ?thesis using l(6) upd(1) [of e] upd(2) [of e] f by (simp add: links_append)
qed

lemma links_remove:
  assumes l: "links nx pv p (xs @ e # ys) n" "distinct (xs @ e # ys)"
    and nx: "\<And>x. x \<in> set (xs @ ys) \<Longrightarrow> nx' x = (if xs \<noteq> [] \<and> x = last xs then first ys n else nx x)"
    and pv: "\<And>x. x \<in> set (xs @ ys) \<Longrightarrow> pv' x = (if ys \<noteq> [] \<and> x = hd ys then final p xs else pv x)"
  shows "links nx' pv' p (xs @ ys) n"
proof -
  have d: "distinct xs" "distinct ys" using l(2) by auto
  have "links nx' pv' p xs (first ys n)"
  proof (cases "xs = []")
    case False
    then have last: "last xs \<in> set xs" "final p xs = last xs" by (simp_all add: final_def)
    show ?thesis
    proof (rule links_relink_end)
      show "links nx pv p xs e" using l(1) by (simp add: links_append)
      show "nx' x = nx x" if "x \<in> set xs" "x \<noteq> final p xs" for x using that last nx [of x] by auto
      show "pv' x = pv x" if "x \<in> set xs" for x
      proof -
        have "ys \<noteq> [] \<Longrightarrow> x \<noteq> hd ys" using that l(2) by (cases ys) auto
        then show ?thesis using that pv [of x] by auto
      qed
    qed (use last nx [of "last xs"] d False in auto)
  qed simp
  moreover have "links nx' pv' (final p xs) ys n"
  proof (cases ys)
    case (Cons y zs)
    show ?thesis
    proof (rule links_relink_start)
      show "links nx pv e ys n" using l(1) by (simp add: links_append)
      show "pv' x = pv x" if "x \<in> set ys" "x \<noteq> first ys n" for x using that Cons pv [of x] by auto
      show "nx' x = nx x" if "x \<in> set ys" for x
      proof -
        have "xs \<noteq> [] \<Longrightarrow> x \<noteq> last xs" using that l(2) by (metis disjoint_iff distinct_append last_in_set list.set_intros(2))
        then show ?thesis using that nx [of x] by auto
      qed
    qed (use Cons pv [of y] d in auto)
  qed simp
  ultimately show ?thesis by (simp add: links_append)
qed

section \<open>The fields of distinct nodes\<close>

definition link_cells :: "('w::len) word \<Rightarrow> 'w word set" where
  "link_cells n = addr_footprint (l_next_ptr n) \<union> addr_footprint (l_prev_ptr n)"

definition int32_cells :: "('w::len) word \<Rightarrow> 'w word set" where
  "int32_cells a = (\<lambda>i. a + word_of_nat i) ` {0..<4}"

definition debug_cells :: "('w::len) word \<Rightarrow> 'w word set" where
  "debug_cells r = addr_footprint (r_map_ptr r) \<union> int32_cells (r_state_ptr r)"

definition nodes_apart :: "('w::len) word \<Rightarrow> 'w word set \<Rightarrow> bool" where
  "nodes_apart r S \<longleftrightarrow> (\<forall>n \<in> S. link_cells n \<inter> debug_cells r = {}) \<and>
     (\<forall>m \<in> S. \<forall>n \<in> S. m \<noteq> n \<longrightarrow> link_cells m \<inter> link_cells n = {})"

lemma footprint_offset:
  fixes a :: "'w::len word"
  assumes w: "elf_width LENGTH('w)" and ij: "i * addr_size LENGTH('w) + addr_size LENGTH('w) \<le> j * addr_size LENGTH('w)"
    and small: "j \<le> 8"
  shows "addr_footprint (a + word_of_nat (i * addr_size LENGTH('w))) \<inter>
         addr_footprint (a + word_of_nat (j * addr_size LENGTH('w))) = {}"
proof -
  let ?s = "addr_size LENGTH('w)"
  have s: "?s \<le> 8" by (simp add: addr_size_def)
  have lt: "k * ?s + l < 2 ^ LENGTH('w)" if "k \<le> 8" "l < ?s" for k l
  proof -
    have "k * ?s \<le> 8 * 8" using that(1) s by (rule mult_le_mono)
    with that(2) s have "k * ?s + l < 128" by linarith
    also have "(128::nat) \<le> 2 ^ LENGTH('w)" using w by (auto simp: elf_width_def)
    finally show ?thesis .
  qed
  have "a + word_of_nat (i * ?s) + word_of_nat k \<noteq> a + word_of_nat (j * ?s) + word_of_nat l"
    if k: "k < ?s" and l: "l < ?s" for k l
  proof
    assume "a + word_of_nat (i * ?s) + word_of_nat k = a + word_of_nat (j * ?s) + word_of_nat l"
    then have "(word_of_nat (i * ?s + k) :: 'w word) = word_of_nat (j * ?s + l)" by (simp add: algebra_simps)
    then have "unat (word_of_nat (i * ?s + k) :: 'w word) = unat (word_of_nat (j * ?s + l) :: 'w word)" by simp
    moreover have "i * ?s \<le> j * ?s" using ij by linarith
    then have "i \<le> 8" using small k by (metis le_trans mult_le_cancel2 not_less_zero neq0_conv)
    ultimately have "i * ?s + k = j * ?s + l"
      using unat_word_of_nat_small [OF lt [OF \<open>i \<le> 8\<close> k]] unat_word_of_nat_small [OF lt [OF small l]] by metis
    with ij k show False by linarith
  qed
  then show ?thesis by (auto simp: addr_footprint_def)
qed

lemma int32_in_footprint: "int32_cells a \<subseteq> addr_footprint a"
  by (auto simp: int32_cells_def addr_footprint_def addr_size_def)

lemma next_prev_apart:
  fixes n :: "'w::len word"
  assumes "elf_width LENGTH('w)"
  shows "addr_footprint (l_next_ptr n) \<inter> addr_footprint (l_prev_ptr n) = {}"
  unfolding l_next_ptr_def l_prev_ptr_def by (rule footprint_offset [OF assms]) simp_all

lemma map_state_apart:
  fixes r :: "'w::len word"
  assumes "elf_width LENGTH('w)"
  shows "addr_footprint (r_map_ptr r) \<inter> int32_cells (r_state_ptr r) = {}"
  using footprint_offset [OF assms, of 1 3 r] int32_in_footprint [of "r_state_ptr r"]
  by (auto simp: r_map_ptr_def r_state_ptr_def)

text \<open>The effect of a change of memory on the links of the nodes \<open>S\<close> and on \<open>r_debug\<close>: what is not
  changed is read as before.\<close>

lemma r_state_local:
  assumes "\<And>x. x \<in> int32_cells (r_state_ptr r) \<Longrightarrow> vm_byte vm x = vm_byte vm' x"
  shows "r_state_at vm r = r_state_at vm' r"
proof -
  have "map (\<lambda>i. mem_from vm (r_state_ptr r) (0 + i)) [0..<4] = map (\<lambda>i. mem_from vm' (r_state_ptr r) (0 + i)) [0..<4]"
    using assms by (auto simp: mem_from_def int32_cells_def)
  then show ?thesis by (simp only: r_state_at_def le_at_def)
qed

lemma nodes_apartD:
  assumes "nodes_apart r S" "n \<in> S"
  shows "x \<in> addr_footprint (l_next_ptr n) \<Longrightarrow> x \<notin> addr_footprint (r_map_ptr r)"
    "x \<in> addr_footprint (l_prev_ptr n) \<Longrightarrow> x \<notin> addr_footprint (r_map_ptr r)"
    "x \<in> addr_footprint (l_next_ptr n) \<Longrightarrow> x \<notin> int32_cells (r_state_ptr r)"
    "x \<in> addr_footprint (l_prev_ptr n) \<Longrightarrow> x \<notin> int32_cells (r_state_ptr r)"
    "m \<in> S \<Longrightarrow> m \<noteq> n \<Longrightarrow> x \<in> link_cells n \<Longrightarrow> x \<notin> link_cells m"
  using assms by (fastforce simp: nodes_apart_def link_cells_def debug_cells_def)+

lemma write_next:
  fixes vm :: "'w::len word vm"
  assumes w: "elf_width LENGTH('w)" and S: "nodes_apart r S" "n \<in> S"
  shows "m \<in> S \<Longrightarrow> l_next (write_addr vm (l_next_ptr n) v) m = (if m = n then v else l_next vm m)"
    "m \<in> S \<Longrightarrow> l_prev (write_addr vm (l_next_ptr n) v) m = l_prev vm m"
    "r_map (write_addr vm (l_next_ptr n) v) r = r_map vm r"
    "r_state_at (write_addr vm (l_next_ptr n) v) r = r_state_at vm r"
proof -
  let ?vm = "write_addr vm (l_next_ptr n) v"
  show "l_next ?vm m = (if m = n then v else l_next vm m)" if "m \<in> S"
  proof (cases "m = n")
    case False
    with nodes_apartD(5) [OF S that] have "addr_footprint (l_next_ptr n) \<inter> addr_footprint (l_next_ptr m) = {}"
      by (auto simp: link_cells_def)
    with False show ?thesis by (simp add: l_next_def read_write_disjoint [OF w])
  qed (simp add: l_next_def read_write_addr [OF w])
  show "l_prev ?vm m = l_prev vm m" if "m \<in> S"
  proof -
    have "addr_footprint (l_next_ptr n) \<inter> addr_footprint (l_prev_ptr m) = {}"
      using nodes_apartD(5) [OF S that] next_prev_apart [OF w, of n] by (cases "m = n") (auto simp: link_cells_def)
    then show ?thesis by (simp add: l_prev_def read_write_disjoint [OF w])
  qed
  have "addr_footprint (l_next_ptr n) \<inter> addr_footprint (r_map_ptr r) = {}" using nodes_apartD(1) [OF S] by auto
  then show "r_map ?vm r = r_map vm r" by (simp add: r_map_def read_write_disjoint [OF w])
  show "r_state_at ?vm r = r_state_at vm r"
    using nodes_apartD(3) [OF S] by (intro r_state_local write_addr_frame [OF w]) auto
qed

lemma write_prev:
  fixes vm :: "'w::len word vm"
  assumes w: "elf_width LENGTH('w)" and S: "nodes_apart r S" "n \<in> S"
  shows "m \<in> S \<Longrightarrow> l_prev (write_addr vm (l_prev_ptr n) v) m = (if m = n then v else l_prev vm m)"
    "m \<in> S \<Longrightarrow> l_next (write_addr vm (l_prev_ptr n) v) m = l_next vm m"
    "r_map (write_addr vm (l_prev_ptr n) v) r = r_map vm r"
    "r_state_at (write_addr vm (l_prev_ptr n) v) r = r_state_at vm r"
proof -
  let ?vm = "write_addr vm (l_prev_ptr n) v"
  show "l_prev ?vm m = (if m = n then v else l_prev vm m)" if "m \<in> S"
  proof (cases "m = n")
    case False
    with nodes_apartD(5) [OF S that] have "addr_footprint (l_prev_ptr n) \<inter> addr_footprint (l_prev_ptr m) = {}"
      by (auto simp: link_cells_def)
    with False show ?thesis by (simp add: l_prev_def read_write_disjoint [OF w])
  qed (simp add: l_prev_def read_write_addr [OF w])
  show "l_next ?vm m = l_next vm m" if "m \<in> S"
  proof -
    have "addr_footprint (l_prev_ptr n) \<inter> addr_footprint (l_next_ptr m) = {}"
      using nodes_apartD(5) [OF S that] next_prev_apart [OF w, of n] by (cases "m = n") (auto simp: link_cells_def)
    then show ?thesis by (simp add: l_next_def read_write_disjoint [OF w])
  qed
  have "addr_footprint (l_prev_ptr n) \<inter> addr_footprint (r_map_ptr r) = {}" using nodes_apartD(2) [OF S] by auto
  then show "r_map ?vm r = r_map vm r" by (simp add: r_map_def read_write_disjoint [OF w])
  show "r_state_at ?vm r = r_state_at vm r"
    using nodes_apartD(4) [OF S] by (intro r_state_local write_addr_frame [OF w]) auto
qed

lemma write_map:
  fixes vm :: "'w::len word vm"
  assumes w: "elf_width LENGTH('w)" and S: "nodes_apart r S"
  shows "m \<in> S \<Longrightarrow> l_prev (write_addr vm (r_map_ptr r) v) m = l_prev vm m"
    "m \<in> S \<Longrightarrow> l_next (write_addr vm (r_map_ptr r) v) m = l_next vm m"
    "r_map (write_addr vm (r_map_ptr r) v) r = v"
    "r_state_at (write_addr vm (r_map_ptr r) v) r = r_state_at vm r"
proof -
  let ?vm = "write_addr vm (r_map_ptr r) v"
  show "l_prev ?vm m = l_prev vm m" "l_next ?vm m = l_next vm m" if "m \<in> S"
    using nodes_apartD(1,2) [OF S that]
    by (auto simp: l_prev_def l_next_def intro!: read_write_disjoint [OF w])
  show "r_map ?vm r = v" by (simp add: r_map_def read_write_addr [OF w])
  show "r_state_at ?vm r = r_state_at vm r"
    using map_state_apart [OF w, of r] by (intro r_state_local write_addr_frame [OF w]) auto
qed

definition same_links :: "('w::len) word \<Rightarrow> 'w word set \<Rightarrow> 'w word vm \<Rightarrow> 'w word vm \<Rightarrow> bool" where
  "same_links r S vm vm' \<longleftrightarrow> vm_prot vm' = vm_prot vm \<and> r_map vm' r = r_map vm r \<and>
     (\<forall>m \<in> S. l_next vm' m = l_next vm m \<and> l_prev vm' m = l_prev vm m)"

lemma int32_small:
  fixes a :: "'w::len word"
  assumes w: "elf_width LENGTH('w)"
  shows "x \<in> int32_cells a \<longleftrightarrow> unat (x - a) < 4"
proof
  assume "x \<in> int32_cells a"
  then obtain i where i: "i < 4" "x = a + word_of_nat i" by (auto simp: int32_cells_def)
  have "i < 2 ^ LENGTH('w)" using w i(1) by (auto simp: elf_width_def)
  with i show "unat (x - a) < 4" by (simp add: unat_word_of_nat_small)
next
  assume "unat (x - a) < 4"
  then show "x \<in> int32_cells a"
    unfolding int32_cells_def by (intro image_eqI [of _ _ "unat (x - a)"]) auto
qed

lemma store_state:
  fixes vm :: "'w::len word vm"
  assumes w: "elf_width LENGTH('w)" and S: "nodes_apart r S" and wr: "\<forall>x \<in> debug_cells r. writable vm x"
    and v: "v < 2 ^ 32"
  obtains vm' where "store_int32 (r_state_ptr r) v vm = Some vm'" "same_links r S vm vm'" "r_state_at vm' r = v"
proof -
  let ?a = "r_state_ptr r"
  let ?vm = "vm\<lparr>vm_byte := (\<lambda>x. if unat (x - ?a) < 4 then le_bytes 4 v ! unat (x - ?a) else vm_byte vm x)\<rparr>"
  have keep: "vm_byte ?vm x = vm_byte vm x" if "x \<notin> int32_cells ?a" for x
    using that int32_small [OF w, of x ?a] by simp
  have "l_next ?vm m = l_next vm m \<and> l_prev ?vm m = l_prev vm m" if "m \<in> S" for m
    unfolding l_next_def l_prev_def
    using nodes_apartD(3,4) [OF S that] by (intro conjI read_addr_local [OF w] keep)
  moreover have "r_map ?vm r = r_map vm r"
    unfolding r_map_def using map_state_apart [OF w, of r] by (intro read_addr_local [OF w] keep) auto
  moreover have "map (\<lambda>i. mem_from ?vm ?a (0 + i)) [0..<4] = le_bytes 4 v"
  proof (rule nth_equalityI)
    fix i assume "i < length (map (\<lambda>i. mem_from ?vm ?a (0 + i)) [0..<4])"
    then have i: "i < 4" by simp
    then have "i < 2 ^ LENGTH('w)" using w by (auto simp: elf_width_def)
    with i show "map (\<lambda>i. mem_from ?vm ?a (0 + i)) [0..<4] ! i = le_bytes 4 v ! i"
      by (simp add: mem_from_def unat_word_of_nat_small)
  qed simp
  then have "r_state_at ?vm r = v" using v by (simp only: r_state_at_def le_at_def le_nat_le_bytes) simp
  moreover have "list_all (\<lambda>i. writable vm (?a + word_of_nat i)) [0..<4]"
    using wr by (auto simp: list_all_iff debug_cells_def int32_cells_def)
  ultimately show ?thesis using that [of ?vm] by (simp add: store_int32_def same_links_def)
qed

section \<open>Stores to read-only pages\<close>

text \<open>The page of a node: it is mapped with one protection, \<open>/proc/self/maps\<close> shows it, the links of the
  node are on it, and the kernel does not refuse to change its protection. Without
  \<open>readonly_entries_\<close>, it is writable.\<close>

definition same_page :: "('w::len) word \<Rightarrow> 'w word \<Rightarrow> bool" where
  "same_page a b \<longleftrightarrow> page_of a = page_of b"

definition node_ok ::
  "('w::len) word rdebug_env \<Rightarrow> bool \<Rightarrow> ('w word \<Rightarrow> 32 word option) \<Rightarrow> 'w word \<Rightarrow> bool" where
  "node_ok env readonly prot n \<longleftrightarrow>
     (\<exists>p. prot n = Some p \<and> (\<not> readonly \<longrightarrow> p AND PROT_WRITE \<noteq> 0) \<and>
        (\<forall>x. same_page x n \<longrightarrow> prot x = Some p) \<and>
        (\<forall>vm. vm_prot vm = prot \<longrightarrow> FindProtectionFlagsForAddress (env_self_maps env vm) n = Some p)) \<and>
     (\<forall>x \<in> link_cells n. same_page x n) \<and> page_of n \<noteq> 0 \<and> \<not> env_refuse env (page_of n) 4096"

lemma page_of_start: "page_of n = PAGE_START n"
  by (simp add: page_of_def PAGE_START_def PAGE_MASK_def)

lemma same_page_nat: "same_page x n \<longleftrightarrow> unat x div 4096 = unat n div 4096"
  by (simp add: same_page_def page_of_start word_unat_eq_iff unat_PAGE_START)

lemma in_page:
  fixes x n :: "'w::len word"
  assumes w: "elf_width LENGTH('w)"
  shows "in_range x (page_of n) (PAGE_END 4096) \<longleftrightarrow> same_page x n"
proof -
  let ?d = "unat n div 4096"
  have "2 ^ LENGTH('w) = 2 ^ (LENGTH('w) - 12) * (4096::nat)" using w by (auto simp: elf_width_def)
  then have "unat n < 2 ^ (LENGTH('w) - 12) * 4096" using unsigned_less [of n] by metis
  then have "?d < 2 ^ (LENGTH('w) - 12)" by (rule less_mult_imp_div_less)
  then have d: "?d * 4096 + 4096 \<le> 2 ^ LENGTH('w)" using w by (auto simp: elf_width_def)
  have e: "unat (PAGE_END (4096 :: 'w word)) = 4096"
    using w by (auto simp: unat_PAGE_END elf_width_def)
  have "in_range x (page_of n) (PAGE_END 4096) \<longleftrightarrow> ?d * 4096 \<le> unat x \<and> unat x < ?d * 4096 + 4096"
    using d by (subst in_range_nat) (simp_all add: e page_of_start unat_PAGE_START)
  also have "\<dots> \<longleftrightarrow> unat x div 4096 = ?d"
    using page_bounds(1,2) [of "unat x"] by (auto intro: div_nat_eqI)
  finally show ?thesis by (simp add: same_page_nat)
qed

lemma protect_page:
  fixes vm :: "'w::len word vm"
  assumes "elf_width LENGTH('w)" "\<not> refuse (page_of n) 4096"
  shows "sys_mprotect refuse (page_of n) 4096 p vm =
    (0, vm\<lparr>vm_prot := (\<lambda>x. if same_page x n then Some p else vm_prot vm x)\<rparr>)"
  using assms by (simp add: sys_mprotect_def vm_set_prot_def in_page)

lemma prot_or_write: "(p OR PROT_READ OR PROT_WRITE) AND PROT_WRITE \<noteq> 0"
proof
  assume *: "(p OR PROT_READ OR PROT_WRITE) AND PROT_WRITE = 0"
  have "bit ((p OR PROT_READ OR PROT_WRITE) AND PROT_WRITE) 1"
    by (simp add: PROT_WRITE_def bit_simps)
  with * show False by simp
qed

lemma prot_read_write:
  assumes "p AND (PROT_READ OR PROT_WRITE) = PROT_READ OR PROT_WRITE"
  shows "p AND PROT_WRITE \<noteq> 0"
proof
  assume *: "p AND PROT_WRITE = 0"
  have "bit (p AND (PROT_READ OR PROT_WRITE)) 1" unfolding assms by (simp add: PROT_WRITE_def bit_simps)
  then have "bit (p AND PROT_WRITE) 1" by (simp add: PROT_READ_def PROT_WRITE_def bit_simps)
  with * show False by simp
qed

text \<open>Under these conditions a store through the mapper does what a plain store does, and the protection
  of the page is as before.\<close>

lemma mapped_store_ok:
  fixes vm :: "'w::len word vm"
  assumes w: "elf_width LENGTH('w)" and ok: "node_ok env readonly (vm_prot vm) n"
    and a: "addr_footprint a \<subseteq> link_cells n"
  shows "mapped_store env readonly n a v vm = Some (write_addr vm a v)"
proof -
  let ?pg = "page_of n"
  obtain p where p: "vm_prot vm n = Some p" "\<not> readonly \<Longrightarrow> p AND PROT_WRITE \<noteq> 0"
      "\<And>x. same_page x n \<Longrightarrow> vm_prot vm x = Some p"
      "FindProtectionFlagsForAddress (env_self_maps env vm) n = Some p"
    and pg: "\<And>x. x \<in> link_cells n \<Longrightarrow> same_page x n" "?pg \<noteq> 0" "\<not> env_refuse env ?pg 4096"
    using ok by (auto simp: node_ok_def)
  have on: "same_page (a + word_of_nat i) n" if "i < addr_size LENGTH('w)" for i
    using that a pg(1) by (auto simp: addr_footprint_def image_subset_iff)
  have plain: "store_addr a v vm = Some (write_addr vm a v)" if "p AND PROT_WRITE \<noteq> 0"
    using that p(3) on by (simp add: store_addr_def list_all_iff writable_def)
  show ?thesis
  proof (cases "\<not> readonly \<or> p AND (PROT_READ OR PROT_WRITE) = PROT_READ OR PROT_WRITE")
    case True
    then have "p AND PROT_WRITE \<noteq> 0" using p(2) prot_read_write by auto
    with True plain show ?thesis
      by (auto simp: mapped_store_def MapReadWrite_def p(4) ScopedPageMapper_end_def)
  next
    case False
    define vm1 where "vm1 = vm\<lparr>vm_prot := (\<lambda>x. if same_page x n then Some (p OR PROT_READ OR PROT_WRITE) else vm_prot vm x)\<rparr>"
    have map: "MapReadWrite env n vm = ((?pg, p), vm1)"
      using False by (simp add: MapReadWrite_def p(4) protect_page [where refuse = "env_refuse env", OF w pg(3)] vm1_def Let_def)
    have "store_addr a v vm1 = Some (write_addr vm1 a v)"
      using on prot_or_write [of p] by (simp add: store_addr_def list_all_iff writable_def vm1_def)
    moreover have "snd (sys_mprotect (env_refuse env) ?pg 4096 p (write_addr vm1 a v)) = write_addr vm a v"
      using p(3) by (simp add: protect_page [where refuse = "env_refuse env", OF w pg(3)] vm1_def write_addr_def) (auto simp: fun_eq_iff)
    ultimately show ?thesis
      using False pg(2) by (simp add: mapped_store_def map ScopedPageMapper_end_def)
  qed
qed

section \<open>Insertion and removal\<close>

definition debug_list :: "('w::len) word rdebug \<Rightarrow> 'w word vm \<Rightarrow> 'w word list \<Rightarrow> bool" where
  "debug_list rd vm xs \<longleftrightarrow>
     r_map vm (r_debug rd) = first xs 0 \<and> links (l_next vm) (l_prev vm) 0 xs 0 \<and> distinct xs"

text \<open>\<open>RDebug\<close> is initialised, the structures that may be part of the list do not overlap, and their
  pages are as \<^const>\<open>node_ok\<close> has it.\<close>

definition debug_ready :: "('w::len) word rdebug_env \<Rightarrow> 'w word rdebug \<Rightarrow> ('w word \<Rightarrow> 32 word option) \<Rightarrow> 'w word set \<Rightarrow> bool" where
  "debug_ready env rd prot S \<longleftrightarrow>
     elf_width LENGTH('w) \<and> r_debug rd \<noteq> 0 \<and> init rd \<and> nodes_apart (r_debug rd) S \<and>
     (\<forall>n \<in> S. node_ok env (readonly_entries rd) prot n) \<and>
     (\<forall>x \<in> debug_cells (r_debug rd). \<exists>p. prot x = Some p \<and> p AND PROT_WRITE \<noteq> 0)"

text \<open>The entry of a library the linker has loaded: it is in the linker's own, writable memory.\<close>

definition own_entry :: "('w::len) word set \<Rightarrow> ('w word \<Rightarrow> 32 word option) \<Rightarrow> 'w word \<Rightarrow> bool" where
  "own_entry S prot e \<longleftrightarrow> e \<in> S \<and> e \<noteq> 0 \<and> (\<forall>x \<in> link_cells e. \<exists>p. prot x = Some p \<and> p AND PROT_WRITE \<noteq> 0)"

lemma store_writable:
  fixes vm :: "'w::len word vm"
  assumes "\<And>x. x \<in> addr_footprint a \<Longrightarrow> \<exists>p. vm_prot vm x = Some p \<and> p AND PROT_WRITE \<noteq> 0"
  shows "store_addr a v vm = Some (write_addr vm a v)"
proof -
  have "writable vm (a + word_of_nat i)" if "i < addr_size LENGTH('w)" for i
    using assms [of "a + word_of_nat i"] that by (auto simp: addr_footprint_def writable_def)
  then show ?thesis by (simp add: store_addr_def list_all_iff)
qed

lemma store_own:
  assumes "own_entry S (vm_prot vm) e"
  shows "store_addr (l_next_ptr e) v vm = Some (write_addr vm (l_next_ptr e) v)"
    and "store_addr (l_prev_ptr e) v vm = Some (write_addr vm (l_prev_ptr e) v)"
  using assms by (auto simp: own_entry_def link_cells_def intro!: store_writable)

lemma debug_list_same:
  assumes "same_links (r_debug rd) S vm vm'" "set xs \<subseteq> S"
  shows "debug_list rd vm' xs = debug_list rd vm xs"
proof -
  have "links (l_next vm') (l_prev vm') 0 xs 0 = links (l_next vm) (l_prev vm) 0 xs 0"
    using assms by (intro links_cong) (auto simp: same_links_def)
  with assms(1) show ?thesis by (simp add: debug_list_def same_links_def)
qed

lemma ready_state:
  fixes vm :: "'w::len word vm"
  assumes "debug_ready env rd (vm_prot vm) S"
  obtains vm' where "store_int32 (r_state_ptr (r_debug rd)) (r_state_num st) vm = Some vm'"
    "same_links (r_debug rd) S vm vm'" "r_state_at vm' (r_debug rd) = r_state_num st"
proof -
  have "r_state_num st < 2 ^ 32" by (cases st) simp_all
  moreover have "\<forall>x \<in> debug_cells (r_debug rd). writable vm x"
    using assms by (fastforce simp: debug_ready_def writable_def)
  ultimately show ?thesis
    using assms that store_state [of "r_debug rd" S vm "r_state_num st"] by (auto simp: debug_ready_def)
qed

lemma AddEntryImpl_links:
  fixes vm :: "'w::len word vm"
  assumes ready: "debug_ready env rd (vm_prot vm) S" and e: "own_entry S (vm_prot vm) e" "e \<notin> set (a # b # c # xs)"
    and list: "debug_list rd vm (a # b # c # xs)" "set (a # b # c # xs) \<subseteq> S"
  obtains vm1 vm' where "AddEntryImpl env e (rd, vm, brks) = Some (rd, vm', brks @ [vm1, vm'])"
    "debug_list rd vm1 (a # b # c # xs)" "r_state_at vm1 (r_debug rd) = r_state_num RT_ADD"
    "debug_list rd vm' (a # b # e # c # xs)" "r_state_at vm' (r_debug rd) = r_state_num RT_CONSISTENT"
    "vm_prot vm' = vm_prot vm"
proof -
  let ?r = "r_debug rd"
  have w: "elf_width LENGTH('w)" and S: "nodes_apart ?r S"
    and nok: "\<And>n. n \<in> S \<Longrightarrow> node_ok env (readonly_entries rd) (vm_prot vm) n" and r: "?r \<noteq> 0" "init rd"
    using ready by (auto simp: debug_ready_def)
  obtain vm1 where vm1: "store_int32 (r_state_ptr ?r) (r_state_num RT_ADD) vm = Some vm1"
    "same_links ?r S vm vm1" "r_state_at vm1 ?r = r_state_num RT_ADD"
    by (rule ready_state [OF ready])
  have p1: "vm_prot vm1 = vm_prot vm" using vm1(2) by (simp add: same_links_def)
  have l1: "debug_list rd vm1 (a # b # c # xs)" using list debug_list_same [OF vm1(2) list(2)] by simp
  have mem: "a \<in> S" "b \<in> S" "c \<in> S" "e \<in> S" and ne: "e \<noteq> b" "e \<noteq> c" "b \<noteq> c"
    using e list by (auto simp: own_entry_def debug_list_def)
  have walk: "r_map vm1 ?r = a" "l_next vm1 a = b" "l_next vm1 b = c" "a \<noteq> 0" "b \<noteq> 0" "c \<noteq> 0"
    using l1 by (auto simp: debug_list_def)
  define vm3 where "vm3 = write_addr (write_addr vm1 (l_prev_ptr e) b) (l_next_ptr e) c"
  define vm5 where "vm5 = write_addr (write_addr vm3 (l_next_ptr b) e) (l_prev_ptr c) e"
  have p5: "vm_prot vm5 = vm_prot vm" by (simp add: vm5_def vm3_def p1)
  note upd = write_next [OF w S] write_prev [OF w S]
  have n5: "l_next vm5 m = (if m = e then c else if m = b then e else l_next vm1 m)"
    and v5: "l_prev vm5 m = (if m = e then b else if m = c then e else l_prev vm1 m)" if "m \<in> S" for m
    using that mem ne by (simp_all add: vm5_def vm3_def upd)
  have "links (l_next vm5) (l_prev vm5) 0 ([a, b] @ e # c # xs) 0"
  proof (rule links_insert [where nx = "l_next vm1" and pv = "l_prev vm1"])
    show "links (l_next vm1) (l_prev vm1) 0 ([a, b] @ c # xs) 0" "distinct ([a, b] @ c # xs)"
      using l1 by (auto simp: debug_list_def)
    show "e \<notin> set ([a, b] @ c # xs)" "e \<noteq> 0" using e by (auto simp: own_entry_def)
  qed (use list(2) n5 v5 mem in auto)
  then have l5: "debug_list rd vm5 (a # b # e # c # xs)"
    using l1 e mem walk(1) by (auto simp: debug_list_def vm5_def vm3_def upd)
  obtain vm6 where vm6: "store_int32 (r_state_ptr ?r) (r_state_num RT_CONSISTENT) vm5 = Some vm6"
    "same_links ?r S vm5 vm6" "r_state_at vm6 ?r = r_state_num RT_CONSISTENT"
    by (rule ready_state [of env rd vm5 S]) (simp add: p5 ready)
  have "AddEntryImpl env e (rd, vm, brks) = Some (rd, vm6, brks @ [vm1, vm6])"
  proof -
    have "mapped_store env (readonly_entries rd) b (l_next_ptr b) e vm3 = Some (write_addr vm3 (l_next_ptr b) e)"
      "mapped_store env (readonly_entries rd) c (l_prev_ptr c) e (write_addr vm3 (l_next_ptr b) e) = Some vm5"
      unfolding vm5_def using nok mem by (auto intro!: mapped_store_ok [OF w] simp: vm3_def p1 link_cells_def)
    moreover have "store_addr (l_prev_ptr e) b vm1 = Some (write_addr vm1 (l_prev_ptr e) b)"
      "store_addr (l_next_ptr e) c (write_addr vm1 (l_prev_ptr e) b) = Some vm3"
      using e by (simp_all add: vm3_def store_own [of S] p1)
    ultimately show ?thesis using r vm1(1) vm6(1) walk by (simp add: AddEntryImpl_def AddEntry_link_def)
  qed
  moreover have "debug_list rd vm6 (a # b # e # c # xs)"
    using l5 debug_list_same [OF vm6(2), of "a # b # e # c # xs"] list(2) mem by simp
  moreover have "vm_prot vm6 = vm_prot vm" using vm6(2) p5 by (simp add: same_links_def)
  ultimately show ?thesis using that l1 vm1(3) vm6(3) by simp
qed

lemma DelEntryImpl_links:
  fixes vm :: "'w::len word vm"
  assumes ready: "debug_ready env rd (vm_prot vm) S" and e: "own_entry S (vm_prot vm) e"
    and list: "debug_list rd vm (xs @ e # ys)" "set (xs @ e # ys) \<subseteq> S"
  obtains vm1 vm' where "DelEntryImpl env e (rd, vm, brks) = Some (rd, vm', brks @ [vm1, vm'])"
    "debug_list rd vm1 (xs @ e # ys)" "r_state_at vm1 (r_debug rd) = r_state_num RT_DELETE"
    "debug_list rd vm' (xs @ ys)" "r_state_at vm' (r_debug rd) = r_state_num RT_CONSISTENT"
    "vm_prot vm' = vm_prot vm"
proof -
  let ?r = "r_debug rd" and ?p = "final 0 xs" and ?n = "first ys 0"
  have w: "elf_width LENGTH('w)" and S: "nodes_apart ?r S"
    and nok: "\<And>n. n \<in> S \<Longrightarrow> node_ok env (readonly_entries rd) (vm_prot vm) n" and r: "?r \<noteq> 0"
    using ready by (auto simp: debug_ready_def)
  obtain vm1 where vm1: "store_int32 (r_state_ptr ?r) (r_state_num RT_DELETE) vm = Some vm1"
    "same_links ?r S vm vm1" "r_state_at vm1 ?r = r_state_num RT_DELETE"
    by (rule ready_state [OF ready])
  have p1: "vm_prot vm1 = vm_prot vm" using vm1(2) by (simp add: same_links_def)
  have l1: "debug_list rd vm1 (xs @ e # ys)" using list debug_list_same [OF vm1(2) list(2)] by simp
  have nz: "x \<noteq> 0" if "x \<in> set (xs @ e # ys)" for x
    using l1 links_nonzero that unfolding debug_list_def by blast
  have pz: "?p = 0 \<longleftrightarrow> xs = []" "xs \<noteq> [] \<Longrightarrow> ?p = last xs \<and> last xs \<in> S \<and> last xs \<noteq> e"
    using nz [of "last xs"] list by (auto simp: final_def debug_list_def)
  have nzy: "?n = 0 \<longleftrightarrow> ys = []" "ys \<noteq> [] \<Longrightarrow> ?n = hd ys \<and> hd ys \<in> S \<and> hd ys \<noteq> e"
    using nz [of "hd ys"] list by (cases ys; auto simp: debug_list_def)+
  have at_e: "l_prev vm1 e = ?p" "l_next vm1 e = ?n" and hd: "r_map vm1 ?r = first xs e"
    using l1 by (auto simp: debug_list_def links_append)
  have eS: "e \<in> S" using e by (simp add: own_entry_def)
  define vm2 where "vm2 = (if xs = [] then vm1 else write_addr vm1 (l_next_ptr ?p) ?n)"
  define vm3 where "vm3 = (if ys = [] then vm2 else write_addr vm2 (l_prev_ptr ?n) ?p)"
  define vm4 where "vm4 = (if xs = [] then write_addr vm3 (r_map_ptr ?r) ?n else vm3)"
  define vm6 where "vm6 = write_addr (write_addr vm4 (l_prev_ptr e) 0) (l_next_ptr e) 0"
  note upd = write_next [OF w S] write_prev [OF w S] write_map [OF w S]
  have pr: "vm_prot vm2 = vm_prot vm" "vm_prot vm3 = vm_prot vm" "vm_prot vm4 = vm_prot vm" "vm_prot vm6 = vm_prot vm"
    by (simp_all add: vm6_def vm4_def vm3_def vm2_def p1)
  have e2: "l_prev vm2 e = ?p" "l_next vm2 e = ?n" and e3: "l_next vm3 e = ?n"
    using at_e pz(2) nzy(2) eS by (auto simp: vm3_def vm2_def upd)
  have n6: "l_next vm6 m = (if xs \<noteq> [] \<and> m = last xs then ?n else l_next vm1 m)"
    and v6: "l_prev vm6 m = (if ys \<noteq> [] \<and> m = hd ys then ?p else l_prev vm1 m)" if "m \<in> S" "m \<noteq> e" for m
    using that eS pz(2) nzy(2) by (simp_all add: vm6_def vm4_def vm3_def vm2_def upd)
  have m3: "r_map vm3 ?r = first xs e"
    using pz(2) nzy(2) hd by (simp add: vm3_def vm2_def upd)
  have m6: "r_map vm6 ?r = first (xs @ ys) 0"
    using m3 eS by (cases xs) (simp_all add: vm6_def vm4_def upd)
  have "links (l_next vm6) (l_prev vm6) 0 (xs @ ys) 0"
  proof (rule links_remove [where nx = "l_next vm1" and pv = "l_prev vm1" and e = e])
    show "links (l_next vm1) (l_prev vm1) 0 (xs @ e # ys) 0" "distinct (xs @ e # ys)"
      using l1 by (simp_all add: debug_list_def)
    fix x assume "x \<in> set (xs @ ys)"
    then have "x \<in> S" "x \<noteq> e" using l1 list(2) by (auto simp: debug_list_def)
    then show "l_next vm6 x = (if xs \<noteq> [] \<and> x = last xs then first ys 0 else l_next vm1 x)"
      "l_prev vm6 x = (if ys \<noteq> [] \<and> x = hd ys then final 0 xs else l_prev vm1 x)"
      using n6 v6 by simp_all
  qed
  then have l6: "debug_list rd vm6 (xs @ ys)" using l1 m6 by (simp add: debug_list_def)
  obtain vm7 where vm7: "store_int32 (r_state_ptr ?r) (r_state_num RT_CONSISTENT) vm6 = Some vm7"
    "same_links ?r S vm6 vm7" "r_state_at vm7 ?r = r_state_num RT_CONSISTENT"
    by (rule ready_state [of env rd vm6 S]) (simp add: pr ready)
  have "DelEntryImpl env e (rd, vm, brks) = Some (rd, vm7, brks @ [vm1, vm7])"
  proof -
    have "(if ?p \<noteq> 0 then mapped_store env (readonly_entries rd) ?p (l_next_ptr ?p) ?n vm1 else Some vm1) = Some vm2"
      using nok pz by (auto intro!: mapped_store_ok [OF w] simp: vm2_def p1 link_cells_def)
    moreover have "(if ?n \<noteq> 0 then mapped_store env (readonly_entries rd) ?n (l_prev_ptr ?n) ?p vm2 else Some vm2) = Some vm3"
      using nok nzy by (auto intro!: mapped_store_ok [OF w] simp: vm3_def pr link_cells_def)
    moreover have "first xs e = e \<longleftrightarrow> xs = []" using l1 by (cases xs) (auto simp: debug_list_def)
    then have "(if r_map vm3 ?r = e then store_addr (r_map_ptr ?r) ?n vm3 else Some vm3) = Some vm4"
      using m3 ready by (auto simp: vm4_def pr debug_ready_def debug_cells_def intro!: store_writable)
    moreover have "store_addr (l_prev_ptr e) 0 vm4 = Some (write_addr vm4 (l_prev_ptr e) 0)"
      "store_addr (l_next_ptr e) 0 (write_addr vm4 (l_prev_ptr e) 0) = Some vm6"
      using e by (simp_all add: vm6_def store_own [of S] pr)
    ultimately show ?thesis
      using r vm1(1) vm7(1) at_e e2 e3 by (simp add: DelEntryImpl_def cong: if_cong split del: if_split)
  qed
  moreover have "debug_list rd vm7 (xs @ ys)"
    using l6 debug_list_same [OF vm7(2), of "xs @ ys"] list(2) by simp
  moreover have "vm_prot vm7 = vm_prot vm" using vm7(2) pr by (simp add: same_links_def)
  ultimately show ?thesis using that l1 vm1(3) vm7(3) by simp
qed

section \<open>The list as the debugger sees it\<close>

text \<open>The specification: an entry is inserted after the first two, which are the executable and the
  system linker, and removed wherever it is.\<close>

fun dbg_abs :: "rdebug_handler \<times> 'a \<Rightarrow> 'a list \<Rightarrow> 'a list option" where
  "dbg_abs (AddEntryInternal, e) (a # b # c # xs) = (if e \<in> set (a # b # c # xs) then None else Some (a # b # e # c # xs))"
| "dbg_abs (AddEntryInternal, e) xs = None"
| "dbg_abs (DelEntryInternal, e) xs = (if e \<in> set xs then Some (remove1 e xs) else None)"

text \<open>What the debugger finds at each call of \<open>r_brk\<close>: the state, and the list.\<close>

fun task_state :: "rdebug_handler \<Rightarrow> r_state" where
  "task_state AddEntryInternal = RT_ADD"
| "task_state DelEntryInternal = RT_DELETE"

fun breakpoints :: "(rdebug_handler \<times> 'a) list \<Rightarrow> 'a list \<Rightarrow> (r_state \<times> 'a list) list" where
  "breakpoints [] xs = []"
| "breakpoints (t # ts) xs =
     (case dbg_abs t xs of
        None \<Rightarrow> []
      | Some ys \<Rightarrow> (task_state (fst t), xs) # (RT_CONSISTENT, ys) # breakpoints ts ys)"

definition shows_list :: "('w::len) word rdebug \<Rightarrow> 'w word vm \<Rightarrow> r_state \<times> 'w word list \<Rightarrow> bool" where
  "shows_list rd vm = (\<lambda>(st, xs). debug_list rd vm xs \<and> r_state_at vm (r_debug rd) = r_state_num st)"

lemma dbg_abs_set: "dbg_abs t xs = Some ys \<Longrightarrow> set ys \<subseteq> insert (snd t) (set xs)"
  by (induction t xs rule: dbg_abs.induct) (auto split: if_splits dest: notin_set_remove1)

lemma run_handler_step:
  assumes "debug_ready env rd (vm_prot vm) S" "own_entry S (vm_prot vm) (snd t)"
    and "debug_list rd vm xs" "set xs \<subseteq> S" "dbg_abs t xs = Some ys"
  obtains vm1 vm' where "run_handler env t (rd, vm, brks) = Some (rd, vm', brks @ [vm1, vm'])"
    "shows_list rd vm1 (task_state (fst t), xs)" "shows_list rd vm' (RT_CONSISTENT, ys)" "vm_prot vm' = vm_prot vm"
proof (cases "fst t")
  case AddEntryInternal
  then obtain e where t: "t = (AddEntryInternal, e)" by (cases t) auto
  then obtain a b c zs where xs: "xs = a # b # c # zs" "ys = a # b # e # c # zs" "e \<notin> set xs"
    using assms(5) by (cases "(t, xs)" rule: dbg_abs.cases) (auto split: if_splits)
  show ?thesis
    using AddEntryImpl_links [OF assms(1), of e a b c zs brks] assms(2-4) that xs t by (auto simp: shows_list_def)
next
  case DelEntryInternal
  then obtain e where t: "t = (DelEntryInternal, e)" by (cases t) auto
  then have e: "e \<in> set xs" "ys = remove1 e xs" using assms(5) by (auto split: if_splits)
  obtain us vs where xs: "xs = us @ e # vs" using split_list [OF e(1)] by auto
  then have "e \<notin> set us" using assms(3) by (auto simp: debug_list_def)
  then have "ys = us @ vs" using e(2) xs by (simp add: remove1_append)
  then show ?thesis
    using DelEntryImpl_links [OF assms(1), of e us vs brks] assms(2-4) that xs t by (auto simp: shows_list_def)
qed

lemma run_handlers:
  assumes "debug_ready env rd (vm_prot vm) S" "\<And>t. t \<in> set ts \<Longrightarrow> own_entry S (vm_prot vm) (snd t)"
    and "debug_list rd vm xs" "set xs \<subseteq> S" "run_ops dbg_abs ts xs = Some ys"
  shows "\<exists>vm' seen. run_ops (run_handler env) ts (rd, vm, brks) = Some (rd, vm', brks @ seen) \<and>
     debug_list rd vm' ys \<and> vm_prot vm' = vm_prot vm \<and> list_all2 (shows_list rd) seen (breakpoints ts xs)"
  using assms
proof (induction ts arbitrary: vm xs brks)
  case (Cons t ts)
  obtain zs where zs: "dbg_abs t xs = Some zs" "run_ops dbg_abs ts zs = Some ys"
    using Cons.prems(5) by (auto split: option.splits bind_splits)
  obtain vm1 vm2 where st: "run_handler env t (rd, vm, brks) = Some (rd, vm2, brks @ [vm1, vm2])"
    "shows_list rd vm1 (task_state (fst t), xs)" "shows_list rd vm2 (RT_CONSISTENT, zs)" "vm_prot vm2 = vm_prot vm"
    by (rule run_handler_step [OF Cons.prems(1) Cons.prems(2) Cons.prems(3,4) zs(1)]) simp_all
  have "set zs \<subseteq> S"
    using dbg_abs_set [OF zs(1)] Cons.prems(2) [of t] Cons.prems(4) by (auto simp: own_entry_def)
  moreover have "debug_list rd vm2 zs" using st(3) by (simp add: shows_list_def)
  ultimately obtain vm' seen where "run_ops (run_handler env) ts (rd, vm2, brks @ [vm1, vm2]) = Some (rd, vm', (brks @ [vm1, vm2]) @ seen)"
    "debug_list rd vm' ys" "vm_prot vm' = vm_prot vm2" "list_all2 (shows_list rd) seen (breakpoints ts zs)"
    using Cons.IH [of vm2 zs "brks @ [vm1, vm2]"] Cons.prems(1,2) st(4) zs(2) by auto
  with st zs(1) show ?case by (intro exI [of _ vm'] exI [of _ "vm1 # vm2 # seen"]) simp
qed simp

section \<open>Posted tasks\<close>

text \<open>The queue of posted tasks is no concern of the handlers.\<close>

definition with_posted :: "(rdebug_handler \<times> ('w::len) word) list \<Rightarrow> 'w word dbg_state \<Rightarrow> 'w word dbg_state" where
  "with_posted q = (\<lambda>(rd, vm, brks). (rd\<lparr>rd_posted := q\<rparr>, vm, brks))"

lemma map_option_bind_out: "map_option f (Option.bind m g) = Option.bind m (\<lambda>x. map_option f (g x))"
  by (cases m) simp_all

lemma with_posted_simp [simp]: "with_posted q (rd, vm, brks) = (rd\<lparr>rd_posted := q\<rparr>, vm, brks)"
  by (simp add: with_posted_def)

lemma RDebug_scan_posted:
  "RDebug_scan vm maps n dyn (rd\<lparr>rd_posted := q\<rparr>) =
   map_option (\<lambda>(ok, rd). (ok, rd\<lparr>rd_posted := q\<rparr>)) (RDebug_scan vm maps n dyn rd)"
  by (induction n arbitrary: dyn) (simp_all add: Let_def)

lemma posted_init: "rd\<lparr>rd_posted := q, init := b\<rparr> = rd\<lparr>init := b, rd_posted := q\<rparr>"
  by simp

lemma RDebug_Init_posted:
  "RDebug_Init_method env vm (rd\<lparr>rd_posted := q\<rparr>) =
   map_option (\<lambda>(ok, rd). (ok, rd\<lparr>rd_posted := q\<rparr>)) (RDebug_Init_method env vm rd)"
  by (auto simp: RDebug_Init_method_def Let_def posted_init RDebug_scan_posted split: option.splits prod.splits)

lemma posted_r_debug: "rd\<lparr>rd_posted := q, r_debug := p\<rparr> = rd\<lparr>r_debug := p, rd_posted := q\<rparr>"
  by simp

lemma AddEntry_link_posted:
  "AddEntry_link env e (with_posted q s) = map_option (with_posted q) (AddEntry_link env e s)"
  by (cases s) (simp add: AddEntry_link_def Let_def map_option_bind_out posted_r_debug if_distrib [of "map_option _"] cong: if_cong)

lemma run_handler_posted:
  "run_handler env t (with_posted q s) = map_option (with_posted q) (run_handler env t s)"
proof -
  obtain rd vm brks where s: "s = (rd, vm, brks)" by (metis prod_cases3)
  have "AddEntry_link env e (rd'\<lparr>rd_posted := q\<rparr>, vm, brks) =
      map_option (with_posted q) (AddEntry_link env e (rd', vm, brks))" for e rd'
    using AddEntry_link_posted [of env e q "(rd', vm, brks)"] by simp
  then have "AddEntryImpl env e (with_posted q s) = map_option (with_posted q) (AddEntryImpl env e s)" for e
    by (cases "RDebug_Init_method env vm rd") (auto simp: s AddEntryImpl_def RDebug_Init_posted)
  moreover have "DelEntryImpl env e (with_posted q s) = map_option (with_posted q) (DelEntryImpl env e s)" for e
    by (simp add: s DelEntryImpl_def Let_def map_option_bind_out if_distrib [of "map_option _"] cong: if_cong)
  ultimately show ?thesis by (cases "(env, t, s)" rule: run_handler.cases) auto
qed

lemma run_posted:
  "run_ops (\<lambda>_. RDebugRunnable_Run env) ts (with_posted ts s) = map_option (with_posted []) (run_ops (run_handler env) ts s)"
proof (induction ts arbitrary: s)
  case (Cons t ts)
  obtain rd vm brks where s: "s = (rd, vm, brks)" by (metis prod_cases3)
  have "RDebugRunnable_Run env (with_posted (t # ts) s) = map_option (with_posted ts) (run_handler env t s)"
    using run_handler_posted [of env t ts s] by (simp add: s RDebugRunnable_Run_def)
  then show ?case by (cases "run_handler env t s") (simp_all add: Cons.IH)
qed simp

lemma post_all:
  assumes "post_for_later_execution rd = Some poster" "\<And>t. t \<in> set ts \<Longrightarrow> poster t"
  shows "run_ops (RunOrDelay env) ts (rd, vm, brks) = Some (rd\<lparr>rd_posted := rd_posted rd @ ts\<rparr>, vm, brks)"
  using assms by (induction ts arbitrary: rd) (simp_all add: RunOrDelay_def PostCallback_def)

definition dyn_debug :: "('w::len) word vm \<Rightarrow> 'w word \<Rightarrow> nat \<Rightarrow> 'w word" where
  "dyn_debug vm dyn i =
     (let entry = dyn + word_of_nat (i * sizeof_Dyn LENGTH('w)) in
      if unat (read_addr vm entry) = DT_DEBUG then read_addr vm (entry + word_of_nat (addr_size LENGTH('w))) else 0)"

lemma find_Suc: "find P [0..<Suc n] = (if P 0 then Some 0 else map_option Suc (find (P \<circ> Suc) [0..<n]))"
proof -
  have "find P (map Suc xs) = map_option Suc (find (P \<circ> Suc) xs)" for xs by (induction xs) simp_all
  then show ?thesis by (simp add: upt_conv_Cons map_Suc_upt [symmetric] del: upt_Suc)
qed

lemma dyn_debug_Suc: "dyn_debug vm dyn (Suc i) = dyn_debug vm (dyn + word_of_nat (sizeof_Dyn LENGTH('w))) i"
  for dyn :: "'w::len word"
  by (simp add: dyn_debug_def algebra_simps)

section \<open>An example\<close>

text \<open>A list of three entries of the system linker, in a read-only page, \<open>_r_debug\<close> in the page before
  it, and an entry of a library of the linker in the page after it.\<close>

definition dbg_vm :: "32 word vm" where
  "dbg_vm = \<lparr>vm_byte = (\<lambda>x. if x = 0x1005 then 0x20 else if x = 0x200d then 0x21 else if x = 0x210d then 0x22
       else if x = 0x2111 then 0x20 else if x = 0x2211 then 0x21 else 0),
     vm_prot = (\<lambda>x. if page_of x = 0x2000 then Some PROT_READ
       else if page_of x = 0x1000 \<or> page_of x = 0x3000 then Some (PROT_READ OR PROT_WRITE) else None)\<rparr>"

definition dbg_maps :: "32 word proc_maps" where
  "dbg_maps = \<lparr>pm_index = 0, pm_entries =
     [entry0\<lparr>vma_start := 0x1000, vma_end := 0x2000, prot_flags := PROT_READ OR PROT_WRITE\<rparr>,
      entry0\<lparr>vma_start := 0x2000, vma_end := 0x3000, prot_flags := PROT_READ\<rparr>,
      entry0\<lparr>vma_start := 0x3000, vma_end := 0x4000, prot_flags := PROT_READ OR PROT_WRITE\<rparr>]\<rparr>"

definition dbg_env :: "32 word rdebug_env" where
  "dbg_env = \<lparr>env_exe_link = None, env_exe_file = (\<lambda>_. \<lparr>f_opens = False, f_seeks = False, f_reads = False,
     f_size = 0, f_byte = (\<lambda>_. 0)\<rparr>), env_self_maps = (\<lambda>_. dbg_maps), env_refuse = (\<lambda>_ _. False)\<rparr>"

definition dbg_rd :: "32 word rdebug" where
  "dbg_rd = \<lparr>r_debug = 0x1000, init = True, readonly_entries = True, post_for_later_execution = None, rd_posted = []\<rparr>"

lemma upto_4: "{0..<4::nat} = {0, 1, 2, 3}"
  by auto

lemma footprint_32: "addr_footprint (a :: 32 word) = {a, a + 1, a + 2, a + 3}"
  by (simp add: addr_footprint_def addr_size_def upto_4)

lemma int32_32: "int32_cells (a :: 32 word) = {a, a + 1, a + 2, a + 3}"
  by (simp add: int32_cells_def upto_4)

lemmas dbg_ptrs = l_next_ptr_def l_prev_ptr_def r_map_ptr_def r_state_ptr_def addr_size_def

lemma dbg_example_list: "debug_list dbg_rd dbg_vm [0x2000, 0x2100, 0x2200]"
  by (simp add: debug_list_def dbg_rd_def r_map_def l_next_def l_prev_def dbg_ptrs read_addr_def le_at_def
      mem_from_def dbg_vm_def upt_rec)

lemma dbg_example_apart: "nodes_apart 0x1000 {0x2000, 0x2100, 0x2200, 0x3000 :: 32 word}"
  by (simp add: nodes_apart_def link_cells_def debug_cells_def footprint_32 int32_32 dbg_ptrs)

lemma dbg_flags:
  "FindProtectionFlagsForAddress dbg_maps a =
     (if 0x1000 \<le> a \<and> a < 0x2000 then Some (PROT_READ OR PROT_WRITE)
      else if 0x2000 \<le> a \<and> a < 0x3000 then Some PROT_READ
      else if 0x3000 \<le> a \<and> a < 0x4000 then Some (PROT_READ OR PROT_WRITE) else None)"
  by (simp add: FindProtectionFlagsForAddress_def dbg_maps_def entry_loop.simps GetNextEntry_def
      entry_contains_def entry0_def)

lemma page_of_numeral: "page_of (numeral k :: 'w::len word) = numeral k AND NOT (4096 - 1)"
  by (simp add: page_of_def)

lemma dbg_page_prot:
  "page_of x = 0x2000 \<Longrightarrow> vm_prot dbg_vm x = Some PROT_READ"
  "page_of x = 0x1000 \<or> page_of x = 0x3000 \<Longrightarrow> vm_prot dbg_vm x = Some (PROT_READ OR PROT_WRITE)"
  by (auto simp: dbg_vm_def)

lemma dbg_example_ready: "debug_ready dbg_env dbg_rd (vm_prot dbg_vm) {0x2000, 0x2100, 0x2200, 0x3000}"
proof -
  have "node_ok dbg_env True (vm_prot dbg_vm) n" if "n \<in> {0x2000, 0x2100, 0x2200}" for n
  proof -
    have n: "page_of n = 0x2000" using that by (auto simp: page_of_numeral)
    have "FindProtectionFlagsForAddress dbg_maps n = Some PROT_READ" using that by (auto simp: dbg_flags)
    moreover have "same_page x n" if "x \<in> link_cells n" for x
      using that \<open>n \<in> {0x2000, 0x2100, 0x2200}\<close>
      by (auto simp: same_page_def page_of_numeral link_cells_def footprint_32 dbg_ptrs)
    ultimately show ?thesis
      using n by (simp add: node_ok_def dbg_env_def same_page_def dbg_page_prot)
  qed
  moreover have "node_ok dbg_env True (vm_prot dbg_vm) 0x3000"
    by (simp add: node_ok_def dbg_env_def same_page_def dbg_page_prot dbg_flags page_of_numeral link_cells_def
        footprint_32 dbg_ptrs)
  moreover have "\<exists>p. vm_prot dbg_vm x = Some p \<and> p AND PROT_WRITE \<noteq> 0" if "x \<in> debug_cells 0x1000" for x
  proof -
    have "page_of x = 0x1000" using that by (auto simp: debug_cells_def footprint_32 int32_32 dbg_ptrs page_of_numeral)
    then show ?thesis by (simp add: dbg_page_prot PROT_READ_def PROT_WRITE_def)
  qed
  ultimately show ?thesis using dbg_example_apart by (simp add: debug_ready_def dbg_rd_def)
qed

lemma dbg_example_own: "own_entry {0x2000, 0x2100, 0x2200, 0x3000} (vm_prot dbg_vm) 0x3000"
proof -
  have "page_of x = 0x3000" if "x \<in> link_cells 0x3000" for x :: "32 word"
    using that by (auto simp: link_cells_def footprint_32 dbg_ptrs page_of_numeral)
  then show ?thesis by (simp add: own_entry_def dbg_page_prot PROT_READ_def PROT_WRITE_def)
qed

section \<open>Properties\<close>

text \<open>C16: Whatever sequence of insertions and removals of the linker's own entries is run, the list in
  memory is the one the specification gives, doubly linked, starting at \<open>r_map\<close>, and the pages have the
  protection they had before, also when the system linker keeps its entries in read-only pages. At
  every call of \<open>r_brk\<close> the debugger finds a complete list: the old one in the state \<open>RT_ADD\<close> or
  \<open>RT_DELETE\<close>, the new one in the state \<open>RT_CONSISTENT\<close>.\<close>

theorem RDebug_refines_list:
  assumes "debug_ready env rd (vm_prot vm) S" "\<forall>t \<in> set ts. own_entry S (vm_prot vm) (snd t)"
    and "debug_list rd vm xs" "set xs \<subseteq> S" "run_ops dbg_abs ts xs = Some ys"
  shows "\<exists>vm' seen. run_ops (run_handler env) ts (rd, vm, []) = Some (rd, vm', seen) \<and>
     debug_list rd vm' ys \<and> vm_prot vm' = vm_prot vm \<and> list_all2 (shows_list rd) seen (breakpoints ts xs)"
  using run_handlers [OF assms(1) _ assms(3-5), of "[]"] assms(2) by simp

theorem RDebug_refines_list_witness:
  "\<exists>vm' seen. run_ops (run_handler dbg_env) [(AddEntryInternal, 0x3000), (DelEntryInternal, 0x3000)] (dbg_rd, dbg_vm, []) =
       Some (dbg_rd, vm', seen) \<and>
     debug_list dbg_rd vm' [0x2000, 0x2100, 0x2200] \<and> vm_prot vm' = vm_prot dbg_vm \<and> length seen = 4"
proof -
  have "\<exists>vm' seen. run_ops (run_handler dbg_env) [(AddEntryInternal, 0x3000), (DelEntryInternal, 0x3000)] (dbg_rd, dbg_vm, []) =
       Some (dbg_rd, vm', seen) \<and>
     debug_list dbg_rd vm' [0x2000, 0x2100, 0x2200] \<and> vm_prot vm' = vm_prot dbg_vm \<and>
     list_all2 (shows_list dbg_rd) seen
       (breakpoints [(AddEntryInternal, 0x3000), (DelEntryInternal, 0x3000)] [0x2000, 0x2100, 0x2200])"
    by (rule RDebug_refines_list [OF dbg_example_ready _ dbg_example_list]) (simp_all add: dbg_example_own)
  then show ?thesis by (auto dest: list_all2_lengthD)
qed



text \<open>\<open>Init\<close> takes the first entry \<open>DT_DEBUG\<close> of the dynamic section that is not 0. When the version
  of the structure it points to is not the supported one, it resets \<open>r_debug_\<close> and then reads \<open>r_map\<close>
  through the null pointer.\<close>

theorem RDebug_scan_first:
  fixes vm :: "'w::len word vm"
  shows "RDebug_scan vm self_maps n dyn rd =
     (case find (\<lambda>i. dyn_debug vm dyn i \<noteq> 0) [0..<n] of
        None \<Rightarrow> Some (False, rd)
      | Some i \<Rightarrow>
          let r = dyn_debug vm dyn i in
          if r_version vm r \<noteq> 1 then None
          else Some (True, rd\<lparr>r_debug := r, readonly_entries :=
                 (fst (GetProtectionFlagsForAddress (r_map vm r) self_maps) AND PROT_WRITE = 0)\<rparr>))"
proof (induction n arbitrary: dyn)
  case (Suc n)
  show ?case
  proof (cases "dyn_debug vm dyn 0 = 0")
    case True
    then show ?thesis
      using Suc.IH [of "dyn + word_of_nat (sizeof_Dyn LENGTH('w))"]
      by (auto simp: find_Suc dyn_debug_Suc o_def simp del: upt_Suc split: option.splits if_splits)
        (auto simp: dyn_debug_def Let_def split: if_splits)
  next
    case False
    then show ?thesis by (simp add: find_Suc del: upt_Suc) (auto simp: dyn_debug_def Let_def split: if_splits)
  qed
qed simp

end
