(* ===== verification/Shared_Library.thy ===== *)
theory Shared_Library
  imports Elf_Relro Rdebug
begin

text \<open>
  One library loaded by the linker, class \<open>SharedLibrary\<close> of \<open>crazy_linker_shared_library.cpp\<close>, the
  handles \<open>LibraryView\<close> that stand for crazy and for system libraries, and the resolver that binds the
  symbols of a library being relocated. The code of the loaded libraries (constructors, destructors,
  \<open>JNI_OnLoad\<close>, \<open>JNI_OnUnload\<close>) is an argument that acts on the memory; the calls made are recorded in
  their order. The system linker is the argument \<open>dlsym\<close>. A lookup that never ends, because a hash
  chain is cyclic or a string is not terminated, is the value \<^term>\<open>None\<close>.
\<close>

datatype 'addr library_error =
  PathTooLong "char list"
| LoadError "'addr loader_error"
| ViewError view_error
| MissingSymbolTable
| RelocError "'addr reloc_error"
| RelroError "'addr relro_error"
| RelroInUse
| RelroMismatch 'addr 'addr 'addr 'addr
| JniVersionTooOld "char list" int int
| NoRelroForSystem

text \<open>Of \<open>link_map_\<close>, the fields \<open>l_addr\<close> and \<open>l_ld\<close> are here (\<open>l_name\<close> points to \<open>base_name_\<close>); the links are
  in memory, where \<open>Rdebug\<close> has them.\<close>

record 'addr shared_library =
  sl_view :: "'addr elf_view"
  sl_symbols :: "'addr elf_symbols"
  relro_start :: 'addr
  relro_size :: 'addr
  relro_used :: bool
  list_next :: 'addr
  list_prev :: 'addr
  preinit_array :: 'addr
  preinit_array_count :: nat
  init_array :: 'addr
  init_array_count :: nat
  fini_array :: 'addr
  fini_array_count :: nat
  init_func :: 'addr
  fini_func :: 'addr
  arm_exidx :: 'addr
  arm_exidx_count :: nat
  link_addr :: 'addr
  link_ld :: 'addr
  has_DT_SYMBOLIC :: bool
  java_vm :: 'addr
  base_name :: "char list"
  full_path :: "char list"

definition SharedLibrary_Init :: "('w::len) word shared_library" where
  "SharedLibrary_Init =
     \<lparr>sl_view = ElfView_Init, sl_symbols = ElfSymbols_zero, relro_start = 0, relro_size = 0, relro_used = False,
      list_next = 0, list_prev = 0, preinit_array = 0, preinit_array_count = 0, init_array = 0, init_array_count = 0,
      fini_array = 0, fini_array_count = 0, init_func = 0, fini_func = 0, arm_exidx = 0, arm_exidx_count = 0,
      link_addr = 0, link_ld = 0, has_DT_SYMBOLIC = False, java_vm = 0, base_name = [], full_path = []\<rparr>"

definition SharedLibrary_end :: "('w::len) word shared_library \<Rightarrow> 'w word vm \<Rightarrow> 'w word vm" where
  "SharedLibrary_end lib vm =
     (if ev_load_address (sl_view lib) \<noteq> 0
      then sys_munmap (ev_load_address (sl_view lib)) (ev_load_size (sl_view lib)) vm else vm)"

abbreviation lib_bias :: "('w::len) word shared_library \<Rightarrow> 'w word" where
  "lib_bias lib \<equiv> ev_load_bias (sl_view lib)"

abbreviation lib_address :: "('w::len) word shared_library \<Rightarrow> 'w word" where
  "lib_address lib \<equiv> ev_load_address (sl_view lib)"

section \<open>Loading\<close>

definition DT_INIT :: nat where "DT_INIT = 12"
definition DT_FINI :: nat where "DT_FINI = 13"
definition DT_NEEDED :: nat where "DT_NEEDED = 1"
definition DT_INIT_ARRAY :: nat where "DT_INIT_ARRAY = 25"
definition DT_FINI_ARRAY :: nat where "DT_FINI_ARRAY = 26"
definition DT_INIT_ARRAYSZ :: nat where "DT_INIT_ARRAYSZ = 27"
definition DT_FINI_ARRAYSZ :: nat where "DT_FINI_ARRAYSZ = 28"
definition DT_PREINIT_ARRAY :: nat where "DT_PREINIT_ARRAY = 32"
definition DT_PREINIT_ARRAYSZ :: nat where "DT_PREINIT_ARRAYSZ = 33"
definition DT_MIPS_RLD_MAP :: nat where "DT_MIPS_RLD_MAP = 0x70000016"

text \<open>The body of the loop over the dynamic table. \<open>rdbg\<close> is the address of the system linker's
  \<open>_r_debug\<close>.\<close>

definition SharedLibrary_dyn ::
  "arch \<Rightarrow> ('w::len) word \<Rightarrow> 'w word dyn_iter \<Rightarrow> 'w word shared_library \<times> 'w word vm \<Rightarrow>
     'w word shared_library \<times> 'w word vm" where
  "SharedLibrary_dyn arch rdbg dyn = (\<lambda>(lib, vm).
     let dyn_value = dyn_GetValue vm dyn;
         dyn_addr = dyn_GetAddress vm (lib_bias lib) dyn;
         count = unat dyn_value div addr_size LENGTH('w);
         tag = unat (dyn_GetTag vm dyn)
     in
     if tag = DT_DEBUG then
       (lib, if ev_dynamic_flags (sl_view lib) AND PF_W \<noteq> 0 then write_addr vm (dyn_GetValuePointer dyn) rdbg else vm)
     else if tag = DT_INIT then (lib\<lparr>init_func := dyn_addr\<rparr>, vm)
     else if tag = DT_FINI then (lib\<lparr>fini_func := dyn_addr\<rparr>, vm)
     else if tag = DT_INIT_ARRAY then (lib\<lparr>init_array := dyn_addr\<rparr>, vm)
     else if tag = DT_INIT_ARRAYSZ then (lib\<lparr>init_array_count := count\<rparr>, vm)
     else if tag = DT_FINI_ARRAY then (lib\<lparr>fini_array := dyn_addr\<rparr>, vm)
     else if tag = DT_FINI_ARRAYSZ then (lib\<lparr>fini_array_count := count\<rparr>, vm)
     else if tag = DT_PREINIT_ARRAY then (lib\<lparr>preinit_array := dyn_addr\<rparr>, vm)
     else if tag = DT_PREINIT_ARRAYSZ then (lib\<lparr>preinit_array_count := count\<rparr>, vm)
     else if tag = DT_SYMBOLIC then (lib\<lparr>has_DT_SYMBOLIC := True\<rparr>, vm)
     else if tag = DT_FLAGS then
       (if dyn_value AND word_of_nat DF_SYMBOLIC \<noteq> 0 then lib\<lparr>has_DT_SYMBOLIC := True\<rparr> else lib, vm)
     else if tag = DT_MIPS_RLD_MAP \<and> arch = MIPS then (lib, write_addr vm (dyn_GetValuePointer dyn) rdbg)
     else (lib, vm))"

text \<open>The processor, its ELF machine number, and the kernel are arguments; the result \<^term>\<open>None\<close> in the
  first place is the \<open>true\<close> of the source.\<close>

definition SharedLibrary_Load ::
  "arch \<Rightarrow> nat \<Rightarrow> 'w word loader_os \<Rightarrow> (char list \<Rightarrow> elf_file) \<Rightarrow> ('w::len) word \<Rightarrow> char list \<Rightarrow> 'w word \<Rightarrow> 'w word \<Rightarrow>
   'w word shared_library \<Rightarrow> 'w word vm \<Rightarrow> 'w word library_error option \<times> 'w word shared_library \<times> 'w word vm" where
  "SharedLibrary_Load arch machine os files rdbg path load_addr file_offs lib vm =
     (if length path \<ge> 512 then (Some (PathTooLong path), lib, vm)
      else
        let lib = lib\<lparr>full_path := path, base_name := GetBaseNamePtr path\<rparr> in
        case LoadAt machine os (files path) file_offs load_addr ElfLoader_Init vm of
          (Some e, loader, vm) \<Rightarrow> (Some (LoadError e), lib, vm)
        | (None, loader, vm) \<Rightarrow>
            (case InitUnmapped vm (load_start loader) (loaded_phdr loader)
                    (phdrs_at vm (loaded_phdr loader) (phdr_num loader)) (sl_view lib) of
               (Some e, view) \<Rightarrow> (Some (ViewError e), lib\<lparr>sl_view := view\<rparr>, vm)
             | (None, view) \<Rightarrow>
                 (case ElfSymbols_Init vm view (sl_symbols lib) of (ok, symbols) \<Rightarrow>
                    let lib = lib\<lparr>sl_view := view, sl_symbols := symbols\<rparr> in
                    if \<not> ok then (Some MissingSymbolTable, lib, vm)
                    else
                      let phs = view_phdrs vm view;
                          (start, len) = (case phdr_table_get_relro_info phs (ev_load_bias view) of
                                            None \<Rightarrow> (0, 0) | Some r \<Rightarrow> r);
                          lib = lib\<lparr>relro_start := start, relro_size := len\<rparr>;
                          lib = (if arch = ARM then
                                   (case phdr_table_get_arm_exidx phs (ev_load_bias view) of (_, exidx, count) \<Rightarrow>
                                      lib\<lparr>arm_exidx := exidx, arm_exidx_count := count\<rparr>)
                                 else lib);
                          (lib, vm) = fold (SharedLibrary_dyn arch rdbg) (dynamic_entries view) (lib, vm)
                      in (None, lib, vm))))"

section \<open>Library views\<close>

datatype view_type = TYPE_NONE | TYPE_SYSTEM | TYPE_CRAZY

text \<open>\<open>crazy_\<close> is the address of the \<open>SharedLibrary\<close> object, \<open>system_\<close> the handle of the system linker.\<close>

record 'addr library_view =
  lv_type :: view_type
  lv_crazy :: 'addr
  lv_system :: 'addr
  lv_name :: "char list"
  lv_ref_count :: int

definition LibraryView_Init :: "('w::len) word library_view" where
  "LibraryView_Init = \<lparr>lv_type = TYPE_NONE, lv_crazy = 0, lv_system = 0, lv_name = [], lv_ref_count = 1\<rparr>"

definition IsSystem :: "('w::len) word library_view \<Rightarrow> bool" where
  "IsSystem v \<longleftrightarrow> lv_type v = TYPE_SYSTEM"

definition IsCrazy :: "('w::len) word library_view \<Rightarrow> bool" where
  "IsCrazy v \<longleftrightarrow> lv_type v = TYPE_CRAZY"

definition SetSystem :: "('w::len) word \<Rightarrow> char list \<Rightarrow> 'w word library_view \<Rightarrow> 'w word library_view" where
  "SetSystem system_lib name v = v\<lparr>lv_type := TYPE_SYSTEM, lv_system := system_lib, lv_name := name\<rparr>"

definition SetCrazy :: "('w::len) word \<Rightarrow> char list \<Rightarrow> 'w word library_view \<Rightarrow> 'w word library_view" where
  "SetCrazy crazy_lib name v = v\<lparr>lv_type := TYPE_CRAZY, lv_crazy := crazy_lib, lv_name := name\<rparr>"

definition GetCrazy :: "('w::len) word library_view \<Rightarrow> 'w word" where
  "GetCrazy v = (if IsCrazy v then lv_crazy v else 0)"

definition GetSystem :: "('w::len) word library_view \<Rightarrow> 'w word" where
  "GetSystem v = (if IsSystem v then lv_system v else 0)"

definition AddRef :: "('w::len) word library_view \<Rightarrow> 'w word library_view" where
  "AddRef v = v\<lparr>lv_ref_count := lv_ref_count v + 1\<rparr>"

definition SafeDecrementRef :: "('w::len) word library_view \<Rightarrow> bool \<times> 'w word library_view" where
  "SafeDecrementRef v = (let v = v\<lparr>lv_ref_count := lv_ref_count v - 1\<rparr> in (lv_ref_count v = 0, v))"

section \<open>Symbols\<close>

text \<open>A string in memory, and the bytes of a string literal.\<close>

partial_function (option) cstr_at :: "('w::len) word vm \<Rightarrow> 'w word \<Rightarrow> byte list option" where
  "cstr_at vm a =
     (if vm_byte vm a = 0 then Some []
      else do { bs \<leftarrow> cstr_at vm (a + 1); Some (vm_byte vm a # bs) })"

definition bytes_of :: "char list \<Rightarrow> byte list" where
  "bytes_of cs = map of_char cs"

definition chars_of :: "byte list \<Rightarrow> char list" where
  "chars_of bs = map (\<lambda>b. char_of (unat b)) bs"

definition LookupSymbolEntry ::
  "('w::len) word vm \<Rightarrow> 'w word shared_library \<Rightarrow> byte list \<Rightarrow> 'w word elf_sym option option" where
  "LookupSymbolEntry vm lib symbol_name =
     map_option (map_option (sym_at vm (sl_symbols lib))) (LookupByName vm (sl_symbols lib) symbol_name)"

definition FindAddressForSymbol ::
  "('w::len) word vm \<Rightarrow> 'w word shared_library \<Rightarrow> byte list \<Rightarrow> 'w word option" where
  "FindAddressForSymbol vm lib symbol_name = LookupAddressByName vm (sl_symbols lib) symbol_name (lib_bias lib)"

definition FindNearestSymbolForAddress ::
  "('w::len) word vm \<Rightarrow> 'w word shared_library \<Rightarrow> 'w word \<Rightarrow> ('w word \<times> 'w word \<times> 'w word) option" where
  "FindNearestSymbolForAddress vm lib address = LookupNearestByAddress vm (sl_symbols lib) address (lib_bias lib)"

definition ContainsAddress :: "('w::len) word shared_library \<Rightarrow> 'w word \<Rightarrow> bool" where
  "ContainsAddress lib addr \<longleftrightarrow> lib_address lib \<le> addr \<and> addr \<le> lib_address lib + ev_load_size (sl_view lib)"

definition SharedLibrary_GetInfo :: "('w::len) word shared_library \<Rightarrow> 'w word \<times> 'w word \<times> 'w word \<times> 'w word" where
  "SharedLibrary_GetInfo lib = (lib_address lib, ev_load_size (sl_view lib), relro_start lib, relro_size lib)"

text \<open>\<open>LibraryView::GetInfo\<close>; \<open>libs\<close> gives the object at an address.\<close>

definition LibraryView_GetInfo ::
  "('w word \<Rightarrow> 'w word shared_library) \<Rightarrow> ('w::len) word library_view \<Rightarrow>
     'w word library_error + 'w word \<times> 'w word \<times> 'w word \<times> 'w word" where
  "LibraryView_GetInfo libs v =
     (if lv_type v \<noteq> TYPE_CRAZY then Inl NoRelroForSystem else Inr (SharedLibrary_GetInfo (libs (lv_crazy v))))"

text \<open>\<open>WrapLinkerSymbol\<close>: the functions of the dynamic linker the loaded libraries are given. \<open>wrapper\<close>
  is the address of the wrapper of a name.\<close>

definition kSymbols :: "arch \<Rightarrow> char list list" where
  "kSymbols arch = [''dlopen'', ''dlclose'', ''dlerror'', ''dlsym'', ''dladdr''] @
     (if arch = ARM then [''dl_unwind_find_exidx''] else [''dl_iterate_phdr''])"

definition WrapLinkerSymbol ::
  "arch \<Rightarrow> (char list \<Rightarrow> 'w word) \<Rightarrow> byte list \<Rightarrow> ('w::len) word" where
  "WrapLinkerSymbol arch wrapper name =
     (if take 2 name \<noteq> bytes_of ''dl'' then
        (if arch = ARM \<and> name = bytes_of ''__aeabi_atexit'' then wrapper ''__aeabi_atexit'' else 0)
      else case find (\<lambda>s. bytes_of s = name) (kSymbols arch) of None \<Rightarrow> 0 | Some s \<Rightarrow> wrapper s)"

section \<open>Binding symbols\<close>

record 'addr resolver_env =
  re_dlsym :: "'addr \<Rightarrow> byte list \<Rightarrow> 'addr"
  re_wrapper :: "char list \<Rightarrow> 'addr"
  re_libs :: "'addr \<Rightarrow> 'addr shared_library"

text \<open>\<open>::dlsym\<close> in a system library, with the detour for \<open>isnanf\<close>.\<close>

definition system_lookup ::
  "arch \<Rightarrow> ('w::len) word resolver_env \<Rightarrow> 'w word library_view \<Rightarrow> byte list \<Rightarrow> 'w word" where
  "system_lookup arch env wrap symbol_name =
     (let address = re_dlsym env (GetSystem wrap) symbol_name in
      if arch = ARM \<and> address = 0 \<and> symbol_name = bytes_of ''isnanf'' \<and> lv_name wrap = ''libm.so''
      then re_dlsym env (GetSystem wrap) (bytes_of ''__isnanf'') else address)"

fun resolver_dependencies ::
  "arch \<Rightarrow> ('w::len) word resolver_env \<Rightarrow> 'w word vm \<Rightarrow> byte list \<Rightarrow> 'w word library_view list \<Rightarrow> 'w word option" where
  "resolver_dependencies arch env vm symbol_name [] = Some 0"
| "resolver_dependencies arch env vm symbol_name (wrap # wraps) =
     (let address = (if IsSystem wrap then system_lookup arch env wrap symbol_name else 0) in
      if address \<noteq> 0 then Some address
      else if IsCrazy wrap then do {
        let dep = re_libs env (GetCrazy wrap);
        entry \<leftarrow> LookupSymbolEntry vm dep symbol_name;
        (case entry of
           Some sy \<Rightarrow> Some (lib_bias dep + st_value sy)
         | None \<Rightarrow> resolver_dependencies arch env vm symbol_name wraps)
      }
      else resolver_dependencies arch env vm symbol_name wraps)"

definition Resolver_Lookup ::
  "arch \<Rightarrow> ('w::len) word resolver_env \<Rightarrow> 'w word shared_library \<Rightarrow> 'w word library_view list \<Rightarrow>
     'w word vm \<Rightarrow> byte list \<Rightarrow> 'w word option" where
  "Resolver_Lookup arch env lib dependencies vm symbol_name =
     do {
       entry \<leftarrow> LookupSymbolEntry vm lib symbol_name;
       (case entry of
          Some sy \<Rightarrow> Some (lib_bias lib + st_value sy)
        | None \<Rightarrow>
            let address = WrapLinkerSymbol arch (re_wrapper env) symbol_name in
            if address \<noteq> 0 then Some address
            else resolver_dependencies arch env vm symbol_name dependencies)
     }"

text \<open>The resolver as the relocation code calls it, on the address of a name. The symbols it is asked for
  are those of the entries of the tables and, on MIPS, those of the global part of the table of
  addresses; \<open>Relocate\<close> is undefined when the lookup of one of them does not end.\<close>

definition resolver_call ::
  "arch \<Rightarrow> ('w::len) word resolver_env \<Rightarrow> 'w word shared_library \<Rightarrow> 'w word library_view list \<Rightarrow>
     'w word vm \<Rightarrow> 'w word \<Rightarrow> 'w word option" where
  "resolver_call arch env lib dependencies vm name =
     do { symbol_name \<leftarrow> cstr_at vm name; Resolver_Lookup arch env lib dependencies vm symbol_name }"

definition table_symbols ::
  "('w word vm \<Rightarrow> 'w word \<Rightarrow> 'w word elf_rel) \<Rightarrow> nat \<Rightarrow> 'w word \<Rightarrow> nat \<Rightarrow> ('w::len) word vm \<Rightarrow> nat list" where
  "table_symbols entry sz base len vm =
     (if base = 0 then []
      else map (\<lambda>i. ELF_R_SYM LENGTH('w) (r_info (entry vm (base + word_of_nat (i * sz))))) [0..<len div sz])"

definition relocated_symbols :: "arch \<Rightarrow> ('w::len) word elf_relocations \<Rightarrow> 'w word vm \<Rightarrow> nat list" where
  "relocated_symbols arch r vm =
     (let (entry, sz) = (if relocations_type r = DT_REL then (rel_at, sizeof_Rel LENGTH('w))
                         else (rela_at, sizeof_Rela LENGTH('w)))
      in filter (\<lambda>n. n \<noteq> 0)
           (table_symbols entry sz (plt_relocations r) (plt_relocations_size r) vm @
            table_symbols entry sz (relocations r) (relocations_size r) vm) @
         (if arch = MIPS \<and> plt_got r \<noteq> 0 then [mips_gotsym r..<mips_symtab_count r] else []))"

definition SharedLibrary_Relocate ::
  "arch \<Rightarrow> 'w word refusal \<Rightarrow> ('w::len) word resolver_env \<Rightarrow> 'w word library_view list \<Rightarrow>
   'w word shared_library \<Rightarrow> 'w word vm \<Rightarrow> (bool \<times> 'w word reloc_error option \<times> 'w word vm) option" where
  "SharedLibrary_Relocate arch refuse env dependencies lib vm =
     (case ElfRelocations_Init arch vm (sl_view lib) ElfRelocations_zero of
        Inl e \<Rightarrow> Some (False, Some e, vm)
      | Inr r \<Rightarrow>
          let resolve = resolver_call arch env lib dependencies in
          if list_all (\<lambda>n. resolve vm (LookupNameById vm (sl_symbols lib) n) \<noteq> None) (relocated_symbols arch r vm)
          then Some (ApplyAll arch refuse r (sl_symbols lib)
                  (\<lambda>vm a. case resolve vm a of None \<Rightarrow> 0 | Some address \<Rightarrow> address) None vm)
          else None)"

section \<open>Shared RELRO\<close>

text \<open>The local \<open>SharedRelro\<close> object closes its descriptor when it goes out of scope.\<close>

definition SharedRelro_scope_end :: "('w::len) word shared_relro \<Rightarrow> 'w word process \<Rightarrow> 'w word process" where
  "SharedRelro_scope_end r s = snd (AshmemRegion_Reset (sr_ashmem r) (- 1) s)"

definition CreateSharedRelro ::
  "arch \<Rightarrow> ('w::len) word kernel \<Rightarrow> 'w word \<Rightarrow> 'w word shared_library \<Rightarrow> 'w word process \<Rightarrow>
     ('w word relro_error + 'w word \<times> 'w word \<times> int) \<times> 'w word process" where
  "CreateSharedRelro arch k load_addr lib s =
     (case SharedRelro_Allocate k (relro_size lib) (base_name lib) SharedRelro_Init s of
        (Some e, relro, s) \<Rightarrow> (Inl e, SharedRelro_scope_end relro s)
      | (None, relro, s) \<Rightarrow>
          (case (if load_addr \<noteq> 0 \<and> load_addr \<noteq> lib_address lib
                 then SharedRelro_CopyFromRelocated arch k (sl_view lib) load_addr (relro_start lib) (relro_size lib) relro s
                 else SharedRelro_CopyFrom k (relro_start lib) (relro_size lib) relro s) of
             (Some e, relro, s) \<Rightarrow> (Inl e, SharedRelro_scope_end relro s)
           | (None, relro, s) \<Rightarrow>
               (case SharedRelro_ForceReadOnly k relro s of
                  (Some e, s) \<Rightarrow> (Inl e, SharedRelro_scope_end relro s)
                | (None, s) \<Rightarrow>
                    (case SharedRelro_DetachFd relro of (fd, relro') \<Rightarrow>
                       (Inr (sr_start relro, sr_size relro, fd), SharedRelro_scope_end relro' s)))))"

text \<open>The result, the error message if one is set, the library and the process.\<close>

definition UseSharedRelro ::
  "('w::len) word kernel \<Rightarrow> 'w word \<Rightarrow> 'w word \<Rightarrow> int \<Rightarrow> 'w word shared_library \<Rightarrow> 'w word process \<Rightarrow>
     bool \<times> 'w word library_error option \<times> 'w word shared_library \<times> 'w word process" where
  "UseSharedRelro k start len fd lib s =
     (if fd < 0 \<or> len = 0 then (True, None, lib, s)
      else if relro_used lib then (False, Some RelroInUse, lib, s)
      else if relro_start lib \<noteq> start \<or> relro_size lib \<noteq> len
      then (False, Some (RelroMismatch (relro_start lib) (relro_size lib) start len), lib, s)
      else case SharedRelro_InitFrom k start len fd SharedRelro_Init s of (ok, err, relro, s) \<Rightarrow>
        if \<not> ok then (False, map_option RelroError err, lib, SharedRelro_scope_end relro s)
        else (True, map_option RelroError err, lib\<lparr>relro_used := True\<rparr>, SharedRelro_scope_end relro s))"

section \<open>Calls into the library\<close>

text \<open>The calls made so far, and the memory. \<open>run\<close> is the code of the process.\<close>

type_synonym 'addr call_state = "'addr list \<times> 'addr vm"

definition CallFunction ::
  "('w word \<Rightarrow> 'w word vm \<Rightarrow> 'w word vm) \<Rightarrow> ('w::len) word \<Rightarrow> 'w word call_state \<Rightarrow> 'w word call_state" where
  "CallFunction run func = (\<lambda>(calls, vm).
     if func \<noteq> 0 \<and> func \<noteq> - 1 then (calls @ [func], run func vm) else (calls, vm))"

definition array_entry :: "('w::len) word vm \<Rightarrow> 'w word \<Rightarrow> nat \<Rightarrow> 'w word" where
  "array_entry vm base n = read_addr vm (base + word_of_nat (n * addr_size LENGTH('w)))"

definition call_entry ::
  "('w word \<Rightarrow> 'w word vm \<Rightarrow> 'w word vm) \<Rightarrow> 'w word \<Rightarrow> nat \<Rightarrow> ('w::len) word call_state \<Rightarrow> 'w word call_state" where
  "call_entry run base n s = CallFunction run (array_entry (snd s) base n) s"

definition CallConstructors ::
  "('w word \<Rightarrow> 'w word vm \<Rightarrow> 'w word vm) \<Rightarrow> ('w::len) word shared_library \<Rightarrow> 'w word call_state \<Rightarrow> 'w word call_state" where
  "CallConstructors run lib s =
     fold (call_entry run (init_array lib)) [0..<init_array_count lib] (CallFunction run (init_func lib) s)"

definition CallDestructors ::
  "('w word \<Rightarrow> 'w word vm \<Rightarrow> 'w word vm) \<Rightarrow> ('w::len) word shared_library \<Rightarrow> 'w word call_state \<Rightarrow> 'w word call_state" where
  "CallDestructors run lib s =
     CallFunction run (fini_func lib)
       (fold (\<lambda>n. call_entry run (fini_array lib) (n - 1)) (rev [1..<fini_array_count lib + 1]) s)"

text \<open>\<open>run_jni\<close> is a call of \<open>JNI_OnLoad\<close> or \<open>JNI_OnUnload\<close> with the virtual machine as its argument.\<close>

definition SetJavaVM ::
  "('w word \<Rightarrow> 'w word \<Rightarrow> 'w word vm \<Rightarrow> int \<times> 'w word vm) \<Rightarrow> ('w::len) word \<Rightarrow> int \<Rightarrow> 'w word shared_library \<Rightarrow>
   'w word vm \<Rightarrow> ('w word library_error option \<times> 'w word shared_library \<times> 'w word vm) option" where
  "SetJavaVM run_jni vm_handle minimum_jni_version lib vm =
     (if vm_handle = 0 then Some (None, lib, vm)
      else do {
        jni_onload \<leftarrow> FindAddressForSymbol vm lib (bytes_of ''JNI_OnLoad'');
        if jni_onload = 0 then Some (None, lib, vm)
        else
          (case run_jni jni_onload vm_handle vm of (jni_version, vm) \<Rightarrow>
             if jni_version < minimum_jni_version
             then Some (Some (JniVersionTooOld (full_path lib) jni_version minimum_jni_version), lib, vm)
             else Some (None, lib\<lparr>java_vm := vm_handle\<rparr>, vm))
      })"

definition CallJniOnUnload ::
  "('w word \<Rightarrow> 'w word \<Rightarrow> 'w word vm \<Rightarrow> int \<times> 'w word vm) \<Rightarrow> ('w::len) word shared_library \<Rightarrow> 'w word vm \<Rightarrow>
     'w word vm option" where
  "CallJniOnUnload run_jni lib vm =
     (if java_vm lib = 0 then Some vm
      else do {
        jni_on_unload \<leftarrow> FindAddressForSymbol vm lib (bytes_of ''JNI_OnUnload'');
        Some (if jni_on_unload \<noteq> 0 then snd (run_jni jni_on_unload (java_vm lib) vm) else vm)
      })"

section \<open>Dependencies\<close>

text \<open>\<open>DependencyIterator::GetNext\<close>: the name of the next entry \<open>DT_NEEDED\<close>, if there is one, and the
  entries of the dynamic table that are left.\<close>

fun Dependency_GetNext ::
  "('w::len) word vm \<Rightarrow> 'w word elf_symbols \<Rightarrow> 'w word dyn_iter list \<Rightarrow> ('w word \<times> 'w word dyn_iter list) option" where
  "Dependency_GetNext vm symbols [] = None"
| "Dependency_GetNext vm symbols (it # its) =
     (if unat (dyn_GetTag vm it) = DT_NEEDED then Some (GetStringById symbols (unat (dyn_GetValue vm it)), its)
      else Dependency_GetNext vm symbols its)"

definition DependencyIterator_Init :: "('w::len) word shared_library \<Rightarrow> 'w word dyn_iter list" where
  "DependencyIterator_Init lib = dynamic_entries (sl_view lib)"

section \<open>Lemmas on calls\<close>

definition callable :: "('w::len) word \<Rightarrow> bool" where
  "callable f \<longleftrightarrow> f \<noteq> 0 \<and> f \<noteq> - 1"

text \<open>The functions called leave an array of function pointers alone.\<close>

definition keeps_array :: "('w word \<Rightarrow> 'w word vm \<Rightarrow> 'w word vm) \<Rightarrow> ('w::len) word \<Rightarrow> nat \<Rightarrow> bool" where
  "keeps_array run base count \<longleftrightarrow> (\<forall>f vm. \<forall>n < count. array_entry (run f vm) base n = array_entry vm base n)"

lemma CallFunction_calls: "fst (CallFunction run f s) = fst s @ filter callable [f]"
  by (cases s) (simp add: CallFunction_def callable_def)

lemma CallFunction_keeps:
  "keeps_array run base count \<Longrightarrow> n < count \<Longrightarrow> array_entry (snd (CallFunction run f s)) base n = array_entry (snd s) base n"
  by (cases s) (simp add: CallFunction_def keeps_array_def)

lemma call_entries:
  assumes "keeps_array run base count" "\<forall>n \<in> set ns. n < count"
  shows "fst (fold (call_entry run base) ns s) = fst s @ filter callable (map (array_entry (snd s) base) ns) \<and>
     (\<forall>n < count. array_entry (snd (fold (call_entry run base) ns s)) base n = array_entry (snd s) base n)"
  using assms(2)
proof (induction ns arbitrary: s)
  case (Cons n ns)
  let ?s = "call_entry run base n s"
  have keep: "array_entry (snd ?s) base m = array_entry (snd s) base m" if "m < count" for m
    using CallFunction_keeps [OF assms(1) that] by (simp add: call_entry_def)
  then have same: "map (array_entry (snd ?s) base) ns = map (array_entry (snd s) base) ns" using Cons.prems by simp
  have first: "fst ?s = fst s @ filter callable [array_entry (snd s) base n]"
    by (simp add: call_entry_def CallFunction_calls)
  from Cons.IH [of ?s] Cons.prems keep show ?case by (simp add: same first)
qed simp

lemma fold_map: "fold (\<lambda>x. f (g x)) xs = fold f (map g xs)"
  by (simp add: fold_map o_def)

section \<open>Lemmas on the resolver\<close>

definition defines_at :: "('w::len) word vm \<Rightarrow> 'w word shared_library \<Rightarrow> byte list \<Rightarrow> 'w word \<Rightarrow> bool" where
  "defines_at vm lib name a \<longleftrightarrow>
     (\<exists>n \<in> exported vm (sl_symbols lib) name. a = lib_bias lib + st_value (sym_at vm (sl_symbols lib) n))"

definition provides ::
  "arch \<Rightarrow> ('w::len) word resolver_env \<Rightarrow> 'w word vm \<Rightarrow> byte list \<Rightarrow> 'w word library_view \<Rightarrow> bool" where
  "provides arch env vm name wrap \<longleftrightarrow>
     (if IsSystem wrap then system_lookup arch env wrap name \<noteq> 0
      else IsCrazy wrap \<and> (\<exists>a. defines_at vm (re_libs env (lv_crazy wrap)) name a))"

definition provided ::
  "arch \<Rightarrow> ('w::len) word resolver_env \<Rightarrow> 'w word vm \<Rightarrow> byte list \<Rightarrow> 'w word library_view \<Rightarrow> 'w word \<Rightarrow> bool" where
  "provided arch env vm name wrap a \<longleftrightarrow>
     (if IsSystem wrap then a = system_lookup arch env wrap name
      else defines_at vm (re_libs env (lv_crazy wrap)) name a)"

text \<open>The hash tables of the crazy libraries among some views are complete for a name.\<close>

definition tables_ok ::
  "('w::len) word resolver_env \<Rightarrow> 'w word vm \<Rightarrow> byte list \<Rightarrow> 'w word library_view list \<Rightarrow> bool" where
  "tables_ok env vm name wraps \<longleftrightarrow>
     (\<forall>wrap \<in> set wraps. IsCrazy wrap \<longrightarrow> hash_table_ok vm (sl_symbols (re_libs env (lv_crazy wrap))) name)"

lemma defines_at_ex: "(\<exists>a. defines_at vm lib name a) \<longleftrightarrow> exported vm (sl_symbols lib) name \<noteq> {}"
  by (auto simp: defines_at_def)

lemma LookupSymbolEntry_defines:
  assumes "hash_table_ok vm (sl_symbols lib) name"
  obtains (undefined) "LookupSymbolEntry vm lib name = Some None" "\<nexists>a. defines_at vm lib name a"
  | (defined) sy where "LookupSymbolEntry vm lib name = Some (Some sy)" "defines_at vm lib name (lib_bias lib + st_value sy)"
proof -
  obtain r where r: "LookupByName vm (sl_symbols lib) name = Some r"
    "case r of None \<Rightarrow> exported vm (sl_symbols lib) name = {} | Some n \<Rightarrow> n \<in> exported vm (sl_symbols lib) name"
    using LookupByName_exported [OF assms] by auto
  then show ?thesis
    using undefined defined by (cases r) (auto simp: LookupSymbolEntry_def defines_at_def)
qed

lemma system_not_crazy: "IsSystem wrap \<Longrightarrow> \<not> IsCrazy wrap"
  by (simp add: IsSystem_def IsCrazy_def)

lemma resolver_dependencies_first:
  assumes "tables_ok env vm name wraps"
  shows "\<exists>a. resolver_dependencies arch env vm name wraps = Some a \<and>
     (case find (provides arch env vm name) wraps of None \<Rightarrow> a = 0 | Some wrap \<Rightarrow> provided arch env vm name wrap a)"
  using assms
proof (induction wraps)
  case (Cons wrap wraps)
  let ?dep = "re_libs env (lv_crazy wrap)"
  have IH: "\<exists>a. resolver_dependencies arch env vm name wraps = Some a \<and>
     (case find (provides arch env vm name) wraps of None \<Rightarrow> a = 0 | Some wrap \<Rightarrow> provided arch env vm name wrap a)"
    using Cons by (simp add: tables_ok_def)
  consider (sys) "IsSystem wrap" | (crazy) "IsCrazy wrap" "\<not> IsSystem wrap" | (none) "\<not> IsCrazy wrap" "\<not> IsSystem wrap"
    by blast
  then show ?case
  proof cases
    case sys
    with IH system_not_crazy [OF sys] show ?thesis
      by (simp add: provides_def [of _ _ _ _ wrap] provided_def [of _ _ _ _ wrap] Let_def)
  next
    case crazy
    then have "hash_table_ok vm (sl_symbols ?dep) name" using Cons.prems by (simp add: tables_ok_def)
    then show ?thesis
    proof (cases rule: LookupSymbolEntry_defines)
      case undefined
      then have "\<not> provides arch env vm name wrap" using crazy by (auto simp: provides_def)
      with crazy IH undefined show ?thesis by (simp add: GetCrazy_def)
    next
      case (defined sy)
      with crazy show ?thesis
        by (auto simp: provides_def [of _ _ _ _ wrap] provided_def [of _ _ _ _ wrap] GetCrazy_def)
    qed
  next
    case none
    with IH show ?thesis by (simp add: provides_def [of _ _ _ _ wrap])
  qed
qed simp

section \<open>Lemmas on descriptors\<close>

lemma proc_mmap_open [simp]: "pr_open (snd (proc_mmap k addr len prot fd offset s)) = pr_open s"
  by (simp add: proc_mmap_def split: sum.splits)

lemma proc_munmap_open [simp]: "pr_open (snd (proc_munmap k addr len s)) = pr_open s"
  by (simp add: proc_munmap_def Let_def split: option.splits)

lemma Allocate_open: "MemoryMapping_Allocate k addr len prot fd s = (ok, mp, s') \<Longrightarrow> pr_open s' = pr_open s"
  using proc_mmap_open [of k addr len prot fd 0 s]
  by (cases "proc_mmap k addr len prot fd 0 s") (auto simp: MemoryMapping_Allocate_def split: option.splits)

lemma Deallocate_open [simp]: "pr_open (snd (MemoryMapping_Deallocate k mp s)) = pr_open s"
  by (simp add: MemoryMapping_Deallocate_def)

lemma CopyFrom_open:
  assumes "SharedRelro_CopyFrom k start len r s = (e, r', s')"
  shows "pr_open s' = pr_open s \<and> sr_ashmem r' = sr_ashmem r"
proof -
  obtain ok mp s1 where al: "MemoryMapping_Allocate k 0 len PROT_WRITE (sr_ashmem r) s = (ok, mp, s1)" by (metis prod_cases3)
  let ?s = "s1\<lparr>pr_vm := vm_memcpy (mm_map mp) start len (pr_vm s1)\<rparr>"
  have "SharedRelro_CopyFrom k start len r s =
      (if \<not> ok then (Some CouldNotAllocateMapping, r, s1)
       else (None, r\<lparr>sr_start := start, sr_size := len\<rparr>, snd (MemoryMapping_Deallocate k mp ?s)))"
    by (simp add: SharedRelro_CopyFrom_def al Let_def case_prod_beta)
  with assms Allocate_open [OF al] Deallocate_open [of k mp ?s] show ?thesis by (cases ok) auto
qed

lemma CopyFromRelocated_open:
  assumes "SharedRelro_CopyFromRelocated arch k view load_addr start len r s = (e, r', s')"
  shows "pr_open s' = pr_open s \<and> sr_ashmem r' = sr_ashmem r"
proof (cases "ElfRelocations_Init arch (pr_vm s) view ElfRelocations_zero")
  case (Inl e)
  with assms show ?thesis by (simp add: SharedRelro_CopyFromRelocated_def Let_def)
next
  case (Inr relocs)
  obtain ok mp s1 where al: "MemoryMapping_Allocate k 0 len (PROT_READ OR PROT_WRITE) (sr_ashmem r) s = (ok, mp, s1)"
    by (metis prod_cases3)
  let ?s = "s1\<lparr>pr_vm := CopyAndRelocate arch relocs start (mm_map mp) (load_addr + (start - ev_load_address view)) len (pr_vm s1)\<rparr>"
  have "SharedRelro_CopyFromRelocated arch k view load_addr start len r s =
      (if \<not> ok then (Some CouldNotAllocateMapping, r, s1)
       else (None, r\<lparr>sr_start := load_addr + (start - ev_load_address view), sr_size := len\<rparr>,
             snd (MemoryMapping_Deallocate k mp ?s)))"
    by (simp add: SharedRelro_CopyFromRelocated_def Inr al Let_def case_prod_beta)
  with assms Allocate_open [OF al] Deallocate_open [of k mp ?s] show ?thesis by (cases ok) auto
qed

lemma ForceReadOnly_open:
  "SharedRelro_ForceReadOnly k r s = (e, s') \<Longrightarrow> pr_open s' = pr_open s"
  by (auto simp: SharedRelro_ForceReadOnly_def AshmemRegion_SetProtectionFlags_def split: option.splits)

lemma scope_end_open:
  "pr_open (SharedRelro_scope_end r s) = (if sr_ashmem r = - 1 then pr_open s else pr_open s - {sr_ashmem r})"
  by (simp add: SharedRelro_scope_end_def AshmemRegion_Reset_def proc_close_def)

lemma Allocate_relro_open:
  assumes fresh: "\<And>fd. k_open_ashmem k = Inr fd \<Longrightarrow> fd \<noteq> - 1 \<and> fd \<notin> pr_open s"
    and run: "SharedRelro_Allocate k len name SharedRelro_Init s = (e, r, s')"
  shows "case e of Some _ \<Rightarrow> sr_ashmem r = - 1 \<and> pr_open s' = pr_open s
    | None \<Rightarrow> sr_ashmem r \<noteq> - 1 \<and> sr_ashmem r \<notin> pr_open s \<and> pr_open s' = insert (sr_ashmem r) (pr_open s)"
  using run fresh
  by (auto simp: SharedRelro_Allocate_def AshmemRegion_Allocate_def SharedRelro_Init_def AshmemRegion_Reset_def
      proc_close_def Let_def split: sum.splits option.splits if_splits)

section \<open>Example libraries\<close>

text \<open>A library with three functions and a marker in its arrays.\<close>

definition calls_image :: "32 word vm" where
  "calls_image = \<lparr>vm_byte = (\<lambda>x. if x = 0x1000 then 7 else if x = 0x1008 then 9
     else if 0x100c \<le> x \<and> x < 0x1010 then 0xff else 0), vm_prot = (\<lambda>_. None)\<rparr>"

definition calls_library :: "32 word shared_library" where
  "calls_library = SharedLibrary_Init\<lparr>init_func := 5, fini_func := 6, init_array := 0x1000, init_array_count := 4,
     fini_array := 0x1000, fini_array_count := 4\<rparr>"

text \<open>A library that exports nothing, and a dependency with the symbol table of \<open>Elf_Symbols\<close>.\<close>

definition names_library :: "32 word shared_library" where
  "names_library = SharedLibrary_Init\<lparr>sl_symbols := sym_tables\<lparr>hash_bucket := 64, hash_chain_size := 1\<rparr>\<rparr>"

definition names_env :: "32 word resolver_env" where
  "names_env = \<lparr>re_dlsym = (\<lambda>_ _. 0), re_wrapper = (\<lambda>_. 0x4000), re_libs =
     (\<lambda>_. SharedLibrary_Init\<lparr>sl_symbols := sym_tables, sl_view := ElfView_Init\<lparr>ev_load_bias := 0x1000\<rparr>\<rparr>)\<rparr>"

lemma names_table_ok: "hash_table_ok sym_image (sl_symbols names_library) [102]"
proof -
  have "word_at sym_image 64 0 = 0" by (simp add: image_eval upt_rec)
  moreover have "hash_bucket (sl_symbols names_library) = 64" "bucket_of (sl_symbols names_library) [102] = 0"
    "hash_bucket_size (sl_symbols names_library) = 1" "hash_chain_size (sl_symbols names_library) = 1"
    by (simp_all add: names_library_def bucket_of_def sym_tables_def)
  ultimately show ?thesis by (auto simp: hash_table_ok_def intro!: exI [of _ "[]"] chain_end)
qed

section \<open>Properties\<close>

text \<open>C19: Loading a library calls \<open>DT_INIT\<close> and then the functions of \<open>DT_INIT_ARRAY\<close> in the order of the
  array; unloading calls those of \<open>DT_FINI_ARRAY\<close> from the last to the first and \<open>DT_FINI\<close> at the end.
  The markers 0 and -1 are skipped, and nothing else is called.\<close>

theorem constructors_and_destructors_order:
  assumes "keeps_array run (init_array lib) (init_array_count lib)"
    and "keeps_array run (fini_array lib) (fini_array_count lib)"
  shows "fst (CallConstructors run lib ([], vm)) =
       filter callable (init_func lib # map (array_entry vm (init_array lib)) [0..<init_array_count lib]) \<and>
     fst (CallDestructors run lib ([], vm)) =
       filter callable (rev (map (array_entry vm (fini_array lib)) [0..<fini_array_count lib]) @ [fini_func lib])"
proof -
  have "map (\<lambda>n. n - 1) (rev [1..<fini_array_count lib + 1]) = rev [0..<fini_array_count lib]"
    by (simp add: rev_map [symmetric] map_Suc_upt [symmetric] o_def del: upt_Suc)
  then have d: "fold (\<lambda>n. call_entry run (fini_array lib) (n - 1)) (rev [1..<fini_array_count lib + 1]) s =
      fold (call_entry run (fini_array lib)) (rev [0..<fini_array_count lib]) s" for s
    by (simp only: fold_map [where g = "\<lambda>n. n - 1"])
  have same: "map (array_entry (snd (CallFunction run (init_func lib) ([], vm))) (init_array lib)) [0..<init_array_count lib] =
      map (array_entry vm (init_array lib)) [0..<init_array_count lib]"
    using CallFunction_keeps [OF assms(1)] by simp
  show ?thesis
    using call_entries [OF assms(1), of "[0..<init_array_count lib]" "CallFunction run (init_func lib) ([], vm)"]
      call_entries [OF assms(2), of "rev [0..<fini_array_count lib]" "([], vm)"]
    unfolding CallConstructors_def CallDestructors_def d by (simp add: CallFunction_calls rev_map same)
qed

theorem constructors_and_destructors_order_witness:
  "fst (CallConstructors (\<lambda>_ vm. vm) calls_library ([], calls_image)) = [5, 7, 9] \<and>
   fst (CallDestructors (\<lambda>_ vm. vm) calls_library ([], calls_image)) = [9, 7, 6]"
proof -
  have "map (array_entry calls_image 0x1000) [0..<4] = [7, 0, 9, - 1]"
    by (simp add: array_entry_def read_addr_def le_at_def mem_from_def calls_image_def addr_size_def upt_rec)
  moreover have "keeps_array (\<lambda>_ vm. vm) base count" for base :: "32 word" and count
    by (simp add: keeps_array_def)
  ultimately show ?thesis
    using constructors_and_destructors_order [of "\<lambda>_ vm. vm" calls_library calls_image]
    by (simp add: calls_library_def callable_def SharedLibrary_Init_def)
qed

text \<open>C17: The resolver always answers when the hash tables are complete, and it binds a symbol to the
  definition of the library itself, if it has one, then to a wrapped function of the dynamic linker,
  and then to the first of the dependencies, in their order, that provides it; the answer is null only
  when none of them does.\<close>

theorem Resolver_binds_first:
  assumes "hash_table_ok vm (sl_symbols lib) name" "tables_ok env vm name dependencies"
  shows "\<exists>a. Resolver_Lookup arch env lib dependencies vm name = Some a \<and>
     (if \<exists>a. defines_at vm lib name a then defines_at vm lib name a
      else if WrapLinkerSymbol arch (re_wrapper env) name \<noteq> 0 then a = WrapLinkerSymbol arch (re_wrapper env) name
      else case find (provides arch env vm name) dependencies of
             None \<Rightarrow> a = 0 | Some wrap \<Rightarrow> provided arch env vm name wrap a)"
  using assms(1)
proof (cases rule: LookupSymbolEntry_defines)
  case undefined
  then show ?thesis
    using resolver_dependencies_first [OF assms(2), of arch] by (simp add: Resolver_Lookup_def Let_def)
next
  case (defined sy)
  then show ?thesis by (auto simp: Resolver_Lookup_def)
qed

theorem Resolver_binds_first_witness:
  "Resolver_Lookup ARM names_env names_library
     [SetSystem 1 ''libc.so'' LibraryView_Init, SetCrazy 0x2000 ''libf.so'' LibraryView_Init] sym_image [102] = Some 0x1100"
proof -
  let ?deps = "[SetSystem 1 ''libc.so'' LibraryView_Init, SetCrazy 0x2000 ''libf.so'' LibraryView_Init]"
  have only: "n = Suc 0" if "n \<in> exported sym_image sym_tables [102]" for n
    using that by (simp add: exported_def image_size)
  have none: "\<not> defines_at sym_image names_library [102] a" for a
    by (simp add: defines_at_def exported_def names_library_def)
  have sys: "\<not> provides ARM names_env sym_image [102] (?deps ! 0)"
    by (simp add: provides_def SetSystem_def IsSystem_def system_lookup_def names_env_def bytes_of_def)
  have wrap: "WrapLinkerSymbol ARM (re_wrapper names_env) [102] = 0"
    by (simp add: WrapLinkerSymbol_def bytes_of_def)
  have "tables_ok names_env sym_image [102] ?deps"
    using image_table_ok by (simp add: tables_ok_def SetSystem_def SetCrazy_def IsCrazy_def names_env_def)
  moreover have "provides ARM names_env sym_image [102] (?deps ! 1)"
  proof -
    have "Suc 0 \<in> exported sym_image sym_tables [102]"
      using image_name by (simp add: exported_def image_sym SHN_UNDEF_def ELF_ST_BIND_def STB_GLOBAL_def image_size)
    then show ?thesis
      by (auto simp: provides_def defines_at_ex SetCrazy_def IsSystem_def IsCrazy_def names_env_def)
  qed
  ultimately obtain a where a: "Resolver_Lookup ARM names_env names_library ?deps sym_image [102] = Some a"
    "provided ARM names_env sym_image [102] (?deps ! 1) a"
    using Resolver_binds_first [OF names_table_ok, of names_env ?deps ARM] none sys wrap by auto
  then obtain n where n: "n \<in> exported sym_image sym_tables [102]" "a = 0x1000 + st_value (sym_at sym_image sym_tables n)"
    by (auto simp: provided_def defines_at_def SetCrazy_def IsSystem_def names_env_def)
  have "a = 0x1100" unfolding n(2) only [OF n(1)] by (simp add: image_sym)
  with a(1) show ?thesis by simp
qed

text \<open>C20: Creating a shared copy of the RELRO section hands out exactly one open descriptor on success and
  leaves none open on any of the ways to fail.\<close>

theorem CreateSharedRelro_descriptors:
  assumes "\<forall>fd. k_open_ashmem k = Inr fd \<longrightarrow> fd \<noteq> - 1 \<and> fd \<notin> pr_open s"
  shows "case CreateSharedRelro arch k load_addr lib s of
      (Inl e, s') \<Rightarrow> pr_open s' = pr_open s
    | (Inr (start, len, fd), s') \<Rightarrow> fd \<notin> pr_open s \<and> pr_open s' = insert fd (pr_open s) \<and> len = relro_size lib"
proof -
  obtain e0 r0 s0 where al: "SharedRelro_Allocate k (relro_size lib) (base_name lib) SharedRelro_Init s = (e0, r0, s0)"
    by (metis prod_cases3)
  note al_open = Allocate_relro_open [OF _ al]
  let ?copy = "if load_addr \<noteq> 0 \<and> load_addr \<noteq> lib_address lib
     then SharedRelro_CopyFromRelocated arch k (sl_view lib) load_addr (relro_start lib) (relro_size lib) r0 s0
     else SharedRelro_CopyFrom k (relro_start lib) (relro_size lib) r0 s0"
  obtain e1 r1 s1 where cp: "?copy = (e1, r1, s1)" by (metis prod_cases3)
  have cp_open: "pr_open s1 = pr_open s0 \<and> sr_ashmem r1 = sr_ashmem r0"
    using cp CopyFrom_open CopyFromRelocated_open by (metis (no_types, lifting))
  have size: "e1 = None \<Longrightarrow> sr_size r1 = relro_size lib"
    using cp by (auto simp: SharedRelro_CopyFromRelocated_def SharedRelro_CopyFrom_def Let_def
        split: if_splits prod.splits sum.splits)
  obtain e2 s2 where fr: "SharedRelro_ForceReadOnly k r1 s1 = (e2, s2)" by (metis surj_pair)
  have "pr_open s2 = pr_open s1" using ForceReadOnly_open [OF fr] .
  then show ?thesis
    using al_open assms cp_open size
    by (auto simp: CreateSharedRelro_def al cp fr scope_end_open SharedRelro_DetachFd_def split: option.splits)
qed

theorem CreateSharedRelro_descriptors_witness:
  "\<exists>start len fd s'. CreateSharedRelro ARM (open_kernel\<lparr>k_open_ashmem := Inr 3\<rparr>) 0
       (SharedLibrary_Init\<lparr>relro_start := 0x10000, relro_size := 4096\<rparr>) page_process = (Inr (start, len, fd), s') \<and>
     3 \<in> pr_open s'"
proof -
  let ?k = "open_kernel\<lparr>k_open_ashmem := Inr 3\<rparr>"
  let ?run = "CreateSharedRelro ARM ?k 0 (SharedLibrary_Init\<lparr>relro_start := 0x10000, relro_size := 4096\<rparr>) page_process"
  have "\<exists>start len s'. ?run = (Inr (start, len, 3), s')"
    by (simp add: CreateSharedRelro_def SharedRelro_Allocate_def AshmemRegion_Allocate_def AshmemRegion_Reset_def
        SharedRelro_CopyFrom_def MemoryMapping_Allocate_def proc_mmap_def SharedRelro_ForceReadOnly_def
        AshmemRegion_SetProtectionFlags_def SharedRelro_DetachFd_def SharedRelro_Init_def open_kernel_def
        SharedLibrary_Init_def MemoryMapping_Deallocate_def Let_def)
  then obtain start len s' where run: "?run = (Inr (start, len, 3), s')" by blast
  have "case ?run of (Inl e, s') \<Rightarrow> pr_open s' = pr_open page_process
    | (Inr (start, len, fd), s') \<Rightarrow> fd \<notin> pr_open page_process \<and> pr_open s' = insert fd (pr_open page_process) \<and>
        len = relro_size (SharedLibrary_Init\<lparr>relro_start := 0x10000, relro_size := 4096 :: 32 word\<rparr>)"
    by (rule CreateSharedRelro_descriptors) (simp add: page_process_def)
  with run show ?thesis by auto
qed



end
