(* ===== verification/Breadth_First.thy ===== *)
theory Breadth_First
  imports Main
begin

text \<open>
  Breadth-first search with a work queue and a visited set, the way \<open>LibraryList::FindSymbolFrom\<close>
  walks the dependencies of a library: the node the search starts from is put on the queue without
  being marked as visited. The order in which the nodes leave the queue is the reference for the
  search of a symbol; it is complete, and a node comes after every node that is nearer to the start.
\<close>

text \<open>The successors that are not visited yet, each of them once.\<close>

fun fresh :: "'a set \<Rightarrow> 'a list \<Rightarrow> 'a list" where
  "fresh V [] = []"
| "fresh V (y # ys) = (if y \<in> V then fresh V ys else y # fresh (insert y V) ys)"

lemma set_fresh: "set (fresh V ys) = set ys - V"
  by (induction V ys rule: fresh.induct) auto

lemma distinct_fresh: "distinct (fresh V ys)"
  by (induction V ys rule: fresh.induct) (auto simp: set_fresh)

lemma fresh_remove: "filter (\<lambda>y. y \<noteq> s) (fresh V ys) = fresh (insert s V) ys"
  by (induction V ys rule: fresh.induct) (auto simp: insert_commute)

lemma fresh_Nil: "set ys \<subseteq> V \<Longrightarrow> fresh V ys = []"
  by (induction V ys rule: fresh.induct) auto

lemma fresh_card:
  assumes "finite N" "set ys \<subseteq> N"
  shows "card (N - (V \<union> set (fresh V ys))) + length (fresh V ys) = card (N - V)"
proof -
  have sub: "set (fresh V ys) \<subseteq> N - V" using assms(2) by (auto simp: set_fresh)
  have "N - (V \<union> set (fresh V ys)) = (N - V) - set (fresh V ys)" by auto
  with sub assms(1) have "card (N - (V \<union> set (fresh V ys))) = card (N - V) - card (set (fresh V ys))"
    by (simp add: card_Diff_subset)
  moreover have "card (set (fresh V ys)) \<le> card (N - V)" using sub assms(1) by (intro card_mono) auto
  ultimately show ?thesis by (simp add: distinct_card [OF distinct_fresh])
qed

function bfs_order :: "'a list \<Rightarrow> ('a \<Rightarrow> 'a list) \<Rightarrow> 'a list \<Rightarrow> 'a set \<Rightarrow> 'a list" where
  "bfs_order nodes succs [] V = []"
| "bfs_order nodes succs (x # queue) V =
     (let new = fresh V (filter (\<lambda>y. y \<in> set nodes) (succs x))
      in x # bfs_order nodes succs (queue @ new) (V \<union> set new))"
  by pat_completeness auto
termination
proof (relation "measure (\<lambda>(nodes, succs, queue, V). 2 * card (set nodes - V) + length queue)")
  fix nodes queue new :: "'a list" and succs and x :: 'a and V
  assume new: "new = fresh V (filter (\<lambda>y. y \<in> set nodes) (succs x))"
  have "card (set nodes - (V \<union> set new)) + length new = card (set nodes - V)"
    unfolding new by (rule fresh_card) auto
  then show "((nodes, succs, queue @ new, V \<union> set new), (nodes, succs, x # queue, V))
      \<in> measure (\<lambda>(nodes, succs, queue, V). 2 * card (set nodes - V) + length queue)" by simp
qed simp

declare bfs_order.simps(2) [simp del]

text \<open>Reachability in a graph given by the successors of its nodes, and the length of a shortest path.\<close>

definition succ_edges :: "('a \<Rightarrow> 'a list) \<Rightarrow> ('a \<times> 'a) set" where
  "succ_edges succs = {(x, y). y \<in> set (succs x)}"

definition reach_from :: "('a \<Rightarrow> 'a list) \<Rightarrow> 'a \<Rightarrow> 'a set" where
  "reach_from succs start = {x. (start, x) \<in> (succ_edges succs)\<^sup>*}"

definition dist_from :: "('a \<Rightarrow> 'a list) \<Rightarrow> 'a \<Rightarrow> 'a \<Rightarrow> nat" where
  "dist_from succs start x = (LEAST n. (start, x) \<in> succ_edges succs ^^ n)"

section \<open>The interface\<close>

locale search_graph =
  fixes nodes :: "'a list" and succs :: "'a \<Rightarrow> 'a list" and start :: 'a
  assumes succs_nodes: "set (succs x) \<subseteq> set nodes"
begin

abbreviation edges :: "('a \<times> 'a) set" where
  "edges \<equiv> succ_edges succs"

abbreviation reach :: "'a set" where
  "reach \<equiv> reach_from succs start"

abbreviation dist :: "'a \<Rightarrow> nat" where
  "dist \<equiv> dist_from succs start"

lemma order_step:
  "bfs_order nodes succs (x # queue) V =
     x # bfs_order nodes succs (queue @ fresh V (succs x)) (V \<union> set (fresh V (succs x)))"
proof -
  have "filter (\<lambda>y. y \<in> set nodes) (succs x) = succs x" using succs_nodes [of x] by (auto simp: filter_id_conv)
  then show ?thesis by (simp add: bfs_order.simps(2) Let_def)
qed

lemma start_reach [simp]: "start \<in> reach"
  by (simp add: reach_from_def)

lemma reach_step: "x \<in> reach \<Longrightarrow> y \<in> set (succs x) \<Longrightarrow> y \<in> reach"
  by (auto simp: reach_from_def succ_edges_def intro: rtrancl_into_rtrancl)

lemma dist_path:
  assumes "x \<in> reach"
  shows "(start, x) \<in> edges ^^ dist x"
proof -
  obtain n where "(start, x) \<in> edges ^^ n" using assms by (auto simp: reach_from_def dest: rtrancl_imp_relpow)
  then show ?thesis unfolding dist_from_def by (rule LeastI)
qed

lemma dist_le: "(start, x) \<in> edges ^^ n \<Longrightarrow> dist x \<le> n"
  unfolding dist_from_def by (rule Least_le)

lemma dist_start [simp]: "dist start = 0"
  using dist_le [of start 0] by simp

lemma dist_succ:
  assumes "x \<in> reach" "y \<in> set (succs x)"
  shows "dist y \<le> dist x + 1"
proof -
  have "(start, y) \<in> edges ^^ Suc (dist x)"
    using dist_path [OF assms(1)] assms(2) by (auto simp: succ_edges_def)
  then show ?thesis using dist_le [of y "Suc (dist x)"] by simp
qed

lemma dist_pred:
  assumes "z \<in> reach" "dist z = Suc n"
  obtains p where "p \<in> reach" "dist p \<le> n" "z \<in> set (succs p)"
proof -
  have "(start, z) \<in> edges ^^ Suc n" using dist_path [OF assms(1)] assms(2) by simp
  then obtain p where p: "(start, p) \<in> edges ^^ n" "(p, z) \<in> edges" by auto
  have "p \<in> reach" using p(1) by (auto simp: reach_from_def dest: relpow_imp_rtrancl)
  then show ?thesis using that p dist_le [OF p(1)] by (auto simp: succ_edges_def)
qed

lemma dist_0: "z \<in> reach \<Longrightarrow> dist z = 0 \<Longrightarrow> z = start"
  using dist_path [of z] by simp

text \<open>The nodes that have been found but are not on the queue have been expanded.\<close>

definition searched :: "'a list \<Rightarrow> 'a set \<Rightarrow> bool" where
  "searched queue V \<longleftrightarrow> start \<in> V \<and> set queue \<subseteq> V \<and> V \<subseteq> reach \<and> distinct queue \<and>
     (\<forall>x \<in> V - set queue. set (succs x) \<subseteq> V)"

lemma near_found:
  assumes "searched queue V" "\<And>q. q \<in> set queue \<Longrightarrow> d \<le> dist q" "z \<in> reach" "dist z \<le> d"
  shows "z \<in> V"
  using assms(3,4)
proof (induction "dist z" arbitrary: z)
  case 0
  then show ?case using assms(1) dist_0 [of z] by (simp add: searched_def)
next
  case (Suc n)
  obtain p where p: "p \<in> reach" "dist p \<le> n" "z \<in> set (succs p)" using dist_pred [of z n] Suc by metis
  have "dist z \<le> dist p + 1" using dist_succ [OF p(1,3)] .
  then have "dist p = n" using p(2) Suc.hyps(2) by simp
  then have "p \<in> V" using Suc p(1) by simp
  moreover have "p \<notin> set queue" using assms(2) [of p] \<open>dist p = n\<close> Suc by auto
  ultimately show ?case using assms(1) p(3) by (auto simp: searched_def)
qed

text \<open>A queue whose nodes are at distance \<open>d\<close> or \<open>d + 1\<close>, in that order.\<close>

definition layered :: "nat \<Rightarrow> 'a list \<Rightarrow> bool" where
  "layered d queue \<longleftrightarrow> sorted_wrt (\<lambda>x y. dist x \<le> dist y) queue \<and> (\<forall>x \<in> set queue. d \<le> dist x \<and> dist x \<le> d + 1)"

lemma one_layer: "(\<And>x. x \<in> set xs \<Longrightarrow> dist x = c) \<Longrightarrow> sorted_wrt (\<lambda>x y. dist x \<le> dist y) xs"
  by (induction xs) auto

lemma order_correct:
  assumes "searched queue V" "layered d queue"
  shows "set (bfs_order nodes succs queue V) = set queue \<union> (reach - V) \<and>
     sorted_wrt (\<lambda>x y. dist x \<le> dist y) (bfs_order nodes succs queue V)"
  using assms
proof (induction "2 * card (set nodes - V) + length queue" arbitrary: queue V d rule: less_induct)
  case less
  show ?case
  proof (cases queue)
    case Nil
    have "reach \<subseteq> V" using near_found [OF less.prems(1)] Nil by auto
    with Nil show ?thesis by auto
  next
    case (Cons x rest)
    define new where "new = fresh V (succs x)"
    note srch = less.prems(1) and lay = less.prems(2)
    have x: "x \<in> reach" "x \<in> V" "x \<notin> set rest" using srch Cons by (auto simp: searched_def)
    have low: "dist x \<le> dist q" if "q \<in> set queue" for q using lay that Cons by (auto simp: layered_def)
    have near: "z \<in> V" if "z \<in> reach" "dist z \<le> dist x" for z
      using near_found [OF srch low that] .
    have newD: "y \<in> reach \<and> y \<notin> V \<and> dist y = dist x + 1" if "y \<in> set new" for y
    proof -
      have y: "y \<in> set (succs x)" "y \<notin> V" using that by (auto simp: new_def set_fresh)
      then have "y \<in> reach" using reach_step [OF x(1)] by simp
      moreover have "dist y \<le> dist x + 1" "\<not> dist y \<le> dist x"
        using dist_succ [OF x(1) y(1)] near [OF \<open>y \<in> reach\<close>] y(2) by auto
      ultimately show ?thesis using y(2) by simp
    qed
    have rest: "dist x \<le> dist q \<and> dist q \<le> dist x + 1" if "q \<in> set rest" for q
      using lay low that Cons by (fastforce simp: layered_def)
    have "searched (rest @ new) (V \<union> set new)"
      using srch Cons newD distinct_fresh [of V "succs x"] set_fresh [of V "succs x"]
      unfolding searched_def new_def [symmetric] by auto
    moreover have "layered (dist x) (rest @ new)"
      using lay rest newD one_layer [of new "dist x + 1"] Cons by (auto simp: layered_def sorted_wrt_append)
    moreover have "2 * card (set nodes - (V \<union> set new)) + length (rest @ new) < 2 * card (set nodes - V) + length queue"
      using fresh_card [of "set nodes" "succs x" V] succs_nodes [of x] Cons by (simp add: new_def)
    ultimately have IH: "set (bfs_order nodes succs (rest @ new) (V \<union> set new)) = set (rest @ new) \<union> (reach - (V \<union> set new))"
      "sorted_wrt (\<lambda>x y. dist x \<le> dist y) (bfs_order nodes succs (rest @ new) (V \<union> set new))"
      using less.hyps by blast+
    have "dist x \<le> dist y" if "y \<in> set (bfs_order nodes succs (rest @ new) (V \<union> set new))" for y
      using that rest newD near [of y] by (auto simp: IH(1)) (meson nat_le_linear)
    then show ?thesis
      using IH newD by (auto simp: Cons order_step new_def [symmetric])
  qed
qed

text \<open>The start is found again when it is on a cycle; the second time it has nothing new to offer.\<close>

lemma order_again:
  assumes "set (succs start) \<subseteq> V"
  shows "filter (\<lambda>x. x \<noteq> start) (bfs_order nodes succs queue V) =
     bfs_order nodes succs (filter (\<lambda>x. x \<noteq> start) queue) (insert start V)"
  using assms
proof (induction "2 * card (set nodes - V) + length queue" arbitrary: queue V rule: less_induct)
  case less
  show ?case
  proof (cases queue)
    case (Cons x rest)
    let ?new = "fresh V (succs x)"
    have "2 * card (set nodes - (V \<union> set ?new)) + length (rest @ ?new) < 2 * card (set nodes - V) + length queue"
      using fresh_card [of "set nodes" "succs x" V] succs_nodes [of x] Cons by simp
    then have IH: "filter (\<lambda>x. x \<noteq> start) (bfs_order nodes succs (rest @ ?new) (V \<union> set ?new)) =
        bfs_order nodes succs (filter (\<lambda>x. x \<noteq> start) (rest @ ?new)) (insert start (V \<union> set ?new))"
      using less by blast
    show ?thesis
    proof (cases "x = start")
      case True
      then show ?thesis using IH less.prems by (simp add: Cons order_step fresh_Nil)
    next
      case False
      have "insert start (V \<union> set ?new) = insert start V \<union> set (fresh (insert start V) (succs x))"
        by (auto simp: set_fresh)
      with False IH show ?thesis by (simp add: Cons order_step fresh_remove)
    qed
  qed simp
qed

lemma bfs_from_start:
  "set (bfs_order nodes succs [start] {}) = reach"
  "sorted_wrt (\<lambda>x y. y \<noteq> start \<longrightarrow> dist x \<le> dist y) (bfs_order nodes succs [start] {})"
proof -
  let ?new = "fresh {} (succs start)"
  let ?rest = "bfs_order nodes succs ?new (set ?new)"
  let ?queue = "filter (\<lambda>x. x \<noteq> start) ?new"
  have order: "bfs_order nodes succs [start] {} = start # ?rest" by (simp add: order_step)
  have rest: "filter (\<lambda>x. x \<noteq> start) ?rest = bfs_order nodes succs ?queue (insert start (set ?new))"
    by (rule order_again) (simp add: set_fresh)
  have one: "dist x \<le> 1 \<and> (x \<noteq> start \<longrightarrow> 0 < dist x) \<and> x \<in> reach" if "x \<in> set (succs start)" for x
    using dist_succ [OF start_reach that] dist_0 [of x] reach_step [OF start_reach that] by auto
  have "searched ?queue (insert start (set ?new))"
    using one distinct_fresh [of "{}" "succs start"] by (auto simp: searched_def set_fresh)
  moreover have "layered 1 ?queue"
  proof -
    have "dist x = 1" if "x \<in> set ?queue" for x using one [of x] that by (auto simp: set_fresh)
    then show ?thesis using one_layer [of ?queue 1] by (auto simp: layered_def)
  qed
  ultimately have "set (filter (\<lambda>x. x \<noteq> start) ?rest) = set ?queue \<union> (reach - insert start (set ?new))"
    and sorted: "sorted_wrt (\<lambda>x y. dist x \<le> dist y) (filter (\<lambda>x. x \<noteq> start) ?rest)"
    unfolding rest using order_correct by blast+
  then have sub: "set ?rest - {start} = reach - {start}" using one by (auto simp: set_fresh)
  then show "set (bfs_order nodes succs [start] {}) = reach" unfolding order by (auto intro: start_reach)
  have "sorted_wrt (\<lambda>x y. y \<noteq> start \<longrightarrow> dist x \<le> dist y) xs" if "sorted_wrt (\<lambda>x y. dist x \<le> dist y) (filter (\<lambda>x. x \<noteq> start) xs)" for xs
    using that by (induction xs) (auto split: if_splits)
  from this [OF sorted] show "sorted_wrt (\<lambda>x y. y \<noteq> start \<longrightarrow> dist x \<le> dist y) (bfs_order nodes succs [start] {})"
    by (simp add: order)
qed

text \<open>A search along the order finds a node that is nearest to the start.\<close>

lemma find_nearest:
  assumes "find P (bfs_order nodes succs [start] {}) = Some x"
  shows "x \<in> reach \<and> P x \<and> (\<forall>y \<in> reach. P y \<longrightarrow> dist x \<le> dist y)"
proof -
  let ?order = "bfs_order nodes succs [start] {}"
  obtain i where i: "i < length ?order" "P x" "?order ! i = x" and before: "\<And>j. j < i \<Longrightarrow> \<not> P (?order ! j)"
    using assms by (auto simp: find_Some_iff)
  have "dist x \<le> dist y" if y: "y \<in> reach" "P y" for y
  proof (cases "y = start")
    case True
    then have "?order ! 0 = y" "?order \<noteq> []" by (simp_all add: order_step)
    with before [of 0] y i have "x = start" using True by (cases i) auto
    then show ?thesis by simp
  next
    case False
    obtain j where j: "j < length ?order" "?order ! j = y"
      using y bfs_from_start(1) by (metis in_set_conv_nth)
    then have "i \<le> j" using before [of j] y by (metis not_le)
    then show ?thesis
      using False i j sorted_wrt_nth_less [OF bfs_from_start(2), of i j] by (cases "i = j") auto
  qed
  moreover have "x \<in> reach" using i bfs_from_start(1) by (metis nth_mem)
  ultimately show ?thesis using i by blast
qed

lemma find_unreached: "find P (bfs_order nodes succs [start] {}) = None \<longleftrightarrow> (\<forall>x \<in> reach. \<not> P x)"
  by (auto simp: find_None_iff bfs_from_start(1))

end

end
