(* ===== verification/Library_List.thy ===== *)
theory Library_List
  imports Shared_Library Breadth_First Search_Path Crazy_System
begin

text \<open>
  The set of libraries in the process, class \<open>LibraryList\<close> of \<open>crazy_linker_library_list.cpp\<close>: loading
  a library with its dependencies, unloading by reference counts, and the breadth-first search of
  symbols. The objects \<open>LibraryView\<close> and \<open>SharedLibrary\<close> live in a heap, at addresses the allocator
  chooses; the vector \<open>known_libraries_\<close> and the doubly linked list \<open>head_\<close> hold their addresses. Using
  an object that has been deleted is the value \<^term>\<open>None\<close>.

  \<open>LoadLibrary\<close> and \<open>UnloadLibrary\<close> recurse over the dependencies. Their first argument bounds the depth
  of the recursion; \<^term>\<open>None\<close> also stands for a recursion that goes deeper.
\<close>

section \<open>The state\<close>

text \<open>What the linker relies on: the processor, the kernel, the file system, the system linker, the code of
  the loaded libraries, the place of \<open>link_map_\<close> in an object, and the allocator, which is given the addresses in use.\<close>

record 'addr linker_env =
  le_arch :: arch
  le_machine :: nat
  le_os :: "'addr loader_os"
  le_files :: "char list \<Rightarrow> elf_file"
  le_is_file :: "char list \<Rightarrow> bool"
  le_cwd :: "char list"
  le_refuse :: "'addr refusal"
  le_dlopen :: "char list \<Rightarrow> int \<Rightarrow> 'addr"
  le_dlsym :: "'addr \<Rightarrow> byte list \<Rightarrow> 'addr"
  le_wrapper :: "char list \<Rightarrow> 'addr"
  le_run :: "'addr \<Rightarrow> 'addr vm \<Rightarrow> 'addr vm"
  le_run_jni :: "'addr \<Rightarrow> 'addr \<Rightarrow> 'addr vm \<Rightarrow> int \<times> 'addr vm"
  le_rdebug :: "'addr rdebug_env"
  le_link_map :: "'addr \<Rightarrow> 'addr"
  le_new :: "'addr list \<Rightarrow> 'addr"

record 'addr library_list =
  ll_views :: "'addr \<Rightarrow> 'addr library_view option"
  ll_libs :: "'addr \<Rightarrow> 'addr shared_library option"
  ll_live :: "'addr list"
  known_libraries :: "'addr list"
  ll_head :: 'addr
  ll_vm :: "'addr vm"
  ll_rdebug :: "'addr rdebug"
  ll_brks :: "'addr vm list"
  ll_calls :: "'addr list"
  ll_closed :: "'addr list"

definition LibraryList_Init :: "('w::len) word vm \<Rightarrow> 'w word library_list" where
  "LibraryList_Init vm =
     \<lparr>ll_views = (\<lambda>_. None), ll_libs = (\<lambda>_. None), ll_live = [], known_libraries = [], ll_head = 0, ll_vm = vm,
      ll_rdebug = RDebug_Init, ll_brks = [], ll_calls = [], ll_closed = []\<rparr>"

datatype 'addr list_error =
  SystemAtFixedAddress 'addr
| AlreadyLoadedAt 'addr 'addr
| CantLoadSystemLibrary "char list"
| CantFindLibraryFile "char list"
| LibraryFileMissing "char list"
| LibraryLoadError "'addr library_error"
| WhenLoading "char list" "'addr list_error"
| LibraryRelocError "'addr reloc_error option"

text \<open>\<open>operator new\<close> gives an address that is not in use, or does not return.\<close>

definition new_object :: "('w::len) word linker_env \<Rightarrow> 'w word library_list \<Rightarrow> ('w word \<times> 'w word library_list) option" where
  "new_object env st =
     (let a = le_new env (ll_live st) in
      if a \<noteq> 0 \<and> a \<notin> set (ll_live st) then Some (a, st\<lparr>ll_live := a # ll_live st\<rparr>) else None)"

definition set_view :: "('w::len) word \<Rightarrow> 'w word library_view \<Rightarrow> 'w word library_list \<Rightarrow> 'w word library_list" where
  "set_view w v st = st\<lparr>ll_views := (ll_views st)(w := Some v)\<rparr>"

definition set_lib :: "('w::len) word \<Rightarrow> 'w word shared_library \<Rightarrow> 'w word library_list \<Rightarrow> 'w word library_list" where
  "set_lib p lib st = st\<lparr>ll_libs := (ll_libs st)(p := Some lib)\<rparr>"

text \<open>\<open>delete\<close> of a \<open>SharedLibrary\<close>, which unmaps it, and of a \<open>LibraryView\<close>, which deletes the library or
  closes the handle.\<close>

definition delete_lib :: "('w::len) word \<Rightarrow> 'w word library_list \<Rightarrow> 'w word library_list option" where
  "delete_lib p st =
     do {
       lib \<leftarrow> ll_libs st p;
       Some (st\<lparr>ll_vm := SharedLibrary_end lib (ll_vm st), ll_libs := (ll_libs st)(p := None),
                ll_live := removeAll p (ll_live st)\<rparr>)
     }"

definition delete_view :: "('w::len) word \<Rightarrow> 'w word library_list \<Rightarrow> 'w word library_list option" where
  "delete_view w st =
     do {
       v \<leftarrow> ll_views st w;
       let st = (if lv_type v = TYPE_SYSTEM then st\<lparr>ll_closed := ll_closed st @ [lv_system v]\<rparr> else st);
       st \<leftarrow> (if lv_type v = TYPE_CRAZY then delete_lib (lv_crazy v) st else Some st);
       Some (st\<lparr>ll_views := (ll_views st)(w := None), ll_live := removeAll w (ll_live st)\<rparr>)
     }"

section \<open>Finding libraries\<close>

definition view_named :: "('w::len) word library_list \<Rightarrow> char list \<Rightarrow> 'w word \<Rightarrow> bool" where
  "view_named st name w \<longleftrightarrow> map_option lv_name (ll_views st w) = Some name"

definition FindLibraryByName :: "('w::len) word library_list \<Rightarrow> char list option \<Rightarrow> 'w word option" where
  "FindLibraryByName st requested =
     (case requested of
        None \<Rightarrow> None
      | Some name \<Rightarrow>
          if memchr (CHR ''/'') name \<noteq> None then None else find (view_named st name) (known_libraries st))"

definition FindKnownLibrary :: "('w::len) word library_list \<Rightarrow> char list \<Rightarrow> 'w word option" where
  "FindKnownLibrary st name = find (view_named st (GetBaseNamePtr name)) (known_libraries st)"

definition AddLibrary :: "('w::len) word \<Rightarrow> 'w word library_list \<Rightarrow> 'w word library_list" where
  "AddLibrary w st = st\<lparr>known_libraries := known_libraries st @ [w]\<rparr>"

definition FindLibraryForAddress :: "('w::len) word library_list \<Rightarrow> 'w word \<Rightarrow> 'w word option" where
  "FindLibraryForAddress st address =
     find (\<lambda>w. case ll_views st w of
         None \<Rightarrow> False
       | Some v \<Rightarrow> IsCrazy v \<and> (case ll_libs st (GetCrazy v) of None \<Rightarrow> False | Some lib \<Rightarrow> ContainsAddress lib address))
       (known_libraries st)"

text \<open>The loops along \<open>list_next_\<close>; the bound is the number of steps.\<close>

fun FindArmExIdx_loop :: "('w::len) word library_list \<Rightarrow> 'w word \<Rightarrow> nat \<Rightarrow> 'w word \<Rightarrow> ('w word \<times> nat) option" where
  "FindArmExIdx_loop st pc 0 p = None"
| "FindArmExIdx_loop st pc (Suc n) p =
     (if p = 0 then Some (0, 0)
      else do {
        lib \<leftarrow> ll_libs st p;
        if ContainsAddress lib pc then Some (arm_exidx lib, arm_exidx_count lib)
        else FindArmExIdx_loop st pc n (list_next lib)
      })"

definition FindArmExIdx :: "('w::len) word library_list \<Rightarrow> 'w word \<Rightarrow> ('w word \<times> nat) option" where
  "FindArmExIdx st pc = FindArmExIdx_loop st pc (Suc (length (known_libraries st))) (ll_head st)"

record 'addr dl_phdr_info =
  dlpi_addr :: 'addr
  dlpi_name :: "char list"
  dlpi_phdr :: 'addr
  dlpi_phnum :: nat

text \<open>\<open>callback\<close> is given the information and its own data, which it may change.\<close>

fun IteratePhdr_loop ::
  "(('w::len) word dl_phdr_info \<Rightarrow> 'd \<Rightarrow> int \<times> 'd) \<Rightarrow> 'w word library_list \<Rightarrow> nat \<Rightarrow> 'w word \<Rightarrow> int \<Rightarrow> 'd \<Rightarrow> (int \<times> 'd) option" where
  "IteratePhdr_loop callback st 0 p result data = None"
| "IteratePhdr_loop callback st (Suc n) p result data =
     (if p = 0 then Some (result, data)
      else do {
        lib \<leftarrow> ll_libs st p;
        let info = \<lparr>dlpi_addr = link_addr lib, dlpi_name = base_name lib, dlpi_phdr = ev_phdr (sl_view lib),
                    dlpi_phnum = ev_phdr_count (sl_view lib)\<rparr>;
        (case callback info data of (result, data) \<Rightarrow>
           if result \<noteq> 0 then Some (result, data)
           else IteratePhdr_loop callback st n (list_next lib) result data)
      })"

definition IteratePhdr ::
  "(('w::len) word dl_phdr_info \<Rightarrow> 'd \<Rightarrow> int \<times> 'd) \<Rightarrow> 'w word library_list \<Rightarrow> 'd \<Rightarrow> (int \<times> 'd) option" where
  "IteratePhdr callback st data = IteratePhdr_loop callback st (Suc (length (known_libraries st))) (ll_head st) 0 data"

section \<open>Finding symbols\<close>

text \<open>The addresses of the names a \<open>DependencyIterator\<close> gives, as long as the memory does not change.\<close>

lemma Dependency_GetNext_shorter:
  "Dependency_GetNext vm symbols its = Some (n, its') \<Longrightarrow> length its' < length its"
  by (induction its) (auto split: if_splits)

function dependency_names :: "('w::len) word vm \<Rightarrow> 'w word elf_symbols \<Rightarrow> 'w word dyn_iter list \<Rightarrow> 'w word list" where
  "dependency_names vm symbols its =
     (case Dependency_GetNext vm symbols its of None \<Rightarrow> [] | Some (n, its) \<Rightarrow> n # dependency_names vm symbols its)"
  by pat_completeness auto
termination
  by (relation "measure (\<lambda>(vm, symbols, its). length its)") (auto intro: Dependency_GetNext_shorter)

declare dependency_names.simps [simp del]

record 'addr symbol_lookup_state =
  found_addr :: 'addr
  weak_addr :: 'addr
  weak_count :: nat

definition SymbolLookupState_Init :: "('w::len) word symbol_lookup_state" where
  "SymbolLookupState_Init = \<lparr>found_addr = 0, weak_addr = 0, weak_count = 0\<rparr>"

definition CheckSymbol ::
  "('w::len) word vm \<Rightarrow> byte list \<Rightarrow> 'w word shared_library \<Rightarrow> 'w word symbol_lookup_state \<Rightarrow>
     (bool \<times> 'w word symbol_lookup_state) option" where
  "CheckSymbol vm symbol lib s =
     do {
       entry \<leftarrow> LookupSymbolEntry vm lib symbol;
       (case entry of
          None \<Rightarrow> Some (False, s)
        | Some sy \<Rightarrow>
            let address = lib_bias lib + st_value sy in
            if ELF_ST_BIND (st_info sy) = STB_GLOBAL then Some (True, s\<lparr>found_addr := address\<rparr>)
            else let s = s\<lparr>weak_count := weak_count s + 1\<rparr> in
              Some (False, if weak_count s = 1 then s\<lparr>weak_addr := address\<rparr> else s))
     }"

text \<open>The inner loop of \<open>FindSymbolFrom\<close>, which puts the dependencies that are not visited on the queue.\<close>

fun push_dependencies ::
  "('w::len) word library_list \<Rightarrow> 'w word list \<Rightarrow> 'w word list \<Rightarrow> 'w word set \<Rightarrow> ('w word list \<times> 'w word set) option" where
  "push_dependencies st [] work_queue visited = Some (work_queue, visited)"
| "push_dependencies st (n # ns) work_queue visited =
     do {
       name \<leftarrow> cstr_at (ll_vm st) n;
       (case FindKnownLibrary st (chars_of name) of
          None \<Rightarrow> push_dependencies st ns work_queue visited
        | Some dependency \<Rightarrow>
            if dependency \<notin> visited
            then push_dependencies st ns (work_queue @ [dependency]) (insert dependency visited)
            else push_dependencies st ns work_queue visited)
     }"

text \<open>The dependencies of a library that are loaded, in the order of the dynamic table.\<close>

definition known_dependency :: "('w::len) word library_list \<Rightarrow> 'w word \<Rightarrow> 'w word option" where
  "known_dependency st n = do { name \<leftarrow> cstr_at (ll_vm st) n; FindKnownLibrary st (chars_of name) }"

lemma FindKnownLibrary_known: "FindKnownLibrary st name = Some w \<Longrightarrow> w \<in> set (known_libraries st)"
  by (auto simp: FindKnownLibrary_def find_Some_iff)

lemma known_dependency_known: "known_dependency st n = Some w \<Longrightarrow> w \<in> set (known_libraries st)"
  by (auto simp: known_dependency_def FindKnownLibrary_known bind_eq_Some_conv)

lemma in_map_filter: "x \<in> set (List.map_filter f xs) \<longleftrightarrow> (\<exists>y \<in> set xs. f y = Some x)"
  by (induction xs) (auto simp: map_filter_simps split: option.split)

lemma push_dependencies_fresh:
  "push_dependencies st ns queue V = Some (queue', V') \<Longrightarrow>
     queue' = queue @ fresh V (List.map_filter (known_dependency st) ns) \<and>
     V' = V \<union> set (fresh V (List.map_filter (known_dependency st) ns))"
proof (induction ns arbitrary: queue V)
  case (Cons n ns)
  from Cons.prems obtain name where name: "cstr_at (ll_vm st) n = Some name"
    by (auto simp: bind_eq_Some_conv)
  then have "known_dependency st n = FindKnownLibrary st (chars_of name)" by (simp add: known_dependency_def)
  with Cons name show ?case
    by (cases "FindKnownLibrary st (chars_of name)") (fastforce simp: map_filter_simps split: if_splits)+
qed (simp add: map_filter_simps)

text \<open>The outer loop.\<close>

function FindSymbol_loop ::
  "('w::len) word linker_env \<Rightarrow> 'w word library_list \<Rightarrow> byte list \<Rightarrow> 'w word list \<Rightarrow> 'w word set \<Rightarrow>
     'w word symbol_lookup_state \<Rightarrow> 'w word option" where
  "FindSymbol_loop env st symbol_name [] visited s = Some (if weak_count s \<ge> 1 then weak_addr s else 0)"
| "FindSymbol_loop env st symbol_name (w # work_queue) visited s =
     do {
       lib \<leftarrow> ll_views st w;
       if IsCrazy lib then do {
         crazy \<leftarrow> ll_libs st (GetCrazy lib);
         (found, s) \<leftarrow> CheckSymbol (ll_vm st) symbol_name crazy s;
         if found then Some (found_addr s)
         else do {
           (work_queue, visited) \<leftarrow> push_dependencies st
              (dependency_names (ll_vm st) (sl_symbols crazy) (DependencyIterator_Init crazy)) work_queue visited;
           FindSymbol_loop env st symbol_name work_queue visited s
         }
       }
       else if IsSystem lib then
         (let addr = le_dlsym env (lv_system lib) symbol_name in
          if addr \<noteq> 0 then Some addr else FindSymbol_loop env st symbol_name work_queue visited s)
       else FindSymbol_loop env st symbol_name work_queue visited s
     }"
  by pat_completeness auto
termination
proof (relation "measure (\<lambda>(env, st, name, queue, V, s). 2 * card (set (known_libraries st) - V) + length queue)", goal_cases)
  case (2 env st name w queue V s lib crazy fs found s' qv queue' V')
  let ?new = "fresh V (List.map_filter (known_dependency st)
     (dependency_names (ll_vm st) (sl_symbols crazy) (DependencyIterator_Init crazy)))"
  have "queue' = queue @ ?new" "V' = V \<union> set ?new"
    using push_dependencies_fresh [OF 2(7) [unfolded 2(8) [symmetric]]] 2 by auto
  moreover have "card (set (known_libraries st) - (V \<union> set ?new)) + length ?new = card (set (known_libraries st) - V)"
    by (rule fresh_card) (auto simp: in_map_filter intro: known_dependency_known)
  ultimately show ?case by simp
qed auto

definition FindSymbolFrom ::
  "('w::len) word linker_env \<Rightarrow> 'w word library_list \<Rightarrow> byte list \<Rightarrow> 'w word option \<Rightarrow> 'w word option" where
  "FindSymbolFrom env st symbol_name from =
     (case from of
        None \<Rightarrow> Some 0
      | Some w \<Rightarrow> FindSymbol_loop env st symbol_name [w] {} SymbolLookupState_Init)"

definition LibraryView_LookupSymbol ::
  "('w::len) word linker_env \<Rightarrow> 'w word library_list \<Rightarrow> byte list \<Rightarrow> 'w word \<Rightarrow> 'w word option" where
  "LibraryView_LookupSymbol env st symbol_name w =
     do {
       v \<leftarrow> ll_views st w;
       if lv_type v = TYPE_SYSTEM then Some (le_dlsym env (lv_system v) symbol_name)
       else if lv_type v = TYPE_CRAZY then FindSymbolFrom env st symbol_name (Some w)
       else Some 0
     }"

section \<open>Loading\<close>

definition with_debug ::
  "(('w::len) word dbg_state \<Rightarrow> 'w word dbg_state option) \<Rightarrow> 'w word library_list \<Rightarrow> 'w word library_list option" where
  "with_debug f st =
     do {
       (rd, vm, brks) \<leftarrow> f (ll_rdebug st, ll_vm st, ll_brks st);
       Some (st\<lparr>ll_rdebug := rd, ll_vm := vm, ll_brks := brks\<rparr>)
     }"

text \<open>The result of a load that succeeds is the view, and the message the relocation left in \<open>error\<close>, if any.\<close>

type_synonym 'addr load_result =
  "(('addr list_error + 'addr \<times> 'addr reloc_error option) \<times> search_path_list \<times> 'addr library_list) option"

text \<open>The parts of \<open>LoadLibrary\<close>: a library that is known, a system library, the path of the file.\<close>

definition load_known ::
  "('w::len) word \<Rightarrow> 'w word \<Rightarrow> 'w word library_list \<Rightarrow> (('w word list_error + 'w word) \<times> 'w word library_list) option" where
  "load_known load_address w st =
     do {
       wrap \<leftarrow> ll_views st w;
       if load_address \<noteq> 0 \<and> \<not> IsCrazy wrap then Some (Inl (SystemAtFixedAddress load_address), st)
       else do {
         actual_address \<leftarrow> (if load_address \<noteq> 0 then map_option (\<lambda>lib. lib_address lib) (ll_libs st (GetCrazy wrap)) else Some 0);
         if actual_address \<noteq> load_address then Some (Inl (AlreadyLoadedAt actual_address load_address), st)
         else Some (Inr w, set_view w (AddRef wrap) st)
       }
     }"

definition load_system ::
  "('w::len) word linker_env \<Rightarrow> char list \<Rightarrow> int \<Rightarrow> 'w word library_list \<Rightarrow>
     (('w word list_error + 'w word) \<times> 'w word library_list) option" where
  "load_system env lib_name dlopen_mode st =
     (let system_lib = le_dlopen env lib_name dlopen_mode in
      if system_lib = 0 then Some (Inl (CantLoadSystemLibrary lib_name), st)
      else do {
        (w, st) \<leftarrow> new_object env st;
        Some (Inr w, AddLibrary w (set_view w (SetSystem system_lib lib_name LibraryView_Init) st))
      })"

definition library_path ::
  "('w::len) word linker_env \<Rightarrow> char list \<Rightarrow> search_path_list \<Rightarrow> ('w word list_error + char list) \<times> search_path_list" where
  "library_path env lib_name search_path_list =
     (if memchr (CHR ''/'') lib_name = None then
        (case FindFile (le_is_file env) (Some lib_name) search_path_list of
           (None, search_path_list) \<Rightarrow> (Inl (CantFindLibraryFile lib_name), search_path_list)
         | (Some path, search_path_list) \<Rightarrow> (Inr path, search_path_list))
      else
        let full_path =
              (if lib_name ! 0 \<noteq> CHR ''/'' then
                 (let full_path = GetCurrentDirectory (le_cwd env);
                      full_path = (if full_path \<noteq> [] \<and> full_path ! (length full_path - 1) \<noteq> CHR ''/''
                                   then full_path @ [CHR ''/''] else full_path)
                  in full_path @ lib_name)
               else lib_name)
        in if \<not> le_is_file env (c_str full_path) then (Inl (LibraryFileMissing (c_str full_path)), search_path_list)
           else (Inr (c_str full_path), search_path_list))"

text \<open>The loop over the dependencies. \<open>load\<close> is the recursive call.\<close>

function load_dependencies ::
  "(char list \<Rightarrow> search_path_list \<Rightarrow> ('w::len) word library_list \<Rightarrow> 'w word load_result) \<Rightarrow>
   'w word elf_symbols \<Rightarrow> 'w word dyn_iter list \<Rightarrow> 'w word list \<Rightarrow> search_path_list \<Rightarrow> 'w word library_list \<Rightarrow>
     (('w word list_error + 'w word list) \<times> search_path_list \<times> 'w word library_list) option" where
  "load_dependencies load symbols its dependencies search_path_list st =
     (case Dependency_GetNext (ll_vm st) symbols its of
        None \<Rightarrow> Some (Inr dependencies, search_path_list, st)
      | Some (n, its) \<Rightarrow>
          do {
            name \<leftarrow> cstr_at (ll_vm st) n;
            (r, search_path_list, st) \<leftarrow> load (chars_of name) search_path_list st;
            (case r of
               Inl dep_error \<Rightarrow> Some (Inl dep_error, search_path_list, st)
             | Inr (dependency, _) \<Rightarrow>
                 load_dependencies load symbols its (dependencies @ [dependency]) search_path_list st)
          })"
  by pat_completeness auto
termination
  by (relation "measure (\<lambda>(load, symbols, its, deps, spl, st). length its)") (auto intro: Dependency_GetNext_shorter)

declare load_dependencies.simps [simp del]

text \<open>\<open>Relocate\<close> on the views of the dependencies.\<close>

definition relocate_library ::
  "('w::len) word linker_env \<Rightarrow> 'w word \<Rightarrow> 'w word list \<Rightarrow> 'w word library_list \<Rightarrow>
     (bool \<times> 'w word reloc_error option \<times> 'w word library_list) option" where
  "relocate_library env p dependencies st =
     do {
       lib \<leftarrow> ll_libs st p;
       views \<leftarrow> those (map (ll_views st) dependencies);
       if list_all (\<lambda>v. IsCrazy v \<longrightarrow> ll_libs st (GetCrazy v) \<noteq> None) views
       then do {
         (ok, err, vm) \<leftarrow> SharedLibrary_Relocate (le_arch env) (le_refuse env)
            \<lparr>re_dlsym = le_dlsym env, re_wrapper = le_wrapper env,
             re_libs = (\<lambda>a. case ll_libs st a of None \<Rightarrow> SharedLibrary_Init | Some lib \<Rightarrow> lib)\<rparr> views lib (ll_vm st);
         Some (ok, err, st\<lparr>ll_vm := vm\<rparr>)
       }
       else None
     }"

text \<open>The end of \<open>LoadLibrary\<close>, once the library is relocated: the debugger's entry, the list, the view,
  and the constructors.\<close>

definition push_front :: "('w::len) word \<Rightarrow> 'w word library_list \<Rightarrow> 'w word library_list option" where
  "push_front p st =
     do {
       lib \<leftarrow> ll_libs st p;
       let st = set_lib p (lib\<lparr>list_next := ll_head st, list_prev := 0\<rparr>) st;
       st \<leftarrow> (if ll_head st \<noteq> 0 then do {
                 old \<leftarrow> ll_libs st (ll_head st);
                 Some (set_lib (ll_head st) (old\<lparr>list_prev := p\<rparr>) st)
               } else Some st);
       Some (st\<lparr>ll_head := p\<rparr>)
     }"

definition register_library ::
  "('w::len) word linker_env \<Rightarrow> char list \<Rightarrow> 'w word \<Rightarrow> 'w word library_list \<Rightarrow> ('w word \<times> 'w word library_list) option" where
  "register_library env lib_name p st =
     do {
       lib \<leftarrow> ll_libs st p;
       let st = set_lib p (lib\<lparr>link_addr := lib_address lib, link_ld := ev_dynamic (sl_view lib)\<rparr>) st;
       st \<leftarrow> with_debug (AddEntry (le_rdebug env) (le_link_map env p)) st;
       st \<leftarrow> push_front p st;
       (w, st) \<leftarrow> new_object env st;
       let st = AddLibrary w (set_view w (SetCrazy p lib_name LibraryView_Init) st);
       lib \<leftarrow> ll_libs st p;
       (case CallConstructors (le_run env) lib (ll_calls st, ll_vm st) of (calls, vm) \<Rightarrow>
          Some (w, st\<lparr>ll_calls := calls, ll_vm := vm\<rparr>))
     }"

text \<open>The object is deleted on every return before \<open>lib.Release()\<close>.\<close>

definition load_failed ::
  "('w::len) word \<Rightarrow> 'w word list_error \<Rightarrow> search_path_list \<Rightarrow> 'w word library_list \<Rightarrow> 'w word load_result" where
  "load_failed p err search_path_list st = do { st \<leftarrow> delete_lib p st; Some (Inl err, search_path_list, st) }"

text \<open>After \<open>Load\<close>: the dependencies, the relocations, and the registration.\<close>

definition finish_load ::
  "('w::len) word linker_env \<Rightarrow> (char list \<Rightarrow> search_path_list \<Rightarrow> 'w word library_list \<Rightarrow> 'w word load_result) \<Rightarrow>
   char list \<Rightarrow> 'w word \<Rightarrow> search_path_list \<Rightarrow> 'w word library_list \<Rightarrow> 'w word load_result" where
  "finish_load env load lib_name p search_path_list st =
     do {
       lib \<leftarrow> ll_libs st p;
       (deps, search_path_list, st) \<leftarrow>
          load_dependencies load (sl_symbols lib) (DependencyIterator_Init lib) [] search_path_list st;
       (case deps of
          Inl e \<Rightarrow> load_failed p (WhenLoading (GetBaseNamePtr lib_name) e) search_path_list st
        | Inr dependencies \<Rightarrow>
            do {
              (ok, err, st) \<leftarrow> relocate_library env p dependencies st;
              if \<not> ok then load_failed p (LibraryRelocError err) search_path_list st
              else do {
                (w, st) \<leftarrow> register_library env lib_name p st;
                Some (Inr (w, err), search_path_list, st)
              }
            })
     }"

definition load_crazy ::
  "('w::len) word linker_env \<Rightarrow> (char list \<Rightarrow> search_path_list \<Rightarrow> 'w word library_list \<Rightarrow> 'w word load_result) \<Rightarrow>
   char list \<Rightarrow> 'w word \<Rightarrow> 'w word \<Rightarrow> search_path_list \<Rightarrow> 'w word library_list \<Rightarrow> 'w word load_result" where
  "load_crazy env load lib_name load_address file_offs search_path_list st =
     do {
       (p, st) \<leftarrow> new_object env st;
       (case library_path env lib_name search_path_list of
          (Inl e, search_path_list) \<Rightarrow> load_failed p e search_path_list (set_lib p SharedLibrary_Init st)
        | (Inr path, search_path_list) \<Rightarrow>
            (case SharedLibrary_Load (le_arch env) (le_machine env) (le_os env) (le_files env) (r_debug (ll_rdebug st))
                    path load_address file_offs SharedLibrary_Init (ll_vm st) of (err, lib, vm) \<Rightarrow>
             let st = (set_lib p lib st)\<lparr>ll_vm := vm\<rparr> in
             case err of
               Some e \<Rightarrow> load_failed p (LibraryLoadError e) search_path_list st
             | None \<Rightarrow> finish_load env load lib_name p search_path_list st))
     }"

primrec LoadLibrary ::
  "nat \<Rightarrow> ('w::len) word linker_env \<Rightarrow> char list \<Rightarrow> int \<Rightarrow> 'w word \<Rightarrow> 'w word \<Rightarrow> search_path_list \<Rightarrow> 'w word library_list \<Rightarrow>
     'w word load_result" where
  "LoadLibrary 0 env lib_name dlopen_mode load_address file_offs search_path_list st = None"
| "LoadLibrary (Suc n) env lib_name dlopen_mode load_address file_offs search_path_list st =
     (case FindKnownLibrary st lib_name of
        Some w \<Rightarrow> map_option (\<lambda>(r, st). (map_sum id (\<lambda>w. (w, None)) r, search_path_list, st)) (load_known load_address w st)
      | None \<Rightarrow>
          if IsSystemLibrary lib_name
          then map_option (\<lambda>(r, st). (map_sum id (\<lambda>w. (w, None)) r, search_path_list, st)) (load_system env lib_name dlopen_mode st)
          else load_crazy env (\<lambda>name. LoadLibrary n env name dlopen_mode 0 0) lib_name load_address file_offs
                 search_path_list st)"

section \<open>Unloading\<close>

definition unlink_library :: "('w::len) word \<Rightarrow> 'w word library_list \<Rightarrow> 'w word library_list option" where
  "unlink_library p st =
     do {
       lib \<leftarrow> ll_libs st p;
       st \<leftarrow> (if list_next lib \<noteq> 0 then do {
                 nx \<leftarrow> ll_libs st (list_next lib);
                 Some (set_lib (list_next lib) (nx\<lparr>list_prev := list_prev lib\<rparr>) st)
               } else Some st);
       lib \<leftarrow> ll_libs st p;
       st \<leftarrow> (if list_prev lib \<noteq> 0 then do {
                 pv \<leftarrow> ll_libs st (list_prev lib);
                 Some (set_lib (list_prev lib) (pv\<lparr>list_next := list_next lib\<rparr>) st)
               } else Some st);
       lib \<leftarrow> ll_libs st p;
       Some (if p = ll_head st then st\<lparr>ll_head := list_next lib\<rparr> else st)
     }"

text \<open>The loop over the dependencies. \<open>unload\<close> is the recursive call.\<close>

function unload_dependencies ::
  "(('w::len) word \<Rightarrow> 'w word library_list \<Rightarrow> 'w word library_list option) \<Rightarrow>
   'w word elf_symbols \<Rightarrow> 'w word dyn_iter list \<Rightarrow> 'w word library_list \<Rightarrow> 'w word library_list option" where
  "unload_dependencies unload symbols its st =
     (case Dependency_GetNext (ll_vm st) symbols its of
        None \<Rightarrow> Some st
      | Some (n, its) \<Rightarrow>
          do {
            name \<leftarrow> cstr_at (ll_vm st) n;
            st \<leftarrow> (case FindKnownLibrary st (chars_of name) of
                     None \<Rightarrow> Some st
                   | Some dependency \<Rightarrow> unload dependency st);
            unload_dependencies unload symbols its st
          })"
  by pat_completeness auto
termination
  by (relation "measure (\<lambda>(unload, symbols, its, st). length its)") (auto intro: Dependency_GetNext_shorter)

declare unload_dependencies.simps [simp del]

definition unload_crazy ::
  "('w::len) word linker_env \<Rightarrow> ('w word \<Rightarrow> 'w word library_list \<Rightarrow> 'w word library_list option) \<Rightarrow> 'w word \<Rightarrow>
     'w word library_list \<Rightarrow> 'w word library_list option" where
  "unload_crazy env unload p st =
     do {
       st \<leftarrow> unlink_library p st;
       lib \<leftarrow> ll_libs st p;
       vm \<leftarrow> CallJniOnUnload (le_run_jni env) lib (ll_vm st);
       (case CallDestructors (le_run env) lib (ll_calls st, vm) of (calls, vm) \<Rightarrow>
          do {
            st \<leftarrow> unload_dependencies unload (sl_symbols lib) (DependencyIterator_Init lib)
                    (st\<lparr>ll_calls := calls, ll_vm := vm\<rparr>);
            with_debug (DelEntry (le_rdebug env) (le_link_map env p)) st
          })
     }"

primrec UnloadLibrary ::
  "nat \<Rightarrow> ('w::len) word linker_env \<Rightarrow> 'w word \<Rightarrow> 'w word library_list \<Rightarrow> 'w word library_list option" where
  "UnloadLibrary 0 env w st = None"
| "UnloadLibrary (Suc n) env w st =
     do {
       wrap \<leftarrow> ll_views st w;
       if \<not> IsSystem wrap \<and> \<not> IsCrazy wrap then Some st
       else case SafeDecrementRef wrap of (unused, wrap) \<Rightarrow>
         let st = set_view w wrap st in
         if \<not> unused then Some st
         else do {
           st \<leftarrow> (if IsCrazy wrap then unload_crazy env (UnloadLibrary n env) (GetCrazy wrap) st else Some st);
           delete_view w (st\<lparr>known_libraries := remove1 w (known_libraries st)\<rparr>)
         }
     }"

text \<open>The destructor of the list.\<close>

function LibraryList_end :: "('w::len) word library_list \<Rightarrow> 'w word library_list option" where
  "LibraryList_end st =
     (if known_libraries st = [] then Some (st\<lparr>ll_head := 0\<rparr>)
      else do {
        st' \<leftarrow> delete_view (last (known_libraries st)) (st\<lparr>ll_head := 0, known_libraries := butlast (known_libraries st)\<rparr>);
        LibraryList_end st'
      })"
  by pat_completeness auto
termination
proof (relation "measure (\<lambda>st. length (known_libraries st))", goal_cases)
  case (2 st st')
  then have "known_libraries st' = butlast (known_libraries st)"
    by (auto simp: delete_view_def delete_lib_def bind_eq_Some_conv Let_def split: if_splits)
  with 2 show ?case by simp
qed simp

declare LibraryList_end.simps [simp del]

section \<open>The graph of dependencies\<close>

definition library_deps :: "('w::len) word library_list \<Rightarrow> 'w word \<Rightarrow> 'w word list" where
  "library_deps st w =
     (case ll_views st w of
        None \<Rightarrow> []
      | Some v \<Rightarrow>
          if IsCrazy v then
            (case ll_libs st (GetCrazy v) of
               None \<Rightarrow> []
             | Some lib \<Rightarrow>
                 List.map_filter (known_dependency st)
                   (dependency_names (ll_vm st) (sl_symbols lib) (DependencyIterator_Init lib)))
          else [])"

lemma library_deps_cases: "library_deps st w = [] \<or> (\<exists>ns. library_deps st w = List.map_filter (known_dependency st) ns)"
  by (auto simp: library_deps_def split: option.splits)

lemma library_deps_known: "set (library_deps st w) \<subseteq> set (known_libraries st)"
proof -
  have "set (List.map_filter (known_dependency st) ns) \<subseteq> set (known_libraries st)" for ns
    by (auto simp: in_map_filter intro: known_dependency_known)
  then show ?thesis using library_deps_cases [of st w] by (elim disjE exE) simp_all
qed

interpretation deps: search_graph "known_libraries st" "library_deps st" w for st :: "('w::len) word library_list" and w
  by unfold_locales (rule library_deps_known)

text \<open>The definition of a symbol in a library: whether it is strong, and its address.\<close>

definition symbol_in ::
  "('w::len) word linker_env \<Rightarrow> 'w word library_list \<Rightarrow> byte list \<Rightarrow> 'w word \<Rightarrow> (bool \<times> 'w word) option" where
  "symbol_in env st name w =
     do {
       v \<leftarrow> ll_views st w;
       if IsCrazy v then do {
         lib \<leftarrow> ll_libs st (GetCrazy v);
         entry \<leftarrow> LookupSymbolEntry (ll_vm st) lib name;
         sy \<leftarrow> entry;
         Some (ELF_ST_BIND (st_info sy) = STB_GLOBAL, lib_bias lib + st_value sy)
       }
       else if IsSystem v \<and> le_dlsym env (lv_system v) name \<noteq> 0 then Some (True, le_dlsym env (lv_system v) name)
       else None
     }"

definition strong_in :: "('w::len) word linker_env \<Rightarrow> 'w word library_list \<Rightarrow> byte list \<Rightarrow> 'w word \<Rightarrow> bool" where
  "strong_in env st name w \<longleftrightarrow> map_option fst (symbol_in env st name w) = Some True"

text \<open>The objects of a library are there, its hash table is complete, and its strings end.\<close>

definition searchable :: "('w::len) word library_list \<Rightarrow> byte list \<Rightarrow> 'w word \<Rightarrow> bool" where
  "searchable st name w \<longleftrightarrow>
     (case ll_views st w of
        None \<Rightarrow> False
      | Some v \<Rightarrow> IsCrazy v \<longrightarrow>
          (case ll_libs st (GetCrazy v) of
             None \<Rightarrow> False
           | Some lib \<Rightarrow> LookupSymbolEntry (ll_vm st) lib name \<noteq> None \<and>
               (\<forall>n \<in> set (dependency_names (ll_vm st) (sl_symbols lib) (DependencyIterator_Init lib)).
                  cstr_at (ll_vm st) n \<noteq> None)))"

lemma push_dependencies_ok:
  assumes "\<forall>n \<in> set ns. cstr_at (ll_vm st) n \<noteq> None"
  shows "push_dependencies st ns queue V =
     Some (queue @ fresh V (List.map_filter (known_dependency st) ns),
       V \<union> set (fresh V (List.map_filter (known_dependency st) ns)))"
proof -
  have "\<exists>r. push_dependencies st ns queue V = Some r"
    using assms by (induction ns arbitrary: queue V) (auto split: option.split)
  then show ?thesis using push_dependencies_fresh by (metis surj_pair)
qed

text \<open>What the search returns when the libraries still to come are \<open>ws\<close>.\<close>

definition search_result ::
  "('w::len) word linker_env \<Rightarrow> 'w word library_list \<Rightarrow> byte list \<Rightarrow> 'w word list \<Rightarrow> 'w word symbol_lookup_state \<Rightarrow> 'w word" where
  "search_result env st name ws s =
     (case find (strong_in env st name) ws of
        Some w \<Rightarrow> snd (the (symbol_in env st name w))
      | None \<Rightarrow>
          if weak_count s \<ge> 1 then weak_addr s
          else case find (\<lambda>w. symbol_in env st name w \<noteq> None) ws of
            Some w \<Rightarrow> snd (the (symbol_in env st name w)) | None \<Rightarrow> 0)"

lemma search_result_Cons:
  "search_result env st name (w # ws) s =
     (case symbol_in env st name w of
        None \<Rightarrow> search_result env st name ws s
      | Some (strong, a) \<Rightarrow>
          if strong then a
          else search_result env st name ws
            (s\<lparr>weak_count := weak_count s + 1, weak_addr := (if weak_count s = 0 then a else weak_addr s)\<rparr>))"
  by (cases "symbol_in env st name w")
    (auto simp: search_result_def strong_in_def not_less_eq_eq split: option.splits)

lemma FindSymbol_loop_order:
  assumes "\<forall>x \<in> set (bfs_order (known_libraries st) (library_deps st) queue V). searchable st name x"
  shows "FindSymbol_loop env st name queue V s =
     Some (search_result env st name (bfs_order (known_libraries st) (library_deps st) queue V) s)"
  using assms
proof (induction env st name queue V s rule: FindSymbol_loop.induct)
  case (1 env st name V s)
  then show ?case by (simp add: search_result_def)
next
  case (2 env st name w queue V s)
  let ?ws = "bfs_order (known_libraries st) (library_deps st) (queue @ fresh V (library_deps st w))
    (V \<union> set (fresh V (library_deps st w)))"
  have order: "bfs_order (known_libraries st) (library_deps st) (w # queue) V = w # ?ws" by (rule deps.order_step)
  have "searchable st name w" using "2.prems" by (simp add: order)
  then obtain v where v: "ll_views st w = Some v" by (auto simp: searchable_def split: option.splits)
  have ws: "\<forall>x \<in> set ?ws. searchable st name x" using "2.prems" by (simp add: order)
  show ?case
  proof (cases "IsCrazy v")
    case False
    then have none: "library_deps st w = []" using v by (simp add: library_deps_def)
    then show ?thesis
      using v False ws "2.IH"(2-3) unfolding order
      by (auto simp: search_result_Cons symbol_in_def Let_def)
  next
    case True
    with v \<open>searchable st name w\<close> obtain lib entry where lib: "ll_libs st (GetCrazy v) = Some lib"
      "LookupSymbolEntry (ll_vm st) lib name = Some entry"
      "\<forall>n \<in> set (dependency_names (ll_vm st) (sl_symbols lib) (DependencyIterator_Init lib)). cstr_at (ll_vm st) n \<noteq> None"
      by (auto simp: searchable_def split: option.splits)
    have deps: "library_deps st w = List.map_filter (known_dependency st)
        (dependency_names (ll_vm st) (sl_symbols lib) (DependencyIterator_Init lib))"
      using v True lib by (simp add: library_deps_def)
    note push = push_dependencies_ok [OF lib(3), of queue V, folded deps]
    show ?thesis
    proof (cases "CheckSymbol (ll_vm st) name lib s")
      case None
      with lib show ?thesis by (auto simp: CheckSymbol_def Let_def split: option.splits if_splits)
    next
      case (Some fs)
      obtain found s' where fs: "fs = (found, s')" by force
      have sy: "search_result env st name (w # ?ws) s = (if found then found_addr s' else search_result env st name ?ws s')"
        using Some fs v True lib
        by (auto simp: CheckSymbol_def search_result_Cons symbol_in_def Let_def split: option.splits if_splits)
      show ?thesis
      proof (cases found)
        case False
        have "FindSymbol_loop env st name (queue @ fresh V (library_deps st w)) (V \<union> set (fresh V (library_deps st w))) s' =
            Some (search_result env st name ?ws s')"
          using "2.IH"(1) [OF v True lib(1) Some fs [symmetric] False push refl ws] .
        with False show ?thesis unfolding order sy by (simp add: v True lib(1) Some fs push)
      qed (simp add: order sy v True lib(1) Some fs)
    qed
  qed
qed

section \<open>An example process\<close>

text \<open>A library that exports nothing and needs \<open>f\<close>, and \<open>f\<close> with the symbol table of \<open>Elf_Symbols\<close>. The view
  \<open>0x12\<close> is a system library.\<close>

definition demo_env :: "32 word linker_env" where
  "demo_env = \<lparr>le_arch = ARM, le_machine = 40, le_os = tiny_os, le_files = (\<lambda>_. tiny_file), le_is_file = (\<lambda>_. False),
     le_cwd = ''/'', le_refuse = (\<lambda>_ _. False), le_dlopen = (\<lambda>_ _. 0x77), le_dlsym = (\<lambda>_ _. 0), le_wrapper = (\<lambda>_. 0),
     le_run = (\<lambda>_ vm. vm), le_run_jni = (\<lambda>_ _ vm. (0, vm)), le_rdebug = dbg_env, le_link_map = (\<lambda>p. p + 0x1000),
     le_new = (\<lambda>live. 0x40)\<rparr>"

definition demo_lib :: "32 word shared_library" where
  "demo_lib = names_library\<lparr>sl_symbols := sl_symbols names_library\<lparr>string_table := 49\<rparr>,
     sl_view := ElfView_Init\<lparr>ev_dynamic := 60, ev_dynamic_count := 1\<rparr>\<rparr>"

definition demo_dep :: "32 word shared_library" where
  "demo_dep = SharedLibrary_Init\<lparr>sl_symbols := sym_tables, sl_view := ElfView_Init\<lparr>ev_load_bias := 0x1000\<rparr>\<rparr>"

definition demo_list :: "32 word library_list" where
  "demo_list = (LibraryList_Init sym_image)\<lparr>
     ll_views := [0x10 \<mapsto> SetCrazy 0x20 ''a'' LibraryView_Init, 0x11 \<mapsto> SetCrazy 0x21 ''f'' LibraryView_Init,
                  0x12 \<mapsto> SetSystem 0x77 ''libc.so'' LibraryView_Init],
     ll_libs := [0x20 \<mapsto> demo_lib\<lparr>list_next := 0x21\<rparr>, 0x21 \<mapsto> demo_dep\<lparr>list_prev := 0x20\<rparr>],
     ll_live := [0x10, 0x20, 0x11, 0x21, 0x12], known_libraries := [0x12, 0x11, 0x10], ll_head := 0x20\<rparr>"

lemma demo_views:
  "ll_views demo_list 0x10 = Some (SetCrazy 0x20 ''a'' LibraryView_Init)"
  "ll_views demo_list 0x11 = Some (SetCrazy 0x21 ''f'' LibraryView_Init)"
  "ll_views demo_list 0x12 = Some (SetSystem 0x77 ''libc.so'' LibraryView_Init)"
  "ll_libs demo_list 0x20 = Some (demo_lib\<lparr>list_next := 0x21\<rparr>)"
  "ll_libs demo_list 0x21 = Some (demo_dep\<lparr>list_prev := 0x20\<rparr>)"
  "known_libraries demo_list = [0x12, 0x11, 0x10]" "ll_vm demo_list = sym_image"
  by (simp_all add: demo_list_def LibraryList_Init_def)

lemma view_simps [simp]:
  "IsCrazy (SetCrazy p name v)" "GetCrazy (SetCrazy p name v) = p" "\<not> IsCrazy (SetSystem h name v)"
  "IsSystem (SetSystem h name v)" "\<not> IsSystem (SetCrazy p name v)" "lv_system (SetSystem h name v) = h"
  "lv_name (SetCrazy p name v) = name" "lv_name (SetSystem h name v) = name"
  "lv_crazy (SetCrazy p name v) = p"
  "lv_ref_count (SetCrazy p name v) = lv_ref_count v" "lv_ref_count (SetSystem h name v) = lv_ref_count v"
  by (simp_all add: SetCrazy_def SetSystem_def IsCrazy_def IsSystem_def GetCrazy_def)

lemma demo_names:
  "dependency_names sym_image (sl_symbols demo_lib) (DependencyIterator_Init demo_lib) = [49]"
  "dependency_names sym_image (sl_symbols demo_dep) (DependencyIterator_Init demo_dep) = []"
  "cstr_at sym_image 49 = Some [102]"
proof -
  have tag: "read_addr sym_image 60 = 1" "read_addr sym_image 64 = 0"
    by (simp_all add: read_addr_def addr_size_def image_eval upt_rec)
  show "dependency_names sym_image (sl_symbols demo_lib) (DependencyIterator_Init demo_lib) = [49]"
    by (simp add: demo_lib_def names_library_def DependencyIterator_Init_def dynamic_entries_def DynamicIterator_Init_def
        dyn_HasNext_def dyn_GetNext_def sizeof_Dyn_def dependency_names.simps dyn_GetTag_def dyn_GetValue_def
        dyn_GetValuePointer_def addr_size_def tag DT_NEEDED_def GetStringById_def)
  show "dependency_names sym_image (sl_symbols demo_dep) (DependencyIterator_Init demo_dep) = []"
    by (simp add: demo_dep_def DependencyIterator_Init_def dynamic_entries_def DynamicIterator_Init_def dyn_HasNext_def
        ElfView_Init_def dependency_names.simps)
  show "cstr_at sym_image 49 = Some [102]"
    by (subst cstr_at.simps, subst cstr_at.simps) (simp add: sym_image_def)
qed

lemma demo_deps: "library_deps demo_list 0x10 = [0x11]" "library_deps demo_list 0x11 = []"
proof -
  have "chars_of [102] = ''f''" by code_simp
  then have "known_dependency demo_list 49 = Some 0x11"
    by (simp add: known_dependency_def demo_views demo_names FindKnownLibrary_def view_named_def GetBaseNamePtr_id)
  then show "library_deps demo_list 0x10 = [0x11]" "library_deps demo_list 0x11 = []"
    using demo_names
    by (simp_all add: library_deps_def demo_views DependencyIterator_Init_def map_filter_simps)
qed

section \<open>Properties\<close>

text \<open>C5: A search for a symbol ends, also when libraries depend on each other in a cycle. It returns a
  strong definition in a library that is nearest to the start in the graph of dependencies; when there is
  no strong one, a weak definition in a nearest library that has one; and null only when no library that
  can be reached defines the symbol.\<close>

theorem FindSymbolFrom_nearest:
  assumes "\<forall>x \<in> reach_from (library_deps st) w. searchable st name x"
  shows "\<exists>a. FindSymbolFrom env st name (Some w) = Some a \<and>
     (let R = reach_from (library_deps st) w; dist = dist_from (library_deps st) w in
      if \<exists>x \<in> R. strong_in env st name x
      then \<exists>x \<in> R. symbol_in env st name x = Some (True, a) \<and> (\<forall>y \<in> R. strong_in env st name y \<longrightarrow> dist x \<le> dist y)
      else if \<exists>x \<in> R. symbol_in env st name x \<noteq> None
      then \<exists>x \<in> R. symbol_in env st name x = Some (False, a) \<and> (\<forall>y \<in> R. symbol_in env st name y \<noteq> None \<longrightarrow> dist x \<le> dist y)
      else a = 0)"
proof -
  let ?order = "bfs_order (known_libraries st) (library_deps st) [w] {}"
  let ?a = "search_result env st name ?order SymbolLookupState_Init"
  have run: "FindSymbolFrom env st name (Some w) = Some ?a"
    using FindSymbol_loop_order [of st "[w]" "{}" name env] assms by (simp add: FindSymbolFrom_def deps.bfs_from_start(1))
  show ?thesis
  proof (cases "find (strong_in env st name) ?order")
    case (Some x)
    note near = deps.find_nearest [OF Some]
    then obtain a where "symbol_in env st name x = Some (True, a)" by (auto simp: strong_in_def)
    with Some near run show ?thesis by (auto simp: search_result_def Let_def)
  next
    case None
    then have weak: "\<not> strong_in env st name y" if "y \<in> reach_from (library_deps st) w" for y
      using that by (simp add: deps.find_unreached)
    show ?thesis
    proof (cases "find (\<lambda>w. symbol_in env st name w \<noteq> None) ?order")
      case (Some x)
      note near = deps.find_nearest [OF Some]
      then obtain a where "symbol_in env st name x = Some (False, a)"
        using weak [of x] by (auto simp: strong_in_def)
      with None Some near run weak show ?thesis by (auto simp: search_result_def SymbolLookupState_Init_def Let_def)
    next
      case missing: None
      with None have "?a = 0" by (simp add: search_result_def SymbolLookupState_Init_def)
      moreover have "symbol_in env st name y = None" if "y \<in> reach_from (library_deps st) w" for y
        using missing that unfolding deps.find_unreached by blast
      ultimately show ?thesis using run weak by (simp add: Let_def)
    qed
  qed
qed

theorem FindSymbolFrom_nearest_witness: "FindSymbolFrom demo_env demo_list [102] (Some 0x10) = Some 0x1100"
proof -
  have reach: "x = 0x10 \<or> x = 0x11" if "x \<in> reach_from (library_deps demo_list) 0x10" for x
  proof -
    have "(0x10, x) \<in> (succ_edges (library_deps demo_list))\<^sup>*" using that by (simp add: reach_from_def)
    then show ?thesis by induction (auto simp: succ_edges_def demo_deps)
  qed
  have table: "hash_table_ok sym_image (sl_symbols demo_lib) [102]"
    using names_table_ok by (simp add: hash_table_ok_def demo_lib_def names_library_def bucket_of_def)
  then have a: "LookupSymbolEntry sym_image demo_lib [102] = Some None"
    by (cases rule: LookupSymbolEntry_defines) (auto simp: defines_at_def exported_def demo_lib_def names_library_def)
  have one: "exported sym_image (sl_symbols demo_dep) [102] = {Suc 0}"
    using image_name by (auto simp: exported_def image_sym SHN_UNDEF_def ELF_ST_BIND_def STB_GLOBAL_def image_size demo_dep_def)
  have "hash_table_ok sym_image (sl_symbols demo_dep) [102]" using image_table_ok by (simp add: demo_dep_def)
  from LookupByName_exported [OF this] one have f: "LookupSymbolEntry sym_image demo_dep [102] =
      Some (Some \<lparr>st_name = 1, st_value = 0x100, st_size = 16, st_info = 0x12, st_shndx = 5\<rparr>)"
    by (auto simp: LookupSymbolEntry_def demo_dep_def image_sym split: option.splits)
  have entry: "LookupSymbolEntry vm (lib\<lparr>list_next := n\<rparr>) name = LookupSymbolEntry vm lib name"
    "LookupSymbolEntry vm (lib\<lparr>list_prev := n\<rparr>) name = LookupSymbolEntry vm lib name" for vm lib n name
    by (simp_all add: LookupSymbolEntry_def)
  have none: "symbol_in demo_env demo_list [102] 0x10 = None"
    and strong: "symbol_in demo_env demo_list [102] 0x11 = Some (True, 0x1100)"
    using a f by (simp_all add: symbol_in_def demo_views entry ELF_ST_BIND_def STB_GLOBAL_def)
      (simp add: demo_dep_def)
  have "searchable demo_list [102] x" if "x \<in> reach_from (library_deps demo_list) 0x10" for x
    using reach [OF that] a f demo_names
    by (auto simp: searchable_def demo_views entry DependencyIterator_Init_def)
  then obtain b where b: "FindSymbolFrom demo_env demo_list [102] (Some 0x10) = Some b"
    "\<exists>x \<in> reach_from (library_deps demo_list) 0x10. strong_in demo_env demo_list [102] x \<Longrightarrow>
     \<exists>x \<in> reach_from (library_deps demo_list) 0x10. symbol_in demo_env demo_list [102] x = Some (True, b)"
    using FindSymbolFrom_nearest [of demo_list "0x10" "[102]" demo_env] unfolding Let_def by (smt (verit))
  have "0x11 \<in> reach_from (library_deps demo_list) 0x10"
    by (auto simp: reach_from_def succ_edges_def demo_deps intro!: r_into_rtrancl)
  moreover have "strong_in demo_env demo_list [102] 0x11" by (simp add: strong_in_def strong)
  ultimately obtain x where "x \<in> reach_from (library_deps demo_list) 0x10" "symbol_in demo_env demo_list [102] x = Some (True, b)"
    using b(2) by blast
  with reach [of x] none strong b(1) show ?thesis by auto
qed

end
