(* ===== verification/Library_Objects.thy ===== *)
theory Library_Objects
  imports Library_List
begin

text \<open>
  The objects of a \<open>LibraryList\<close> and their life: every view in \<open>known_libraries_\<close> is alive and counted,
  every \<open>SharedLibrary\<close> belongs to exactly one view or to a call of \<open>LoadLibrary\<close> that has not returned,
  and the list at \<open>head_\<close> links exactly the libraries in use. Loading and unloading keep this, on every
  path, and the recursion of \<open>UnloadLibrary\<close> is never deeper than the number of libraries.
\<close>

section \<open>The invariant\<close>

definition crazy_of :: "('w::len) word library_list \<Rightarrow> 'w word \<Rightarrow> 'w word option" where
  "crazy_of st w = (case ll_views st w of None \<Rightarrow> None | Some v \<Rightarrow> if IsCrazy v then Some (lv_crazy v) else None)"

text \<open>\<open>D\<close> is the set of views that are being unloaded: their count is used up, and they are still
  known. \<open>P\<close> is the set of libraries that are being loaded.\<close>

definition objects :: "'w word set \<Rightarrow> 'w word set \<Rightarrow> ('w::len) word library_list \<Rightarrow> bool" where
  "objects D P st \<longleftrightarrow>
     distinct (known_libraries st) \<and> dom (ll_views st) = set (known_libraries st) \<and> D \<subseteq> set (known_libraries st) \<and>
     (\<forall>w v. ll_views st w = Some v \<longrightarrow> lv_type v \<noteq> TYPE_NONE \<and> (1 \<le> lv_ref_count v \<longleftrightarrow> w \<notin> D)) \<and>
     (\<forall>w w' p. crazy_of st w = Some p \<and> crazy_of st w' = Some p \<longrightarrow> w = w') \<and>
     dom (ll_libs st) = ran (crazy_of st) \<union> P \<and> ran (crazy_of st) \<inter> P = {} \<and>
     set (ll_live st) = dom (ll_views st) \<union> dom (ll_libs st) \<and> 0 \<notin> set (ll_live st) \<and>
     dom (ll_views st) \<inter> dom (ll_libs st) = {}"

definition lib_next :: "('w::len) word library_list \<Rightarrow> 'w word \<Rightarrow> 'w word" where
  "lib_next st = (\<lambda>p. list_next (the (ll_libs st p)))"

definition lib_prev :: "('w::len) word library_list \<Rightarrow> 'w word \<Rightarrow> 'w word" where
  "lib_prev st = (\<lambda>p. list_prev (the (ll_libs st p)))"

definition chain :: "('w::len) word list \<Rightarrow> 'w word library_list \<Rightarrow> bool" where
  "chain xs st \<longleftrightarrow> distinct xs \<and> set xs \<subseteq> dom (ll_libs st) \<and> ll_head st = first xs 0 \<and>
     links (lib_next st) (lib_prev st) 0 xs 0"

definition in_use :: "'w word set \<Rightarrow> ('w::len) word library_list \<Rightarrow> 'w word set" where
  "in_use D st = {p. \<exists>w. w \<notin> D \<and> crazy_of st w = Some p}"

definition list_inv :: "'w word set \<Rightarrow> 'w word set \<Rightarrow> ('w::len) word library_list \<Rightarrow> bool" where
  "list_inv D P st \<longleftrightarrow> objects D P st \<and> (\<exists>xs. chain xs st \<and> set xs = in_use D st)"

section \<open>Frames\<close>

lemma frame_simps [simp]:
  "crazy_of (st\<lparr>ll_vm := vm\<rparr>) = crazy_of st" "crazy_of (st\<lparr>ll_rdebug := rd\<rparr>) = crazy_of st"
  "crazy_of (st\<lparr>ll_brks := b\<rparr>) = crazy_of st" "crazy_of (st\<lparr>ll_calls := c\<rparr>) = crazy_of st"
  "crazy_of (st\<lparr>ll_closed := c\<rparr>) = crazy_of st" "crazy_of (st\<lparr>ll_live := l\<rparr>) = crazy_of st"
  "crazy_of (st\<lparr>ll_libs := m\<rparr>) = crazy_of st" "crazy_of (st\<lparr>known_libraries := ws\<rparr>) = crazy_of st"
  "crazy_of (set_lib p lib st) = crazy_of st"
  by (simp_all add: fun_eq_iff crazy_of_def set_lib_def)

lemma list_inv_frame [simp]:
  "list_inv D P (st\<lparr>ll_vm := vm\<rparr>) = list_inv D P st" "list_inv D P (st\<lparr>ll_rdebug := rd\<rparr>) = list_inv D P st"
  "list_inv D P (st\<lparr>ll_brks := b\<rparr>) = list_inv D P st" "list_inv D P (st\<lparr>ll_calls := c\<rparr>) = list_inv D P st"
  "list_inv D P (st\<lparr>ll_closed := c\<rparr>) = list_inv D P st"
  by (simp_all add: list_inv_def objects_def chain_def in_use_def lib_next_def lib_prev_def fun_eq_iff)

lemma chain_cong:
  assumes "chain xs st" "ll_head st' = ll_head st" "\<And>p. p \<in> set xs \<Longrightarrow> ll_libs st' p = ll_libs st p"
  shows "chain xs st'"
proof -
  have "links (lib_next st) (lib_prev st) 0 xs 0 = links (lib_next st') (lib_prev st') 0 xs 0"
    by (rule links_cong) (simp add: assms(3) lib_next_def lib_prev_def)
  moreover have "set xs \<subseteq> dom (ll_libs st')" using assms(1,3) by (fastforce simp: chain_def)
  ultimately show ?thesis using assms(1,2) by (simp add: chain_def)
qed

lemma with_debug_frame:
  assumes "with_debug f st = Some st'"
  shows "list_inv D P st' = list_inv D P st" "known_libraries st' = known_libraries st" "ll_libs st' = ll_libs st"
    "ll_views st' = ll_views st"
  using assms by (auto simp: with_debug_def bind_eq_Some_conv)

section \<open>Steps on the objects\<close>

lemma set_view_counts:
  assumes "ll_views st w = Some v" "lv_type v' = lv_type v" "lv_crazy v' = lv_crazy v"
    and "1 \<le> lv_ref_count v' \<longleftrightarrow> 1 \<le> lv_ref_count v"
  shows "list_inv D P (set_view w v' st) = list_inv D P st"
proof -
  have "crazy_of (set_view w v' st) = crazy_of st"
    using assms by (auto simp: fun_eq_iff crazy_of_def set_view_def IsCrazy_def)
  moreover have "dom (ll_views (set_view w v' st)) = dom (ll_views st)" using assms(1) by (auto simp: set_view_def)
  moreover have "(\<forall>x u. ll_views (set_view w v' st) x = Some u \<longrightarrow> lv_type u \<noteq> TYPE_NONE \<and> (1 \<le> lv_ref_count u \<longleftrightarrow> x \<notin> D)) =
      (\<forall>x u. ll_views st x = Some u \<longrightarrow> lv_type u \<noteq> TYPE_NONE \<and> (1 \<le> lv_ref_count u \<longleftrightarrow> x \<notin> D))"
    using assms by (simp add: set_view_def) (metis option.inject)
  moreover have "chain xs (set_view w v' st) = chain xs st" for xs
    by (simp add: chain_def set_view_def lib_next_def lib_prev_def fun_eq_iff)
  ultimately show ?thesis unfolding list_inv_def objects_def in_use_def by (simp add: set_view_def)
qed

text \<open>A view whose count is used up.\<close>

lemma set_view_dies:
  assumes "objects D P st" "ll_views st w = Some v" "lv_type v' = lv_type v" "lv_crazy v' = lv_crazy v" "lv_ref_count v' < 1"
  shows "objects (insert w D) P (set_view w v' st)" "crazy_of (set_view w v' st) = crazy_of st"
proof -
  show c: "crazy_of (set_view w v' st) = crazy_of st"
    using assms by (auto simp: fun_eq_iff crazy_of_def set_view_def IsCrazy_def)
  have "dom (ll_views (set_view w v' st)) = dom (ll_views st)" using assms(2) by (auto simp: set_view_def)
  with c show "objects (insert w D) P (set_view w v' st)"
    using assms unfolding objects_def by (auto simp: set_view_def)
qed

lemma new_object_fresh:
  assumes "new_object env st = Some (a, st')"
  shows "a \<noteq> 0" "a \<notin> set (ll_live st)" "st' = st\<lparr>ll_live := a # ll_live st\<rparr>"
  using assms by (auto simp: new_object_def Let_def split: if_splits)

lemma new_lib:
  assumes "list_inv D P st" "new_object env st = Some (p, st')"
  shows "list_inv D (insert p P) (set_lib p lib st')" "p \<notin> P"
proof -
  note new = new_object_fresh [OF assms(2)]
  have o: "objects D P st" using assms(1) by (simp add: list_inv_def)
  have fresh: "p \<notin> dom (ll_libs st)" "p \<notin> dom (ll_views st)" using o new by (auto simp: objects_def)
  then have "p \<notin> ran (crazy_of st)" "p \<notin> P" using o by (auto simp: objects_def)
  with o new fresh have "objects D (insert p P) (set_lib p lib st')"
    by (auto simp: objects_def set_lib_def)
  moreover obtain xs where xs: "chain xs st" "set xs = in_use D st" using assms(1) by (auto simp: list_inv_def)
  moreover have "chain xs (set_lib p lib st')"
    using xs(1) by (rule chain_cong) (use xs fresh new in \<open>auto simp: set_lib_def chain_def\<close>)
  ultimately show "list_inv D (insert p P) (set_lib p lib st')"
    using new by (auto simp: list_inv_def in_use_def)
  show "p \<notin> P" by fact
qed

lemma pending_not_linked:
  assumes "objects D P st" "p \<in> P" shows "p \<notin> in_use D' st"
  using assms by (auto simp: objects_def in_use_def ran_def)

lemma set_pending:
  assumes "list_inv D P st" "p \<in> P"
  shows "list_inv D P (set_lib p lib st)"
proof -
  obtain xs where xs: "chain xs st" "set xs = in_use D st" and o: "objects D P st" using assms(1) by (auto simp: list_inv_def)
  have "objects D P (set_lib p lib st)"
    using o assms(2) by (auto simp: objects_def set_lib_def)
  moreover have "chain xs (set_lib p lib st)"
    using xs(1) by (rule chain_cong) (use xs pending_not_linked [OF o assms(2), of D] in \<open>auto simp: set_lib_def\<close>)
  ultimately show ?thesis using xs by (auto simp: list_inv_def in_use_def)
qed

lemma delete_pending:
  assumes "list_inv D P st" "p \<in> P" "delete_lib p st = Some st'"
  shows "list_inv D (P - {p}) st'" "known_libraries st' = known_libraries st"
proof -
  obtain xs where xs: "chain xs st" "set xs = in_use D st" and o: "objects D P st" using assms(1) by (auto simp: list_inv_def)
  obtain vm where st': "st' = st\<lparr>ll_vm := vm, ll_libs := (ll_libs st)(p := None), ll_live := removeAll p (ll_live st)\<rparr>"
    using assms(3) by (auto simp: delete_lib_def bind_eq_Some_conv)
  have "objects D (P - {p}) st'"
    using o assms(2) unfolding st' by (auto simp: objects_def)
  moreover have "chain xs st'"
    using xs(1) by (rule chain_cong) (use xs pending_not_linked [OF o assms(2), of D] in \<open>auto simp: st'\<close>)
  ultimately show "list_inv D (P - {p}) st'" using xs by (auto simp: list_inv_def in_use_def st')
  show "known_libraries st' = known_libraries st" by (simp add: st')
qed

section \<open>Steps on the list\<close>

lemma chain_memb: "chain xs st \<Longrightarrow> p \<in> set xs \<Longrightarrow> \<exists>lib. ll_libs st p = Some lib"
  by (auto simp: chain_def)

text \<open>The fields of the other objects, and of the state, that the operations on the list leave alone.\<close>

definition same_but_links :: "('w::len) word library_list \<Rightarrow> 'w word library_list \<Rightarrow> bool" where
  "same_but_links st st' \<longleftrightarrow> ll_views st' = ll_views st \<and> dom (ll_libs st') = dom (ll_libs st) \<and>
     known_libraries st' = known_libraries st \<and> ll_live st' = ll_live st"

lemma same_but_links_objects: "same_but_links st st' \<Longrightarrow> objects D P st' = objects D P st"
  "same_but_links st st' \<Longrightarrow> crazy_of st' = crazy_of st"
proof -
  assume s: "same_but_links st st'"
  then show c: "crazy_of st' = crazy_of st" by (simp add: same_but_links_def crazy_of_def fun_eq_iff)
  show "objects D P st' = objects D P st" using s by (simp add: objects_def c same_but_links_def)
qed

lemma push_front_chain:
  assumes "chain xs st" "p \<notin> set xs" "p \<noteq> 0" "push_front p st = Some st'"
  shows "chain (p # xs) st'" "same_but_links st st'"
proof -
  obtain lib where lib: "ll_libs st p = Some lib" using assms(4) by (auto simp: push_front_def bind_eq_Some_conv)
  have head: "ll_head st = first xs 0" using assms(1) by (simp add: chain_def)
  have nz: "first xs 0 \<noteq> 0 \<longleftrightarrow> xs \<noteq> []" "xs \<noteq> [] \<Longrightarrow> first xs 0 \<in> set xs"
    using assms(1) by (auto simp: chain_def first_def split: list.splits)
  define old where "old = the (ll_libs st (first xs 0))"
  have old: "ll_libs st (first xs 0) = Some old" if "xs \<noteq> []"
    using chain_memb [OF assms(1) nz(2) [OF that]] by (auto simp: old_def)
  have st': "st' = (let s1 = set_lib p (lib\<lparr>list_next := first xs 0, list_prev := 0\<rparr>) st in
      if xs = [] then s1 else set_lib (first xs 0) (old\<lparr>list_prev := p\<rparr>) s1)\<lparr>ll_head := p\<rparr>"
  proof (cases "xs = []")
    case False
    then have "first xs 0 \<noteq> p" using nz(2) assms(2) by auto
    with False show ?thesis using assms(4) lib head nz old by (simp add: push_front_def Let_def set_lib_def)
  qed (use assms(4) lib head in \<open>simp add: push_front_def Let_def set_lib_def\<close>)
  show "same_but_links st st'"
    using lib old by (auto simp: st' Let_def set_lib_def same_but_links_def)
  have nx: "lib_next st' x = (if x = p then first xs 0 else lib_next st x)"
    and pv: "lib_prev st' x = (if x = p then 0 else if x = first xs 0 then p else lib_prev st x)"
    if "x \<in> insert p (set xs)" for x
    using that assms(2) nz old by (auto simp: st' Let_def set_lib_def lib_next_def lib_prev_def)
  have "links (lib_next st') (lib_prev st') p xs 0"
  proof (cases xs)
    case (Cons x ys)
    show ?thesis
    proof (rule links_relink_start)
      show "links (lib_next st) (lib_prev st) 0 xs 0" "distinct xs" using assms(1) by (simp_all add: chain_def)
      show "lib_prev st' (first xs 0) = p" using pv [of x] Cons assms(2) by auto
    qed (use assms(2) nx pv in auto)
  qed simp
  moreover have "ll_head st' = p" "set (p # xs) \<subseteq> dom (ll_libs st')"
    using assms(1) lib by (auto simp: st' Let_def set_lib_def chain_def)
  ultimately show "chain (p # xs) st'" using assms nx [of p] pv [of p] by (simp add: chain_def)
qed

lemma links_ends:
  "links nx pv 0 (xs @ e # ys) 0 \<Longrightarrow> pv e = final 0 xs \<and> nx e = first ys 0"
  by (simp add: links_append)

lemma unlink_chain:
  assumes "chain (xs @ p # ys) st"
  obtains st' where "unlink_library p st = Some st'" "chain (xs @ ys) st'" "same_but_links st st'"
    "\<exists>lib. ll_libs st' p = Some lib"
proof -
  have l: "links (lib_next st) (lib_prev st) 0 (xs @ p # ys) 0" and d: "distinct (xs @ p # ys)"
    and sub: "set (xs @ p # ys) \<subseteq> dom (ll_libs st)" and head: "ll_head st = first (xs @ p # ys) 0"
    using assms by (simp_all add: chain_def)
  obtain lib where lib: "ll_libs st p = Some lib" using sub by auto
  have n: "list_next lib = first ys 0" and v: "list_prev lib = final 0 xs"
    using links_ends [OF l] lib by (simp_all add: lib_next_def lib_prev_def)
  have nz: "x \<noteq> 0" if "x \<in> set xs \<union> set ys" for x using links_nonzero [OF l, of x] that by auto
  have fy: "first ys 0 \<noteq> 0 \<longleftrightarrow> ys \<noteq> []" "ys \<noteq> [] \<Longrightarrow> first ys 0 = hd ys" "ys \<noteq> [] \<Longrightarrow> hd ys \<in> set ys"
    using nz by (cases ys; auto)+
  have fx: "final 0 xs \<noteq> 0 \<longleftrightarrow> xs \<noteq> []" "xs \<noteq> [] \<Longrightarrow> final 0 xs = last xs" "xs \<noteq> [] \<Longrightarrow> last xs \<in> set xs"
    using nz by (auto simp: final_def)
  have out: "ys \<noteq> [] \<Longrightarrow> p \<noteq> hd ys" "xs \<noteq> [] \<Longrightarrow> p \<noteq> last xs" "xs \<noteq> [] \<Longrightarrow> ys \<noteq> [] \<Longrightarrow> last xs \<noteq> hd ys"
    using d fx(3) fy(3) by (auto dest: last_in_set)
  define nxt where "nxt = the (ll_libs st (hd ys))"
  define prv where "prv = the (ll_libs st (last xs))"
  have nxt: "ys \<noteq> [] \<Longrightarrow> ll_libs st (hd ys) = Some nxt" and prv: "xs \<noteq> [] \<Longrightarrow> ll_libs st (last xs) = Some prv"
    using chain_memb [OF assms, of "hd ys"] chain_memb [OF assms, of "last xs"] fx(3) fy(3)
    unfolding nxt_def prv_def by auto
  define st1 where "st1 = (if ys \<noteq> [] then set_lib (hd ys) (nxt\<lparr>list_prev := final 0 xs\<rparr>) st else st)"
  define st2 where "st2 = (if xs \<noteq> [] then set_lib (last xs) (prv\<lparr>list_next := first ys 0\<rparr>) st1 else st1)"
  define st3 where "st3 = (if xs = [] then st2\<lparr>ll_head := first ys 0\<rparr> else st2)"
  have libs1: "ll_libs st1 p = Some lib" "xs \<noteq> [] \<Longrightarrow> ll_libs st1 (last xs) = Some prv"
    using lib out(1,3) prv unfolding st1_def set_lib_def by simp_all
  then have libs2: "ll_libs st2 p = Some lib" using out(2) unfolding st2_def set_lib_def by simp
  have "ll_head st2 = first xs p" using head by (simp add: st1_def st2_def set_lib_def)
  then have h: "p = ll_head st2 \<longleftrightarrow> xs = []" using d by (cases xs) auto
  have step1: "(if list_next lib \<noteq> 0
      then Option.bind (ll_libs st (list_next lib)) (\<lambda>nx. Some (set_lib (list_next lib) (nx\<lparr>list_prev := list_prev lib\<rparr>) st))
      else Some st) = Some st1"
    using n v fy nxt by (cases "ys = []") (simp_all add: st1_def)
  have step2: "(if list_prev lib \<noteq> 0
      then Option.bind (ll_libs st1 (list_prev lib)) (\<lambda>pv. Some (set_lib (list_prev lib) (pv\<lparr>list_next := list_next lib\<rparr>) st1))
      else Some st1) = Some st2"
    using n v fx libs1 by (cases "xs = []") (simp_all add: st2_def)
  have run: "unlink_library p st = Some st3"
    unfolding unlink_library_def lib Option.bind.simps step1 libs1 libs2 step2 by (simp only: h n st3_def)
  have other: "ll_views st3 = ll_views st" "known_libraries st3 = known_libraries st" "ll_live st3 = ll_live st"
    by (simp_all add: st1_def st2_def st3_def set_lib_def)
  have libs3: "ll_libs st3 x = (if xs \<noteq> [] \<and> x = last xs then Some (prv\<lparr>list_next := first ys 0\<rparr>)
      else if ys \<noteq> [] \<and> x = hd ys then Some (nxt\<lparr>list_prev := final 0 xs\<rparr>) else ll_libs st x)" for x
    by (simp add: st1_def st2_def st3_def set_lib_def)
  have same: "same_but_links st st3"
    unfolding same_but_links_def other using nxt prv by (auto simp: libs3 dom_def)
  have nx3: "lib_next st3 x = (if xs \<noteq> [] \<and> x = last xs then first ys 0 else lib_next st x)"
    and pv3: "lib_prev st3 x = (if ys \<noteq> [] \<and> x = hd ys then final 0 xs else lib_prev st x)" for x
    using out(3) prv nxt unfolding lib_next_def lib_prev_def libs3 by auto
  show ?thesis
  proof (rule that [OF run _ same])
    show "\<exists>lib. ll_libs st3 p = Some lib" using lib out by (auto simp: libs3)
    have "links (lib_next st3) (lib_prev st3) 0 (xs @ ys) 0" by (rule links_remove [OF l d nx3 pv3])
    moreover have "ll_head st3 = first (xs @ ys) 0"
      using head by (cases xs) (simp_all add: st1_def st2_def st3_def set_lib_def)
    moreover have "dom (ll_libs st3) = dom (ll_libs st)" using same by (simp add: same_but_links_def)
    ultimately show "chain (xs @ ys) st3" using sub d by (auto simp: chain_def)
  qed
qed

section \<open>Views\<close>

lemma new_system_view:
  assumes "list_inv {} P st" "new_object env st = Some (w, st1)"
  shows "list_inv {} P (AddLibrary w (set_view w (SetSystem h name LibraryView_Init) st1))"
proof -
  let ?st = "AddLibrary w (set_view w (SetSystem h name LibraryView_Init) st1)"
  note new = new_object_fresh [OF assms(2)]
  obtain xs where xs: "chain xs st" "set xs = in_use {} st" and o: "objects {} P st" using assms(1) by (auto simp: list_inv_def)
  have fresh: "w \<notin> dom (ll_libs st)" "w \<notin> dom (ll_views st)" using o new by (auto simp: objects_def)
  then have c: "crazy_of ?st = crazy_of st"
    using new by (auto simp: fun_eq_iff crazy_of_def AddLibrary_def set_view_def)
  have "objects {} P ?st"
    using o new fresh unfolding objects_def c
    by (auto simp: AddLibrary_def set_view_def SetSystem_def LibraryView_Init_def)
  moreover have "chain xs ?st"
    using xs(1) by (rule chain_cong) (simp_all add: AddLibrary_def set_view_def new)
  ultimately show ?thesis using xs c by (auto simp: list_inv_def in_use_def)
qed

lemma new_crazy_view:
  assumes "objects {} P st" "p \<in> P" "chain (p # xs) st" "set xs = in_use {} st" "new_object env st = Some (w, st1)"
  shows "list_inv {} (P - {p}) (AddLibrary w (set_view w (SetCrazy p name LibraryView_Init) st1))"
proof -
  let ?st = "AddLibrary w (set_view w (SetCrazy p name LibraryView_Init) st1)"
  note o = assms(1) and new = new_object_fresh [OF assms(5)]
  have fresh: "w \<notin> dom (ll_libs st)" "w \<notin> dom (ll_views st)" using o new by (auto simp: objects_def)
  then have c: "crazy_of ?st = (crazy_of st)(w := Some p)"
    using new by (auto simp: fun_eq_iff crazy_of_def AddLibrary_def set_view_def)
  have none: "crazy_of st w = None" using fresh by (auto simp: crazy_of_def split: option.splits)
  then have r: "ran (crazy_of ?st) = insert p (ran (crazy_of st))" unfolding c by simp
  have np: "p \<notin> ran (crazy_of st)" using o assms(2) by (auto simp: objects_def)
  have inj: "\<forall>x y q. crazy_of ?st x = Some q \<and> crazy_of ?st y = Some q \<longrightarrow> x = y"
    using o np unfolding c objects_def by (auto simp: ran_def)
  have "objects {} (P - {p}) ?st"
    using o new fresh np assms(2) inj unfolding objects_def r
    by (auto simp: AddLibrary_def set_view_def SetCrazy_def LibraryView_Init_def)
  moreover have "chain (p # xs) ?st"
    using assms(3) by (rule chain_cong) (simp_all add: AddLibrary_def set_view_def new)
  moreover have "in_use {} ?st = insert p (in_use {} st)"
  proof -
    have "(\<exists>x. crazy_of ?st x = Some q) \<longleftrightarrow> q = p \<or> (\<exists>x. crazy_of st x = Some q)" for q
      unfolding c using none by (metis fun_upd_apply option.distinct(1) option.inject)
    then show ?thesis by (auto simp: in_use_def)
  qed
  ultimately show ?thesis using assms(4) by (auto simp: list_inv_def intro!: exI [of _ "p # xs"])
qed

lemma objects_sets:
  assumes "objects D P st"
  shows "dom (ll_views st) = set (known_libraries st)" "D \<subseteq> set (known_libraries st)"
    "dom (ll_libs st) = ran (crazy_of st) \<union> P" "ran (crazy_of st) \<inter> P = {}"
    "set (ll_live st) = dom (ll_views st) \<union> dom (ll_libs st)" "0 \<notin> set (ll_live st)"
    "dom (ll_views st) \<inter> dom (ll_libs st) = {}" "distinct (known_libraries st)"
  using assms unfolding objects_def by metis+

lemma objects_inj: "objects D P st \<Longrightarrow> crazy_of st x = Some p \<Longrightarrow> crazy_of st y = Some p \<Longrightarrow> x = y"
  unfolding objects_def by metis

lemma objects_view:
  "objects D P st \<Longrightarrow> ll_views st w = Some v \<Longrightarrow> lv_type v \<noteq> TYPE_NONE \<and> (1 \<le> lv_ref_count v \<longleftrightarrow> w \<notin> D)"
  unfolding objects_def by metis

lemma known_view:
  assumes "objects D P st" "w \<in> set (known_libraries st)" shows "\<exists>v. ll_views st w = Some v"
proof -
  have "w \<in> dom (ll_views st)" using assms by (simp add: objects_def)
  then show ?thesis by blast
qed

lemma delete_dying_view:
  assumes inv: "list_inv (insert w D) P st" "w \<notin> D"
    and del: "delete_view w (st\<lparr>known_libraries := remove1 w (known_libraries st)\<rparr>) = Some st'"
  shows "list_inv D P st'" "set (known_libraries st') = set (known_libraries st) - {w}"
proof -
  have o: "objects (insert w D) P st" using inv by (simp add: list_inv_def)
  obtain xs where xs: "chain xs st" "set xs = in_use (insert w D) st" using inv by (auto simp: list_inv_def)
  have wk: "w \<in> set (known_libraries st)" "distinct (known_libraries st)" using o by (auto simp: objects_def)
  obtain v where v: "ll_views st w = Some v" using known_view [OF o wk(1)] by blast
  have st': "ll_views st' = (ll_views st)(w := None) \<and> known_libraries st' = remove1 w (known_libraries st) \<and>
      ll_head st' = ll_head st \<and>
      (if IsCrazy v then ll_libs st' = (ll_libs st)(lv_crazy v := None) \<and> ll_live st' = removeAll w (removeAll (lv_crazy v) (ll_live st))
       else ll_libs st' = ll_libs st \<and> ll_live st' = removeAll w (ll_live st))"
    using del v by (auto simp: delete_view_def delete_lib_def bind_eq_Some_conv Let_def IsCrazy_def split: if_splits)
  have c: "crazy_of st' = (crazy_of st)(w := None)" using st' by (auto simp: fun_eq_iff crazy_of_def)
  have cw: "crazy_of st w = (if IsCrazy v then Some (lv_crazy v) else None)" using v by (simp add: crazy_of_def)
  have inj: "x = y" if "crazy_of st x = Some p" "crazy_of st y = Some p" for x y p
    using objects_inj [OF o that] .
  have r: "ran (crazy_of st') = (if IsCrazy v then ran (crazy_of st) - {lv_crazy v} else ran (crazy_of st))"
    unfolding c ran_def using inj cw by (auto split: if_splits; metis option.distinct(1) option.inject)
  have live: "w \<notin> dom (ll_libs st)" using o v by (auto simp: objects_def)
  have used: "in_use D st' = in_use (insert w D) st" unfolding in_use_def c by auto
  note before = objects_sets [OF o]
  have np: "IsCrazy v \<Longrightarrow> lv_crazy v \<notin> P \<and> lv_crazy v \<in> dom (ll_libs st) \<and> lv_crazy v \<notin> dom (ll_views st)"
  proof -
    assume "IsCrazy v"
    then have "lv_crazy v \<in> ran (crazy_of st)" using cw by (auto simp: ran_def)
    then show ?thesis using before(3,4,7) by blast
  qed
  define gone where "gone = (if IsCrazy v then {lv_crazy v} else {})"
  have sets: "dom (ll_views st') = dom (ll_views st) - {w}" "dom (ll_libs st') = dom (ll_libs st) - gone"
    "set (ll_live st') = set (ll_live st) - {w} - gone" "set (known_libraries st') = set (known_libraries st) - {w}"
    "distinct (known_libraries st')" "ran (crazy_of st') = ran (crazy_of st) - gone"
    using st' wk r by (auto simp: gone_def)
  have gone: "gone \<inter> P = {}" "gone \<subseteq> dom (ll_libs st)" "gone \<inter> dom (ll_views st) = {}" using np by (auto simp: gone_def)
  have "objects D P st'"
    unfolding objects_def
  proof (intro conjI)
    show "distinct (known_libraries st')" by (rule sets(5))
    show "dom (ll_views st') = set (known_libraries st')" using sets(1,4) before(1) by simp
    show "D \<subseteq> set (known_libraries st')" using sets(4) before(2) inv(2) by blast
    show "dom (ll_libs st') = ran (crazy_of st') \<union> P" using sets(2,6) before(3) gone(1) by blast
    show "ran (crazy_of st') \<inter> P = {}" using sets(6) before(4) by blast
    show "set (ll_live st') = dom (ll_views st') \<union> dom (ll_libs st')"
      unfolding sets before(5) using gone(3) live by blast
    show "0 \<notin> set (ll_live st')" using sets(3) before(6) by blast
    show "dom (ll_views st') \<inter> dom (ll_libs st') = {}" using sets(1,2) before(7) by blast
    show "\<forall>x y p. crazy_of st' x = Some p \<and> crazy_of st' y = Some p \<longrightarrow> x = y"
      unfolding c using inj by auto
    show "\<forall>x u. ll_views st' x = Some u \<longrightarrow> lv_type u \<noteq> TYPE_NONE \<and> (1 \<le> lv_ref_count u \<longleftrightarrow> x \<notin> D)"
      using o st' by (auto simp: objects_def)
  qed
  moreover have "chain xs st'"
    using xs(1)
  proof (rule chain_cong)
    show "ll_libs st' p = ll_libs st p" if "p \<in> set xs" for p
    proof -
      have "p \<noteq> lv_crazy v" if "IsCrazy v" using \<open>p \<in> set xs\<close> that inj [of _ p w] cw unfolding xs(2) in_use_def by auto
      then show ?thesis using st' by (auto split: if_splits)
    qed
  qed (use st' in simp)
  ultimately show "list_inv D P st'" using xs used by (auto simp: list_inv_def)
  show "set (known_libraries st') = set (known_libraries st) - {w}" using st' wk by simp
qed

section \<open>Unloading\<close>

text \<open>The loop over the dependencies keeps what the recursive call keeps, and depends on the recursive call
  only for known libraries.\<close>

lemma unload_dependencies_inv:
  assumes keep: "\<And>w st st'. I st \<Longrightarrow> w \<in> set (known_libraries st) \<Longrightarrow> unload w st = Some st' \<Longrightarrow> I st'"
  shows "I st \<Longrightarrow> unload_dependencies unload symbols its st = Some st' \<Longrightarrow> I st'"
proof (induction its arbitrary: st rule: measure_induct_rule [where f = length])
  case (less its)
  show ?case
  proof (cases "Dependency_GetNext (ll_vm st) symbols its")
    case None
    with less.prems show ?thesis by (simp add: unload_dependencies.simps)
  next
    case (Some nx)
    obtain n its' where nx: "nx = (n, its')" by force
    with Some less.prems obtain name st1 where
      one: "(case FindKnownLibrary st (chars_of name) of None \<Rightarrow> Some st | Some d \<Rightarrow> unload d st) = Some st1" and
      rest: "unload_dependencies unload symbols its' st1 = Some st'"
      by (auto simp: unload_dependencies.simps [of unload symbols its] bind_eq_Some_conv)
    have "I st1"
      using one less.prems(1) keep [OF _ FindKnownLibrary_known] by (auto split: option.splits)
    then show ?thesis using less.IH [OF Dependency_GetNext_shorter] Some nx rest by blast
  qed
qed

lemma unload_dependencies_cong:
  assumes keep: "\<And>w st st'. I st \<Longrightarrow> w \<in> set (known_libraries st) \<Longrightarrow> unload w st = Some st' \<Longrightarrow> I st'"
    and same: "\<And>w st. I st \<Longrightarrow> w \<in> set (known_libraries st) \<Longrightarrow> unload w st = unload' w st"
  shows "I st \<Longrightarrow> unload_dependencies unload symbols its st = unload_dependencies unload' symbols its st"
proof (induction its arbitrary: st rule: measure_induct_rule [where f = length])
  case (less its)
  show ?case
  proof (cases "Dependency_GetNext (ll_vm st) symbols its")
    case None
    then show ?thesis by (simp add: unload_dependencies.simps)
  next
    case (Some nx)
    obtain n its' where nx: "nx = (n, its')" by force
    have shorter: "length its' < length its" using Some nx Dependency_GetNext_shorter by blast
    have "(case FindKnownLibrary st (chars_of name) of None \<Rightarrow> Some st | Some d \<Rightarrow> unload d st) =
        (case FindKnownLibrary st (chars_of name) of None \<Rightarrow> Some st | Some d \<Rightarrow> unload' d st)" for name
      using same [OF less.prems FindKnownLibrary_known] by (auto split: option.split)
    moreover have "unload_dependencies unload symbols its' st1 = unload_dependencies unload' symbols its' st1"
      if "(case FindKnownLibrary st (chars_of name) of None \<Rightarrow> Some st | Some d \<Rightarrow> unload d st) = Some st1" for name st1
      using that less.prems keep [OF _ FindKnownLibrary_known] by (auto intro!: less.IH [OF shorter] split: option.splits)
    ultimately show ?thesis
      using Some nx unfolding unload_dependencies.simps [of _ symbols its]
      by (auto intro!: Option.bind_cong)
  qed
qed

lemma begin_unload:
  assumes inv: "list_inv D P st" and w: "w \<notin> D" "ll_views st w = Some v"
    and v': "lv_type v' = lv_type v" "lv_crazy v' = lv_crazy v" "lv_ref_count v' < 1"
  shows "if IsCrazy v
     then \<exists>st'. unlink_library (lv_crazy v) (set_view w v' st) = Some st' \<and> list_inv (insert w D) P st' \<and>
            known_libraries st' = known_libraries st
     else list_inv (insert w D) P (set_view w v' st)"
proof -
  let ?st = "set_view w v' st"
  have o: "objects D P st" using inv by (simp add: list_inv_def)
  note dies = set_view_dies [OF o w(2) v']
  obtain xs where xs: "chain xs st" "set xs = in_use D st" using inv by (auto simp: list_inv_def)
  have chain: "chain xs ?st" using xs(1) by (rule chain_cong) (simp_all add: set_view_def)
  have cw: "crazy_of st w = (if IsCrazy v then Some (lv_crazy v) else None)" using w by (simp add: crazy_of_def)
  show ?thesis
  proof (cases "IsCrazy v")
    case False
    then have "x \<noteq> w" if "crazy_of st x = Some p" for x p using that cw by auto
    then have "in_use (insert w D) ?st = in_use D st" unfolding in_use_def dies(2) by blast
    with False chain dies(1) xs(2) show ?thesis by (auto simp: list_inv_def)
  next
    case True
    have "lv_crazy v \<in> set xs" using True cw w(1) unfolding xs(2) in_use_def by auto
    then obtain as bs where split: "xs = as @ lv_crazy v # bs" by (auto dest: split_list)
    obtain st' where st': "unlink_library (lv_crazy v) ?st = Some st'" "chain (as @ bs) st'" "same_but_links ?st st'"
      using unlink_chain [OF chain [unfolded split]] by blast
    have d: "set (as @ bs) = set xs - {lv_crazy v}" using xs(1) by (auto simp: split chain_def)
    have inj: "x = w" if "crazy_of st x = Some (lv_crazy v)" for x
      using objects_inj [OF o that] cw True by simp
    have "x \<notin> insert w D \<and> crazy_of st x = Some q \<longleftrightarrow> x \<notin> D \<and> crazy_of st x = Some q \<and> q \<noteq> lv_crazy v" for x q
      using inj [of x] cw True by (cases "x = w") auto
    then have "in_use (insert w D) st' = in_use D st - {lv_crazy v}"
      unfolding in_use_def same_but_links_objects(2) [OF st'(3)] dies(2) by blast
    then have "list_inv (insert w D) P st'"
      using st'(2) dies(1) d xs(2) same_but_links_objects(1) [OF st'(3)] by (auto simp: list_inv_def)
    with True st' show ?thesis by (auto simp: same_but_links_def set_view_def)
  qed
qed

lemma UnloadLibrary_inv:
  "list_inv D P st \<Longrightarrow> w \<in> set (known_libraries st) \<Longrightarrow> UnloadLibrary n env w st = Some st' \<Longrightarrow>
     list_inv D P st' \<and> set (known_libraries st') \<subseteq> set (known_libraries st)"
proof (induction n arbitrary: D w st st')
  case (Suc n)
  have o: "objects D P st" using Suc.prems(1) by (simp add: list_inv_def)
  obtain v where v: "ll_views st w = Some v" using known_view [OF o Suc.prems(2)] by blast
  have ty: "lv_type v \<noteq> TYPE_NONE" "1 \<le> lv_ref_count v \<longleftrightarrow> w \<notin> D" using objects_view [OF o v] by simp_all
  then have typed: "IsSystem v \<or> IsCrazy v" by (cases "lv_type v") (auto simp: IsSystem_def IsCrazy_def)
  define v' where "v' = v\<lparr>lv_ref_count := lv_ref_count v - 1\<rparr>"
  have same: "lv_type v' = lv_type v" "lv_crazy v' = lv_crazy v" by (simp_all add: v'_def)
  show ?case
  proof (cases "lv_ref_count v = 1")
    case False
    then have "st' = set_view w v' st"
      using Suc.prems(3) v typed by (auto simp: SafeDecrementRef_def v'_def Let_def split: if_splits)
    moreover have "1 \<le> lv_ref_count v' \<longleftrightarrow> 1 \<le> lv_ref_count v" using False by (auto simp: v'_def)
    ultimately show ?thesis
      using set_view_counts [OF v same] Suc.prems(1) by (simp add: set_view_def)
  next
    case True
    then have wD: "w \<notin> D" and dead: "lv_ref_count v' < 1" using ty by (auto simp: v'_def)
    note start = begin_unload [OF Suc.prems(1) wD v same dead]
    obtain st2 where st2: "(if IsCrazy v then unload_crazy env (UnloadLibrary n env) (lv_crazy v) (set_view w v' st)
        else Some (set_view w v' st)) = Some st2"
      "delete_view w (st2\<lparr>known_libraries := remove1 w (known_libraries st2)\<rparr>) = Some st'"
      using Suc.prems(3) v typed True
      by (auto simp: SafeDecrementRef_def v'_def IsCrazy_def GetCrazy_def IsSystem_def bind_eq_Some_conv Let_def split: if_splits)
    let ?I = "\<lambda>s. list_inv (insert w D) P s \<and> set (known_libraries s) \<subseteq> set (known_libraries st)"
    have "?I st2"
    proof (cases "IsCrazy v")
      case False
      with st2(1) start show ?thesis by (auto simp: set_view_def)
    next
      case True
      with start obtain s1 where s1: "unlink_library (lv_crazy v) (set_view w v' st) = Some s1" "?I s1" by auto
      obtain lib vm calls s2 where
        deps: "unload_dependencies (UnloadLibrary n env) (sl_symbols lib) (DependencyIterator_Init lib)
           (s1\<lparr>ll_calls := calls, ll_vm := vm\<rparr>) = Some s2" and
        dbg: "with_debug (DelEntry (le_rdebug env) (le_link_map env (lv_crazy v))) s2 = Some st2"
        using st2(1) True s1(1) by (auto simp: unload_crazy_def bind_eq_Some_conv case_prod_unfold)
      have "?I s2"
      proof (rule unload_dependencies_inv [where I = ?I, OF _ _ deps])
        show "?I b" if "?I a" "x \<in> set (known_libraries a)" "UnloadLibrary n env x a = Some b" for x a b
          using Suc.IH [OF conjunct1 [OF that(1)] that(2,3)] that(1) by blast
      qed (use s1(2) in simp)
      then show ?thesis using with_debug_frame [OF dbg] by simp
    qed
    then show ?thesis using delete_dying_view [OF _ wD st2(2)] by blast
  qed
qed simp

text \<open>The recursion is not deeper than the number of views that are not yet being unloaded.\<close>

lemma unload_crazy_cong:
  assumes "unlink_library p st = Some s1" "I s1" "\<And>s calls vm. I s \<Longrightarrow> I (s\<lparr>ll_calls := calls, ll_vm := vm\<rparr>)"
    and "\<And>w s s'. I s \<Longrightarrow> w \<in> set (known_libraries s) \<Longrightarrow> unload w s = Some s' \<Longrightarrow> I s'"
    and "\<And>w s. I s \<Longrightarrow> w \<in> set (known_libraries s) \<Longrightarrow> unload w s = unload' w s"
  shows "unload_crazy env unload p st = unload_crazy env unload' p st"
proof -
  have "unload_dependencies unload symbols its (s1\<lparr>ll_calls := calls, ll_vm := vm\<rparr>) =
      unload_dependencies unload' symbols its (s1\<lparr>ll_calls := calls, ll_vm := vm\<rparr>)" for symbols its calls vm
    by (rule unload_dependencies_cong [where I = I]) (use assms in \<open>auto\<close>)
  then show ?thesis using assms(1) by (simp add: unload_crazy_def)
qed

lemma UnloadLibrary_depth:
  "list_inv D P st \<Longrightarrow> w \<in> set (known_libraries st) \<Longrightarrow> card (set (known_libraries st) - D) < n \<Longrightarrow>
     card (set (known_libraries st) - D) < m \<Longrightarrow> UnloadLibrary n env w st = UnloadLibrary m env w st"
proof (induction n arbitrary: m D w st)
  case (Suc n)
  obtain m' where m: "m = Suc m'" using Suc.prems(4) by (cases m) auto
  have o: "objects D P st" using Suc.prems(1) by (simp add: list_inv_def)
  obtain v where v: "ll_views st w = Some v" using known_view [OF o Suc.prems(2)] by blast
  define v' where "v' = v\<lparr>lv_ref_count := lv_ref_count v - 1\<rparr>"
  have same: "lv_type v' = lv_type v" "lv_crazy v' = lv_crazy v" by (simp_all add: v'_def)
  have "unload_crazy env (UnloadLibrary n env) (lv_crazy v) (set_view w v' st) =
      unload_crazy env (UnloadLibrary m' env) (lv_crazy v) (set_view w v' st)"
    if one: "lv_ref_count v = 1" and crazy: "IsCrazy v"
  proof -
    have wD: "w \<notin> D" using objects_view [OF o v] one by simp
    from begin_unload [OF Suc.prems(1) wD v same] one crazy obtain s1 where
      s1: "unlink_library (lv_crazy v) (set_view w v' st) = Some s1" "list_inv (insert w D) P s1"
        "known_libraries s1 = known_libraries st"
      by (auto simp: v'_def)
    let ?I = "\<lambda>s. list_inv (insert w D) P s \<and> set (known_libraries s) \<subseteq> set (known_libraries st)"
    have less: "card (set (known_libraries s) - insert w D) < card (set (known_libraries st) - D)" if "?I s" for s
      by (rule psubset_card_mono) (use that Suc.prems(2) wD in auto)
    show ?thesis
    proof (rule unload_crazy_cong [where I = ?I, OF s1(1)])
      show "?I b" if "?I a" "x \<in> set (known_libraries a)" "UnloadLibrary n env x a = Some b" for x a b
        using UnloadLibrary_inv [OF conjunct1 [OF that(1)] that(2,3)] that(1) by blast
      show "UnloadLibrary n env x a = UnloadLibrary m' env x a" if "?I a" "x \<in> set (known_libraries a)" for x a
        by (rule Suc.IH [OF conjunct1 [OF that(1)] that(2)]) (use less [OF that(1)] Suc.prems(3,4) m in linarith)+
    qed (use s1(2,3) in auto)
  qed
  then show ?case
    using v unfolding m by (auto simp: SafeDecrementRef_def v'_def IsCrazy_def GetCrazy_def Let_def)
qed simp

section \<open>Loading\<close>

lemma load_dependencies_inv:
  assumes keep: "\<And>name spl st r spl' st'. I st \<Longrightarrow> load name spl st = Some (r, spl', st') \<Longrightarrow> I st'"
  shows "I st \<Longrightarrow> load_dependencies load symbols its deps spl st = Some (r, spl', st') \<Longrightarrow> I st'"
proof (induction its arbitrary: deps spl st rule: measure_induct_rule [where f = length])
  case (less its)
  show ?case
  proof (cases "Dependency_GetNext (ll_vm st) symbols its")
    case None
    with less.prems show ?thesis by (simp add: load_dependencies.simps)
  next
    case (Some nx)
    obtain n its' where nx: "nx = (n, its')" by force
    with Some less.prems(2) obtain name r1 spl1 st1 where name: "cstr_at (ll_vm st) n = Some name" and
      one: "load (chars_of name) spl st = Some (r1, spl1, st1)"
      by (auto simp: load_dependencies.simps [of load symbols its] bind_eq_Some_conv)
    then have rest: "case r1 of Inl e \<Rightarrow> st' = st1
        | Inr d \<Rightarrow> load_dependencies load symbols its' (deps @ [fst d]) spl1 st1 = Some (r, spl', st')"
      using Some nx less.prems(2) by (auto simp: load_dependencies.simps [of load symbols its] split: sum.splits)
    have "I st1" using keep [OF less.prems(1) one] .
    then show ?thesis
      using rest less.IH [OF Dependency_GetNext_shorter] Some nx by (cases r1) auto
  qed
qed

lemma load_known_inv:
  assumes "list_inv {} P st" "load_known addr w st = Some (r, st')"
  shows "list_inv {} P st'"
proof -
  obtain v where v: "ll_views st w = Some v" using assms(2) by (auto simp: load_known_def bind_eq_Some_conv)
  have "st' = st \<or> st' = set_view w (AddRef v) st"
    using assms(2) v by (auto simp: load_known_def bind_eq_Some_conv split: if_splits)
  moreover have "1 \<le> lv_ref_count v" using objects_view [OF _ v] assms(1) by (auto simp: list_inv_def)
  ultimately show ?thesis using assms(1) set_view_counts [OF v, of "AddRef v"] by (auto simp: AddRef_def)
qed

lemma load_failed_inv:
  "list_inv D P st \<Longrightarrow> p \<in> P \<Longrightarrow> load_failed p e spl st = Some (r, spl', st') \<Longrightarrow> list_inv D (P - {p}) st'"
  by (auto simp: load_failed_def bind_eq_Some_conv dest: delete_pending)

lemma register_inv:
  assumes "list_inv {} P st" "p \<in> P" "register_library env name p st = Some (w, st')"
  shows "list_inv {} (P - {p}) st'"
proof -
  obtain lib s1 s2 s3 calls vm where
    s1: "with_debug (AddEntry (le_rdebug env) (le_link_map env p))
       (set_lib p (lib\<lparr>link_addr := lib_address lib, link_ld := ev_dynamic (sl_view lib)\<rparr>) st) = Some s1" and
    s2: "push_front p s1 = Some s2" and s3: "new_object env s2 = Some (w, s3)" and
    st': "st' = (AddLibrary w (set_view w (SetCrazy p name LibraryView_Init) s3))\<lparr>ll_calls := calls, ll_vm := vm\<rparr>"
    using assms(3) by (auto simp: register_library_def bind_eq_Some_conv Let_def case_prod_unfold)
  have inv1: "list_inv {} P s1"
    using set_pending [OF assms(1,2)] with_debug_frame(1) [OF s1] by simp
  then obtain xs where xs: "chain xs s1" "set xs = in_use {} s1" and o: "objects {} P s1" by (auto simp: list_inv_def)
  have p: "p \<notin> set xs" "p \<noteq> 0"
    using pending_not_linked [OF o assms(2)] objects_sets [OF o] assms(2) by (auto simp: xs(2))
  note push = push_front_chain [OF xs(1) p s2]
  note links = same_but_links_objects [OF push(2)]
  have "list_inv {} (P - {p}) (AddLibrary w (set_view w (SetCrazy p name LibraryView_Init) s3))"
    by (rule new_crazy_view [OF _ assms(2) push(1) _ s3]) (use o links xs(2) in \<open>auto simp: in_use_def\<close>)
  then show ?thesis by (simp add: st')
qed

lemma relocate_library_inv: "relocate_library env p deps st = Some (ok, err, st') \<Longrightarrow> list_inv D P st' = list_inv D P st"
  by (auto simp: relocate_library_def bind_eq_Some_conv split: if_splits)

lemma finish_load_inv:
  assumes keep: "\<And>P name spl st r spl' st'. list_inv {} P st \<Longrightarrow> load name spl st = Some (r, spl', st') \<Longrightarrow> list_inv {} P st'"
    and "list_inv {} P st" "p \<in> P" "finish_load env load name p spl st = Some (r, spl', st')"
  shows "list_inv {} (P - {p}) st'"
proof -
  from assms(4) obtain lib deps spl1 s1 where
    deps: "load_dependencies load (sl_symbols lib) (DependencyIterator_Init lib) [] spl st = Some (deps, spl1, s1)" and
    rest: "(case deps of
          Inl e \<Rightarrow> load_failed p (WhenLoading (GetBaseNamePtr name) e) spl1 s1
        | Inr ds \<Rightarrow> Option.bind (relocate_library env p ds s1) (\<lambda>(ok, err, st).
              if \<not> ok then load_failed p (LibraryRelocError err) spl1 st
              else Option.bind (register_library env name p st) (\<lambda>(w, st). Some (Inr (w, err), spl1, st)))) = Some (r, spl', st')"
    by (auto simp: finish_load_def bind_eq_Some_conv [of "ll_libs st p"] bind_eq_Some_conv [of "load_dependencies _ _ _ _ _ _"])
  have s1: "list_inv {} P s1" by (rule load_dependencies_inv [where I = "list_inv {} P", OF keep assms(2) deps])
  show ?thesis
  proof (cases deps)
    case (Inl e)
    with rest s1 assms(3) show ?thesis by (auto intro: load_failed_inv)
  next
    case (Inr ds)
    with rest obtain ok err s2 where s2: "relocate_library env p ds s1 = Some (ok, err, s2)"
      by (auto simp: bind_eq_Some_conv)
    have "list_inv {} P s2" using relocate_library_inv [OF s2] s1 by simp
    with rest Inr s2 assms(3) show ?thesis
      by (auto simp: bind_eq_Some_conv split: if_splits intro: load_failed_inv register_inv)
  qed
qed

lemma LoadLibrary_inv:
  "list_inv {} P st \<Longrightarrow> LoadLibrary n env name mode addr offs spl st = Some (r, spl', st') \<Longrightarrow> list_inv {} P st'"
proof (induction n arbitrary: P name addr offs spl st r spl' st')
  case (Suc n)
  let ?load = "\<lambda>name. LoadLibrary n env name mode 0 0"
  show ?case
  proof (cases "FindKnownLibrary st name")
    case (Some w)
    with Suc.prems show ?thesis by (auto intro: load_known_inv)
  next
    case None
    show ?thesis
    proof (cases "IsSystemLibrary name")
      case True
      with None Suc.prems show ?thesis
        by (auto simp: load_system_def bind_eq_Some_conv Let_def split: if_splits intro: new_system_view)
    next
      case False
      with None Suc.prems(2) obtain p s1 where new: "new_object env st = Some (p, s1)"
        by (auto simp: load_crazy_def bind_eq_Some_conv)
      have pending: "list_inv {} (insert p P) (set_lib p lib s1)" and p: "p \<notin> P" for lib
        using new_lib [OF Suc.prems(1) new] by auto
      have failed: "list_inv {} P s'" if "load_failed p e sp (set_lib p lib s1\<lparr>ll_vm := vm\<rparr>) = Some (r, q, s')" for e sp lib vm q s'
        using load_failed_inv [OF _ _ that, of "{}" "insert p P"] pending p by simp
      have finished: "list_inv {} P s'" if "finish_load env ?load name p sp (set_lib p lib s1\<lparr>ll_vm := vm\<rparr>) = Some (r, q, s')" for sp lib vm q s'
        using finish_load_inv [where P = "insert p P" and load = ?load, OF Suc.IH _ _ that] pending p by simp
      have "load_failed p e sp (set_lib p lib s1) = load_failed p e sp (set_lib p lib s1\<lparr>ll_vm := ll_vm s1\<rparr>)" for e sp lib
        by (simp add: set_lib_def)
      with False None Suc.prems(2) new show ?thesis
        by (auto simp: load_crazy_def Let_def split: sum.splits prod.splits option.splits intro: failed finished)
    qed
  qed
qed simp

section \<open>Reachable states\<close>

text \<open>The states a client can bring about: it loads libraries, and it unloads views it was given.\<close>

inductive reachable :: "('w::len) word linker_env \<Rightarrow> 'w word library_list \<Rightarrow> bool" for env where
  start: "reachable env (LibraryList_Init vm)"
| load: "reachable env st \<Longrightarrow> LoadLibrary n env name mode addr offs spl st = Some (r, spl', st') \<Longrightarrow> reachable env st'"
| unload: "reachable env st \<Longrightarrow> w \<in> set (known_libraries st) \<Longrightarrow> UnloadLibrary n env w st = Some st' \<Longrightarrow> reachable env st'"

primrec unload_times :: "('w::len) word linker_env \<Rightarrow> nat \<Rightarrow> nat \<Rightarrow> 'w word \<Rightarrow> 'w word library_list \<Rightarrow> 'w word library_list option" where
  "unload_times env n 0 w st = Some st"
| "unload_times env n (Suc k) w st = Option.bind (unload_times env n k w st) (UnloadLibrary n env w)"

lemma list_inv_Init: "list_inv {} {} (LibraryList_Init vm)"
  by (auto simp: list_inv_def objects_def chain_def in_use_def crazy_of_def LibraryList_Init_def ran_def)

lemma set_view_same: "ll_views st w = Some v \<Longrightarrow> set_view w v st = st"
  by (simp add: set_view_def fun_upd_idem)

lemma set_view_twice [simp]: "set_view w v (set_view w v' st) = set_view w v st"
  by (simp add: set_view_def)

text \<open>Unloading a view that stays in use.\<close>

lemma UnloadLibrary_in_use:
  assumes "ll_views st w = Some v" "lv_type v \<noteq> TYPE_NONE" "lv_ref_count v \<noteq> 1"
  shows "UnloadLibrary (Suc n) env w st = Some (set_view w (v\<lparr>lv_ref_count := lv_ref_count v - 1\<rparr>) st)"
  using assms by (cases "lv_type v") (auto simp: SafeDecrementRef_def IsSystem_def IsCrazy_def Let_def)

lemma unload_times_in_use:
  assumes "ll_views st w = Some v" "lv_type v \<noteq> TYPE_NONE"
  shows "int k < lv_ref_count v \<Longrightarrow>
     unload_times env (Suc n) k w st = Some (set_view w (v\<lparr>lv_ref_count := lv_ref_count v - int k\<rparr>) st)"
proof (induction k)
  case 0
  then show ?case using set_view_same [OF assms(1)] by simp
next
  case (Suc k)
  let ?v = "v\<lparr>lv_ref_count := lv_ref_count v - int k\<rparr>"
  have "UnloadLibrary (Suc n) env w (set_view w ?v st) =
      Some (set_view w (?v\<lparr>lv_ref_count := lv_ref_count ?v - 1\<rparr>) (set_view w ?v st))"
    by (rule UnloadLibrary_in_use) (use Suc.prems assms(2) in \<open>simp_all add: set_view_def\<close>)
  with Suc show ?case by (simp add: algebra_simps del: UnloadLibrary.simps)
qed

text \<open>A successful load leaves a view of that name.\<close>

lemma AddLibrary_named:
  "view_named (AddLibrary w (set_view w v st)) (lv_name v) w" "w \<in> set (known_libraries (AddLibrary w (set_view w v st)))"
  by (simp_all add: view_named_def AddLibrary_def set_view_def)

lemma register_named:
  "register_library env name p st = Some (w, st') \<Longrightarrow> view_named st' name w \<and> w \<in> set (known_libraries st')"
  by (auto simp: register_library_def bind_eq_Some_conv Let_def case_prod_unfold view_named_def AddLibrary_def set_view_def)

lemma FindKnownLibrary_named: "FindKnownLibrary st name = Some w \<Longrightarrow> view_named st (GetBaseNamePtr name) w"
  by (auto simp: FindKnownLibrary_def find_Some_iff)

lemma finish_load_success:
  "finish_load env load name p spl st = Some (Inr (w, note), spl', st') \<Longrightarrow> \<exists>s. register_library env name p s = Some (w, st')"
  unfolding finish_load_def load_failed_def
  by (fastforce elim!: Option.bind_eq_Some_conv [THEN iffD1, elim_format] split: sum.split_asm if_split_asm prod.split_asm)

lemma load_crazy_success:
  "load_crazy env load name addr offs spl st = Some (Inr (w, note), spl', st') \<Longrightarrow> \<exists>p s. register_library env name p s = Some (w, st')"
  unfolding load_crazy_def load_failed_def Let_def
  by (fastforce elim!: Option.bind_eq_Some_conv [THEN iffD1, elim_format] split: sum.split_asm option.split_asm prod.split_asm
      dest: finish_load_success)

lemma LoadLibrary_named:
  assumes "LoadLibrary n env name mode addr offs spl st = Some (Inr (w, note), spl', st')" "CHR ''/'' \<notin> set name"
  shows "view_named st' name w \<and> w \<in> set (known_libraries st')"
proof (cases n)
  case (Suc k)
  show ?thesis
  proof (cases "FindKnownLibrary st name")
    case (Some x)
    have "view_named st name x" "x \<in> set (known_libraries st)"
      using FindKnownLibrary_named [OF Some] FindKnownLibrary_known [OF Some] assms(2) by (simp_all add: GetBaseNamePtr_id)
    moreover have "w = x \<and> (\<exists>v. ll_views st x = Some v \<and> st' = set_view x (AddRef v) st)"
      using assms(1) Suc Some by (auto simp: load_known_def bind_eq_Some_conv split: if_splits)
    ultimately show ?thesis by (auto simp: view_named_def set_view_def AddRef_def)
  next
    case None
    show ?thesis
    proof (cases "IsSystemLibrary name")
      case True
      with None assms(1) Suc show ?thesis
        by (auto simp: load_system_def bind_eq_Some_conv Let_def view_named_def AddLibrary_def set_view_def split: if_splits)
    next
      case False
      with None assms(1) Suc show ?thesis
        by (auto dest!: load_crazy_success register_named)
    qed
  qed
qed (use assms in simp)

section \<open>The example process\<close>

lemma demo_inv: "list_inv {} {} demo_list"
proof -
  have c: "crazy_of demo_list = [0x10 \<mapsto> 0x20, 0x11 \<mapsto> 0x21]"
    by (auto simp: fun_eq_iff crazy_of_def demo_list_def)
  then have r: "ran (crazy_of demo_list) = {0x20, 0x21}" by auto
  then have "objects {} {} demo_list"
    unfolding objects_def c
    by (auto simp: demo_list_def SetCrazy_def SetSystem_def LibraryView_Init_def split: if_splits)
  moreover have "chain [0x20, 0x21] demo_list"
    by (simp add: chain_def demo_list_def lib_next_def lib_prev_def demo_lib_def demo_dep_def names_library_def
        SharedLibrary_Init_def)
  moreover have "in_use {} demo_list = {0x20, 0x21}" using r by (simp add: in_use_def ran_def)
  ultimately show ?thesis unfolding list_inv_def by (metis list.set(1) list.set(2))
qed

lemma demo_system: "LoadLibrary 1 demo_env ''libc.so'' 0 0 0 SearchPathList_Init (LibraryList_Init sym_image) =
   Some (Inr (0x40, None), SearchPathList_Init, AddLibrary 0x40 (set_view 0x40 (SetSystem 0x77 ''libc.so'' LibraryView_Init)
     ((LibraryList_Init sym_image)\<lparr>ll_live := [0x40]\<rparr>)))"
proof -
  have "IsSystemLibrary ''libc.so''" by code_simp
  then show ?thesis
    by (simp add: FindKnownLibrary_def LibraryList_Init_def load_system_def new_object_def demo_env_def Let_def)
qed

section \<open>Properties\<close>

text \<open>C3: In every state a client can reach, whether calls succeeded or failed: the views in the list of
  known libraries are distinct, alive and counted at least once; every \<open>SharedLibrary\<close> object belongs to
  exactly one of them, so that none is lost and none is deleted while in use; and the doubly linked
  list starting at \<open>head_\<close> links exactly these libraries.\<close>

theorem reachable_list_inv:
  assumes "reachable env st" shows "list_inv {} {} st"
  using assms
proof induction
  case start
  show ?case by (rule list_inv_Init)
next
  case (load st)
  then show ?case by (blast intro: LoadLibrary_inv)
next
  case (unload st)
  then show ?case using UnloadLibrary_inv by blast
qed

theorem reachable_list_inv_witness:
  "\<exists>st. reachable demo_env st \<and> list_inv {} {} st \<and> known_libraries st = [0x40]"
proof -
  let ?st = "AddLibrary 0x40 (set_view 0x40 (SetSystem 0x77 ''libc.so'' LibraryView_Init)
     ((LibraryList_Init sym_image)\<lparr>ll_live := [0x40]\<rparr>))"
  have "reachable demo_env ?st" by (rule reachable.load [OF reachable.start demo_system])
  moreover from reachable_list_inv [OF this] have "list_inv {} {} ?st" .
  ultimately show ?thesis by (auto simp: AddLibrary_def set_view_def LibraryList_Init_def)
qed





text \<open>C23: A library with the reference count \<open>c\<close> stays loaded for \<open>c - 1\<close> calls of \<open>UnloadLibrary\<close>, which change
  nothing but the count, and is gone after the \<open>c\<close>th. For a system library the last call always returns,
  and closes its handle exactly once.\<close>

theorem unload_count_down:
  assumes "list_inv {} {} st" "ll_views st w = Some v"
  shows "(\<forall>k. int k < lv_ref_count v \<longrightarrow> unload_times env (Suc n) k w st =
       Some (set_view w (v\<lparr>lv_ref_count := lv_ref_count v - int k\<rparr>) st)) \<and>
     (case unload_times env (Suc n) (nat (lv_ref_count v)) w st of
        None \<Rightarrow> IsCrazy v
      | Some st' \<Rightarrow> w \<notin> set (known_libraries st') \<and> ll_views st' w = None \<and>
          (IsSystem v \<longrightarrow> ll_closed st' = ll_closed st @ [lv_system v]))"
proof -
  have o: "objects {} {} st" using assms(1) by (simp add: list_inv_def)
  note view = objects_view [OF o assms(2)]
  define c where "c = nat (lv_ref_count v) - 1"
  have c: "nat (lv_ref_count v) = Suc c" "int c < lv_ref_count v" "lv_ref_count v - int c = 1" using view by (auto simp: c_def)
  let ?v = "v\<lparr>lv_ref_count := 1\<rparr>"
  let ?st = "set_view w ?v st"
  have run: "unload_times env (Suc n) (nat (lv_ref_count v)) w st = UnloadLibrary (Suc n) env w ?st"
    using unload_times_in_use [OF assms(2) _ c(2), of env n] view c by simp
  have wk: "w \<in> set (known_libraries ?st)" using assms(2) objects_sets(1) [OF o] by (auto simp: set_view_def)
  have inv: "list_inv {} {} ?st" using set_view_counts [OF assms(2), of ?v] assms(1) view by simp
  have last: "case UnloadLibrary (Suc n) env w ?st of
        None \<Rightarrow> IsCrazy v
      | Some st' \<Rightarrow> w \<notin> set (known_libraries st') \<and> ll_views st' w = None \<and>
          (IsSystem v \<longrightarrow> ll_closed st' = ll_closed st @ [lv_system v])"
  proof (cases "UnloadLibrary (Suc n) env w ?st")
    case None
    then show ?thesis
      using view by (cases "lv_type v")
        (auto simp: set_view_def SafeDecrementRef_def IsSystem_def IsCrazy_def delete_view_def Let_def)
  next
    case (Some st')
    have gone: "ll_views st' w = None"
      using Some view by (cases "lv_type v")
        (auto simp: set_view_def SafeDecrementRef_def IsSystem_def IsCrazy_def delete_view_def Let_def bind_eq_Some_conv)
    have "objects {} {} st'" using UnloadLibrary_inv [OF inv wk Some] by (simp add: list_inv_def)
    then have "w \<notin> set (known_libraries st')" using gone objects_sets(1) by (metis domIff)
    moreover have "ll_closed st' = ll_closed st @ [lv_system v]" if "IsSystem v"
      using Some that by (auto simp: set_view_def SafeDecrementRef_def IsSystem_def IsCrazy_def delete_view_def Let_def)
    ultimately show ?thesis using Some gone by simp
  qed
  show ?thesis unfolding run using unload_times_in_use [OF assms(2)] view last by blast
qed

theorem unload_count_down_witness:
  "\<exists>st'. unload_times demo_env 1 1 0x12 demo_list = Some st' \<and> 0x12 \<notin> set (known_libraries st') \<and> ll_closed st' = [0x77]"
proof -
  have "ll_closed demo_list = []" by (simp add: demo_list_def LibraryList_Init_def)
  then show ?thesis
    using unload_count_down [OF demo_inv demo_views(3), of demo_env 0]
    by (auto simp: LibraryView_Init_def split: option.splits)
qed

end
