(* ===== verification/Linker_Errors.thy ===== *)
theory Linker_Errors
  imports Prelude
begin

text \<open>
  Error messages: class \<open>Error\<close> of \<open>crazy_linker_error.cpp\<close>, a buffer of 512 characters, and the messages
  \<open>dlerror\<close> reports, class \<open>ThreadData\<close> of \<open>crazy_linker_thread.cpp\<close>, two such buffers that change places.
  A call of a formatting function is given the text its format and arguments stand for; a write outside
  the buffer is \<^term>\<open>None\<close>.
\<close>

section \<open>Library functions\<close>

definition vsnprintf :: "nat \<Rightarrow> nat \<Rightarrow> char list \<Rightarrow> char list \<Rightarrow> char list option" where
  "vsnprintf off n str buff = (if n = 0 then Some buff else buf_write off (take (n - 1) str @ [NUL]) buff)"

definition strlcpy :: "char list \<Rightarrow> char list \<Rightarrow> char list option" where
  "strlcpy src buff = (if buff = [] then Some buff else buf_write 0 (take (length buff - 1) src @ [NUL]) buff)"

text \<open>\<open>strlcat\<close> leaves a buffer without a terminator alone.\<close>

definition strlcat :: "char list \<Rightarrow> char list \<Rightarrow> char list option" where
  "strlcat src buff =
     (if NUL \<notin> set buff then Some buff
      else buf_write (length (c_str buff)) (take (length buff - length (c_str buff) - 1) src @ [NUL]) buff)"

section \<open>Error\<close>

text \<open>The constructor sets the first character only.\<close>

definition Error_Init :: "char list \<Rightarrow> char list option" where
  "Error_Init buff = buf_write 0 [NUL] buff"

definition Error_Set :: "char list option \<Rightarrow> char list \<Rightarrow> char list option" where
  "Error_Set message buff = strlcpy (case message of None \<Rightarrow> [] | Some m \<Rightarrow> m) buff"

definition Error_Append :: "char list option \<Rightarrow> char list \<Rightarrow> char list option" where
  "Error_Append message buff = (case message of None \<Rightarrow> Some buff | Some m \<Rightarrow> strlcat m buff)"

definition Error_Format :: "char list \<Rightarrow> char list \<Rightarrow> char list option" where
  "Error_Format str buff = vsnprintf 0 512 str buff"

definition Error_AppendFormat :: "char list \<Rightarrow> char list \<Rightarrow> char list option" where
  "Error_AppendFormat str buff = vsnprintf (length (c_str buff)) (512 - length (c_str buff)) str buff"

definition error_ok :: "char list \<Rightarrow> bool" where
  "error_ok buff \<longleftrightarrow> length buff = 512 \<and> NUL \<in> set buff"

section \<open>Messages of a thread\<close>

text \<open>\<open>dlerror_\<close> points to the second buffer when \<open>td_second\<close> is set.\<close>

record thread_data =
  td_second :: bool
  td_buffer0 :: "char list"
  td_buffer1 :: "char list"

definition td_buffer :: "bool \<Rightarrow> thread_data \<Rightarrow> char list" where
  "td_buffer second td = (if second then td_buffer1 td else td_buffer0 td)"

definition set_current :: "char list option \<Rightarrow> thread_data \<Rightarrow> thread_data option" where
  "set_current buff td =
     map_option (\<lambda>b. if td_second td then td\<lparr>td_buffer1 := b\<rparr> else td\<lparr>td_buffer0 := b\<rparr>) buff"

definition ThreadData_Init :: "thread_data \<Rightarrow> thread_data option" where
  "ThreadData_Init td = (let td = td\<lparr>td_second := False\<rparr> in set_current (buf_write 0 [NUL] (td_buffer0 td)) td)"

definition SwapErrorBuffers :: "thread_data \<Rightarrow> thread_data option" where
  "SwapErrorBuffers td =
     (let td = td\<lparr>td_second := \<not> td_second td\<rparr>
      in set_current (buf_write 0 [NUL] (td_buffer (td_second td) td)) td)"

definition SetErrorArgs :: "char list option \<Rightarrow> thread_data \<Rightarrow> thread_data option" where
  "SetErrorArgs str td =
     (let buff = td_buffer (td_second td) td in
      case str of
        None \<Rightarrow> set_current (buf_write 0 [NUL] buff) td
      | Some s \<Rightarrow> set_current (vsnprintf 0 512 s buff) td)"

definition AppendErrorArgs :: "char list option \<Rightarrow> thread_data \<Rightarrow> thread_data option" where
  "AppendErrorArgs str td =
     (case str of
        None \<Rightarrow> Some td
      | Some s \<Rightarrow>
          let buff = td_buffer (td_second td) td; len = length (c_str buff)
          in set_current (vsnprintf len (512 - len) s buff) td)"

text \<open>\<open>GetThreadData\<close>: the data of a thread is allocated, cleared and initialised on the first use.\<close>

definition GetThreadData :: "thread_data option \<Rightarrow> thread_data option" where
  "GetThreadData specific =
     (case specific of
        Some td \<Rightarrow> Some td
      | None \<Rightarrow> ThreadData_Init \<lparr>td_second = False, td_buffer0 = replicate 512 NUL, td_buffer1 = replicate 512 NUL\<rparr>)"

text \<open>\<open>dlerror\<close> as the loaded libraries see it: the buffer it returns, and the data after the call.\<close>

definition WrapDlerror :: "thread_data \<Rightarrow> (bool \<times> thread_data) option" where
  "WrapDlerror td = do { td' \<leftarrow> SwapErrorBuffers td; Some (td_second td, td') }"

definition thread_ok :: "thread_data \<Rightarrow> bool" where
  "thread_ok td \<longleftrightarrow> error_ok (td_buffer0 td) \<and> error_ok (td_buffer1 td)"

section \<open>Sequences of calls\<close>

datatype error_op = ESet "char list option" | EAppend "char list option" | EFormat "char list" | EAppendFormat "char list"

fun error_exec :: "error_op \<Rightarrow> char list \<Rightarrow> char list option" where
  "error_exec (ESet m) b = Error_Set m b"
| "error_exec (EAppend m) b = Error_Append m b"
| "error_exec (EFormat s) b = Error_Format s b"
| "error_exec (EAppendFormat s) b = Error_AppendFormat s b"

fun error_run :: "error_op list \<Rightarrow> char list \<Rightarrow> char list option" where
  "error_run [] b = Some b"
| "error_run (op # ops) b = Option.bind (error_exec op b) (error_run ops)"

text \<open>The reference: a message of at most 511 characters.\<close>

fun error_op_text :: "error_op \<Rightarrow> char list" where
  "error_op_text (ESet m) = (case m of None \<Rightarrow> [] | Some s \<Rightarrow> s)"
| "error_op_text (EAppend m) = (case m of None \<Rightarrow> [] | Some s \<Rightarrow> s)"
| "error_op_text (EFormat s) = s"
| "error_op_text (EAppendFormat s) = s"

fun error_spec :: "error_op \<Rightarrow> char list \<Rightarrow> char list" where
  "error_spec (ESet m) t = take 511 (error_op_text (ESet m))"
| "error_spec (EAppend m) t = take 511 (t @ error_op_text (EAppend m))"
| "error_spec (EFormat s) t = take 511 s"
| "error_spec (EAppendFormat s) t = take 511 (t @ s)"

datatype thread_op = TSet "char list option" | TAppend "char list option"

fun thread_exec :: "thread_op \<Rightarrow> thread_data \<Rightarrow> thread_data option" where
  "thread_exec (TSet s) td = SetErrorArgs s td"
| "thread_exec (TAppend s) td = AppendErrorArgs s td"

fun thread_run :: "thread_op list \<Rightarrow> thread_data \<Rightarrow> thread_data option" where
  "thread_run [] td = Some td"
| "thread_run (op # ops) td = Option.bind (thread_exec op td) (thread_run ops)"

fun thread_op_text :: "thread_op \<Rightarrow> char list" where
  "thread_op_text (TSet m) = (case m of None \<Rightarrow> [] | Some s \<Rightarrow> s)"
| "thread_op_text (TAppend m) = (case m of None \<Rightarrow> [] | Some s \<Rightarrow> s)"

fun thread_spec :: "thread_op \<Rightarrow> char list \<Rightarrow> char list" where
  "thread_spec (TSet m) t = take 511 (thread_op_text (TSet m))"
| "thread_spec (TAppend m) t = take 511 (t @ thread_op_text (TAppend m))"

section \<open>Lemmas\<close>

lemma error_ok_length: "error_ok b \<Longrightarrow> length (c_str b) \<le> 511"
proof -
  assume ok: "error_ok b"
  then have "c_str b \<noteq> b" by (metis c_str_no_NUL error_ok_def)
  then have "length (c_str b) \<noteq> length b" unfolding c_str_def by (metis takeWhile_eq_take take_all order_refl)
  then show ?thesis using ok length_takeWhile_le [of "\<lambda>c. c \<noteq> NUL" b] by (simp add: c_str_def error_ok_def)
qed

text \<open>A write that starts inside the message and ends inside the buffer.\<close>

lemma write_text:
  assumes "length b = 512" "off \<le> length (c_str b)" "off + length s < 512" "NUL \<notin> set s"
  shows "\<exists>b'. buf_write off (s @ [NUL]) b = Some b' \<and> error_ok b' \<and> c_str b' = take off (c_str b) @ s"
proof -
  let ?b = "take off b @ (s @ [NUL]) @ drop (off + length (s @ [NUL])) b"
  have off: "take off b = take off (c_str b)"
  proof -
    have "c_str b = take (length (c_str b)) b" unfolding c_str_def by (rule takeWhile_eq_take)
    then have "take off (c_str b) = take off (take (length (c_str b)) b)" by (rule arg_cong)
    then show ?thesis using assms(2) by (simp add: min_def)
  qed
  have "NUL \<notin> set (take off (c_str b) @ s)"
    using assms(4) c_str_no_NUL [of b] by (auto dest: in_set_takeD)
  then have "c_str ?b = take off (c_str b) @ s"
    using c_str_append_NUL [of "take off (c_str b) @ s"] by (simp add: off)
  moreover have "buf_write off (s @ [NUL]) b = Some ?b" using assms(1,3) by (simp add: buf_write_ok)
  moreover have "length ?b = 512" using calculation(2) buf_write_length assms(1) by metis
  ultimately show ?thesis by (auto simp: error_ok_def)
qed

lemma error_exec_spec:
  assumes "error_ok b" "NUL \<notin> set (error_op_text op)"
  shows "\<exists>b'. error_exec op b = Some b' \<and> error_ok b' \<and> c_str b' = error_spec op (c_str b)"
proof -
  have len: "length b = 512" "NUL \<in> set b" "b \<noteq> []" using assms(1) by (auto simp: error_ok_def)
  note small = error_ok_length [OF assms(1)]
  have cut: "NUL \<notin> set (take n s)" if "NUL \<notin> set s" for n and s :: "char list" using that by (auto dest: in_set_takeD)
  have set: "\<exists>b'. buf_write 0 (take 511 s @ [NUL]) b = Some b' \<and> error_ok b' \<and> c_str b' = take 511 s" if "NUL \<notin> set s" for s
    using write_text [OF len(1), of 0 "take 511 s"] cut [OF that, of 511] by (simp add: min_def)
  have app: "\<exists>b'. buf_write (length (c_str b)) (take (511 - length (c_str b)) s @ [NUL]) b = Some b' \<and> error_ok b' \<and>
      c_str b' = take 511 (c_str b @ s)" if "NUL \<notin> set s" for s
  proof -
    have "length (c_str b) + length (take (511 - length (c_str b)) s) < 512" using small by auto
    from write_text [OF len(1) order_refl this cut [OF that]] show ?thesis using small by simp
  qed
  have "512 - length (c_str b) - 1 = 511 - length (c_str b)" by simp
  then show ?thesis
  proof (cases op)
    case (ESet m)
    then show ?thesis
      using assms(2) set [of "case m of None \<Rightarrow> [] | Some s \<Rightarrow> s"] len by (simp add: Error_Set_def strlcpy_def)
  next
    case (EAppend m)
    show ?thesis
    proof (cases m)
      case None
      then show ?thesis using EAppend assms(1) small by (simp add: Error_Append_def)
    next
      case (Some s)
      then show ?thesis using EAppend assms(2) app [of s] len by (simp add: Error_Append_def strlcat_def)
    qed
  next
    case (EFormat s)
    then show ?thesis using assms(2) set [of s] by (simp add: Error_Format_def vsnprintf_def)
  next
    case (EAppendFormat s)
    then show ?thesis using assms(2) app [of s] small by (simp add: Error_AppendFormat_def vsnprintf_def)
  qed
qed

lemma error_run_spec:
  "error_ok b \<Longrightarrow> \<forall>op \<in> set ops. NUL \<notin> set (error_op_text op) \<Longrightarrow>
     \<exists>b'. error_run ops b = Some b' \<and> error_ok b' \<and> c_str b' = fold error_spec ops (c_str b)"
proof (induction ops arbitrary: b)
  case (Cons op ops)
  obtain b1 where "error_exec op b = Some b1" "error_ok b1" "c_str b1 = error_spec op (c_str b)"
    using error_exec_spec [of b op] Cons.prems by auto
  with Cons.IH [of b1] Cons.prems(2) show ?case by simp
qed simp

text \<open>A call on the data of a thread is one of the calls above on the current buffer.\<close>

fun as_error_op :: "thread_op \<Rightarrow> error_op" where
  "as_error_op (TSet m) = EFormat (thread_op_text (TSet m))"
| "as_error_op (TAppend m) = EAppendFormat (thread_op_text (TAppend m))"

lemma td_buffer_set_current:
  "set_current (Some b) td = Some td' \<Longrightarrow> td_second td' = td_second td \<and> td_buffer (td_second td) td' = b \<and>
     td_buffer (\<not> td_second td) td' = td_buffer (\<not> td_second td) td"
  by (auto simp: set_current_def td_buffer_def)

lemma thread_ok_buffers: "thread_ok td \<longleftrightarrow> error_ok (td_buffer (td_second td) td) \<and> error_ok (td_buffer (\<not> td_second td) td)"
  by (auto simp: thread_ok_def td_buffer_def)

lemma thread_exec_current:
  assumes "thread_ok td"
  shows "thread_exec op td = set_current (error_exec (as_error_op op) (td_buffer (td_second td) td)) td"
proof (cases op)
  case (TSet m)
  have "take 511 [] = ([] :: char list)" by simp
  with TSet show ?thesis
    by (cases m) (auto simp: SetErrorArgs_def Error_Format_def vsnprintf_def Let_def)
next
  case (TAppend m)
  show ?thesis
  proof (cases m)
    case (Some s)
    with TAppend show ?thesis by (simp add: AppendErrorArgs_def Error_AppendFormat_def Let_def)
  next
    case None
    let ?b = "td_buffer (td_second td) td"
    have ok: "error_ok ?b" using assms by (simp add: thread_ok_buffers)
    note small = error_ok_length [OF ok]
    have len: "length ?b = 512" using ok by (simp add: error_ok_def)
    have nth: "?b ! length (c_str ?b) = NUL"
      using nth_length_takeWhile [of "\<lambda>c. c \<noteq> NUL" ?b] small len by (simp add: c_str_def)
    have "buf_write (length (c_str ?b)) [NUL] ?b = Some (?b[length (c_str ?b) := NUL])"
      using small len by (simp add: buf_write_ok upd_conv_take_nth_drop)
    then have "Error_AppendFormat [] ?b = Some ?b"
      using small nth len by (simp add: Error_AppendFormat_def vsnprintf_def list_update_id [of ?b "length (c_str ?b)", unfolded nth])
    moreover have "set_current (Some ?b) td = Some td" by (simp add: set_current_def td_buffer_def)
    ultimately show ?thesis using TAppend None by (simp add: AppendErrorArgs_def)
  qed
qed

lemma thread_exec_spec:
  assumes "thread_ok td" "NUL \<notin> set (thread_op_text op)"
  shows "\<exists>td'. thread_exec op td = Some td' \<and> thread_ok td' \<and> td_second td' = td_second td \<and>
     c_str (td_buffer (td_second td) td') = thread_spec op (c_str (td_buffer (td_second td) td)) \<and>
     td_buffer (\<not> td_second td) td' = td_buffer (\<not> td_second td) td"
proof -
  let ?b = "td_buffer (td_second td) td"
  have ok: "error_ok ?b" using assms by (simp add: thread_ok_buffers)
  have texts: "error_op_text (as_error_op op) = thread_op_text op" "error_spec (as_error_op op) = thread_spec op"
    by (cases op; simp add: fun_eq_iff)+
  obtain b' where b': "error_exec (as_error_op op) ?b = Some b'" "error_ok b'" "c_str b' = thread_spec op (c_str ?b)"
    using error_exec_spec [OF ok, of "as_error_op op"] assms(2) by (auto simp: texts)
  obtain td' where td': "set_current (Some b') td = Some td'" by (simp add: set_current_def)
  show ?thesis
    using thread_exec_current [OF assms(1), of op] b' td' td_buffer_set_current [OF td'] assms(1)
    by (auto simp: thread_ok_buffers [of td] thread_ok_buffers [of td'])
qed

lemma thread_run_spec:
  "thread_ok td \<Longrightarrow> \<forall>op \<in> set ops. NUL \<notin> set (thread_op_text op) \<Longrightarrow>
     \<exists>td'. thread_run ops td = Some td' \<and> thread_ok td' \<and> td_second td' = td_second td \<and>
       c_str (td_buffer (td_second td) td') = fold thread_spec ops (c_str (td_buffer (td_second td) td)) \<and>
       td_buffer (\<not> td_second td) td' = td_buffer (\<not> td_second td) td"
proof (induction ops arbitrary: td)
  case (Cons op ops)
  obtain td1 where "thread_exec op td = Some td1" "thread_ok td1" "td_second td1 = td_second td"
    "c_str (td_buffer (td_second td) td1) = thread_spec op (c_str (td_buffer (td_second td) td))"
    "td_buffer (\<not> td_second td) td1 = td_buffer (\<not> td_second td) td"
    using thread_exec_spec [of td op] Cons.prems by auto
  with Cons.IH [of td1] Cons.prems(2) show ?case by simp
qed simp

lemma Swap_spec:
  assumes "thread_ok td"
  shows "\<exists>td'. SwapErrorBuffers td = Some td' \<and> thread_ok td' \<and> td_second td' = (\<not> td_second td) \<and>
     c_str (td_buffer (\<not> td_second td) td') = [] \<and> td_buffer (td_second td) td' = td_buffer (td_second td) td"
proof -
  let ?td = "td\<lparr>td_second := \<not> td_second td\<rparr>"
  let ?b = "td_buffer (\<not> td_second td) ?td"
  have "error_ok ?b" using assms by (simp add: thread_ok_def td_buffer_def)
  then obtain b' where b': "buf_write 0 [NUL] ?b = Some b'" "error_ok b'" "c_str b' = []"
    using write_text [of ?b 0 "[]"] by (auto simp: error_ok_def)
  obtain td' where td': "set_current (Some b') ?td = Some td'" by (simp add: set_current_def)
  show ?thesis
    using b' td' td_buffer_set_current [OF td'] assms
    by (auto simp: SwapErrorBuffers_def thread_ok_def td_buffer_def split: if_splits)
qed

section \<open>Properties\<close>

text \<open>C24: Every sequence of calls on an \<open>Error\<close> stays inside its buffer of 512 characters and keeps it
  terminated; the message is the text set last with the texts appended since, cut after 511 characters
  at each call.\<close>

theorem Error_calls_bounded:
  assumes "length buff = 512" "\<forall>op \<in> set ops. NUL \<notin> set (error_op_text op)"
  shows "\<exists>b0 b. Error_Init buff = Some b0 \<and> error_run ops b0 = Some b \<and> error_ok b \<and> c_str b = fold error_spec ops []"
proof -
  obtain b0 where "Error_Init buff = Some b0" "error_ok b0" "c_str b0 = []"
    using write_text [OF assms(1), of 0 "[]"] by (auto simp: Error_Init_def)
  then show ?thesis using error_run_spec [of b0 ops] assms(2) by auto
qed

theorem Error_calls_bounded_witness:
  "\<exists>b0 b. Error_Init (replicate 512 CHR ''x'') = Some b0 \<and>
     error_run [EFormat ''When '', EAppend (Some ''loading''), EAppend None] b0 = Some b \<and> c_str b = ''When loading''"
  using Error_calls_bounded [of "replicate 512 CHR ''x''" "[EFormat ''When '', EAppend (Some ''loading''), EAppend None]"]
  by auto

text \<open>C25: The message \<open>dlerror\<close> returns stays as it is while further errors are recorded, up to the next call
  of \<open>dlerror\<close>, which reports exactly the errors recorded in between. No call writes outside the two
  buffers.\<close>

theorem dlerror_message_stable:
  assumes "thread_ok td" "\<forall>op \<in> set ops. NUL \<notin> set (thread_op_text op)"
  shows "\<exists>p td1 td2 q td3. WrapDlerror td = Some (p, td1) \<and> thread_run ops td1 = Some td2 \<and> WrapDlerror td2 = Some (q, td3) \<and>
     td_buffer p td2 = td_buffer p td \<and> q \<noteq> p \<and> c_str (td_buffer q td3) = fold thread_spec ops [] \<and> thread_ok td3"
proof -
  obtain td1 where td1: "SwapErrorBuffers td = Some td1" "thread_ok td1" "td_second td1 = (\<not> td_second td)"
    "c_str (td_buffer (\<not> td_second td) td1) = []" "td_buffer (td_second td) td1 = td_buffer (td_second td) td"
    using Swap_spec [OF assms(1)] by blast
  obtain td2 where td2: "thread_run ops td1 = Some td2" "thread_ok td2" "td_second td2 = td_second td1"
    "c_str (td_buffer (td_second td1) td2) = fold thread_spec ops (c_str (td_buffer (td_second td1) td1))"
    "td_buffer (\<not> td_second td1) td2 = td_buffer (\<not> td_second td1) td1"
    using thread_run_spec [OF td1(2) assms(2)] by blast
  obtain td3 where td3: "SwapErrorBuffers td2 = Some td3" "thread_ok td3" "td_buffer (td_second td2) td3 = td_buffer (td_second td2) td2"
    using Swap_spec [OF td2(2)] by blast
  show ?thesis using td1 td2 td3 by (auto simp: WrapDlerror_def)
qed

theorem dlerror_message_stable_witness:
  "\<exists>td p td1 td2 q td3. GetThreadData None = Some td \<and> WrapDlerror td = Some (p, td1) \<and>
     thread_run [TSet (Some ''no such file'')] td1 = Some td2 \<and> WrapDlerror td2 = Some (q, td3) \<and>
     c_str (td_buffer q td3) = ''no such file''"
proof -
  obtain td where td: "GetThreadData None = Some td" "thread_ok td"
    by (simp add: GetThreadData_def ThreadData_Init_def set_current_def buf_write_def thread_ok_def error_ok_def)
  then show ?thesis using dlerror_message_stable [OF td(2), of "[TSet (Some ''no such file'')]"] by auto
qed

end
