(* ===== verification/Linker_Api.thy ===== *)
theory Linker_Api
  imports Library_Objects Linker_Errors
begin

text \<open>
  The entry points of the crazy linker: the functions of \<open>crazy_linker_api.cpp\<close> an application calls, the
  wrappers of \<open>crazy_linker_wrappers.cpp\<close> that the loaded libraries call in place of the functions of the
  dynamic linker, and the globals they share. The mutex of the globals is of the default kind: to lock it
  while it is locked does not return, which is \<^term>\<open>None\<close>. The first argument of the functions that load
  or unload bounds the depth of the recursion over the dependencies.
\<close>

section \<open>Globals and contexts\<close>

record 'addr globals =
  gl_locked :: bool
  gl_libraries :: "'addr library_list"
  gl_search_paths :: search_path_list

record 'addr dl_info =
  dli_fname :: "char list"
  dli_fbase :: 'addr
  dli_sname :: 'addr
  dli_saddr :: 'addr

text \<open>The texts of the error messages, the environment, the maps of the process, and the system linker:
  \<open>ae_dlerror\<close> is what \<open>::dlerror()\<close> returns after a call that failed, \<open>ae_dlopen_exe\<close> is \<open>::dlopen(NULL, mode)\<close>.
  \<open>ae_pointer\<close> is how \<open>%p\<close> prints an address, and \<open>ae_as_format\<close> what a string gives as a format without
  arguments.\<close>

record 'addr api_env =
  ae_linker :: "'addr linker_env"
  ae_list_message :: "'addr list_error \<Rightarrow> char list"
  ae_reloc_message :: "'addr reloc_error \<Rightarrow> char list"
  ae_library_message :: "'addr library_error \<Rightarrow> char list"
  ae_relro_message :: "'addr relro_error \<Rightarrow> char list"
  ae_pointer :: "'addr \<Rightarrow> char list"
  ae_as_format :: "char list \<Rightarrow> char list"
  ae_getenv :: "char list \<Rightarrow> char list option"
  ae_maps :: "'addr vm \<Rightarrow> 'addr proc_maps"
  ae_dlerror :: "char list option"
  ae_dlopen_exe :: "int \<Rightarrow> 'addr"
  ae_dladdr :: "'addr \<Rightarrow> 'addr dl_info \<Rightarrow> int \<times> 'addr dl_info"
  ae_exidx :: "'addr \<Rightarrow> 'addr \<times> nat"
  ae_rtld_now :: int
  ae_rtld_default :: 'addr
  ae_rtld_next :: 'addr

definition Globals_Init :: "('w::len) word api_env \<Rightarrow> 'w word vm \<Rightarrow> 'w word globals" where
  "Globals_Init env vm =
     \<lparr>gl_locked = False, gl_libraries = LibraryList_Init vm,
      gl_search_paths = ResetFromEnv (ae_getenv env) ''LD_LIBRARY_PATH'' SearchPathList_Init\<rparr>"

definition Globals_Lock :: "('w::len) word globals \<Rightarrow> 'w word globals option" where
  "Globals_Lock g = (if gl_locked g then None else Some (g\<lparr>gl_locked := True\<rparr>))"

definition Globals_Unlock :: "('w::len) word globals \<Rightarrow> 'w word globals" where
  "Globals_Unlock g = g\<lparr>gl_locked := False\<rparr>"

text \<open>A block with a \<open>ScopedGlobalLock\<close>.\<close>

definition scoped_lock :: "(('w::len) word globals \<Rightarrow> ('r \<times> 'w word globals) option) \<Rightarrow> 'w word globals \<Rightarrow> ('r \<times> 'w word globals) option" where
  "scoped_lock body g =
     do {
       g \<leftarrow> Globals_Lock g;
       (r, g) \<leftarrow> body g;
       Some (r, Globals_Unlock g)
     }"

record 'addr crazy_context =
  cc_load_address :: 'addr
  cc_file_offset :: 'addr
  cc_error :: "char list"
  cc_search_paths :: search_path_list
  cc_java_vm :: 'addr
  cc_minimum_jni_version :: int
  cc_callback_poster :: "(rdebug_handler \<times> 'addr \<Rightarrow> bool) option"

datatype crazy_status = CRAZY_STATUS_FAILURE | CRAZY_STATUS_SUCCESS

definition ResetSearchPaths :: "('w::len) word api_env \<Rightarrow> 'w word crazy_context \<Rightarrow> 'w word crazy_context" where
  "ResetSearchPaths env ctx =
     ctx\<lparr>cc_search_paths := ResetFromEnv (ae_getenv env) ''LD_LIBRARY_PATH'' (cc_search_paths ctx)\<rparr>"

text \<open>\<open>buff\<close> is the buffer of the message before its constructor ran.\<close>

definition crazy_context_create :: "('w::len) word api_env \<Rightarrow> char list \<Rightarrow> 'w word crazy_context option" where
  "crazy_context_create env buff =
     do {
       err \<leftarrow> Error_Init buff;
       Some (ResetSearchPaths env
         \<lparr>cc_load_address = 0, cc_file_offset = 0, cc_error = err, cc_search_paths = SearchPathList_Init,
          cc_java_vm = 0, cc_minimum_jni_version = 0, cc_callback_poster = None\<rparr>)
     }"

definition crazy_context_get_error :: "('w::len) word crazy_context \<Rightarrow> char list option" where
  "crazy_context_get_error ctx = (let err = c_str (cc_error ctx) in if err \<noteq> [] then Some err else None)"

text \<open>\<open>context->error = "..."\<close> makes a temporary \<open>Error\<close> and copies its buffer, whose characters after
  the message are taken as \<open>NUL\<close>.\<close>

definition assign_error :: "char list \<Rightarrow> ('w::len) word crazy_context \<Rightarrow> 'w word crazy_context option" where
  "assign_error message ctx =
     do { err \<leftarrow> Error_Set (Some message) (replicate 512 NUL); Some (ctx\<lparr>cc_error := err\<rparr>) }"

definition crazy_context_clear_error :: "('w::len) word crazy_context \<Rightarrow> 'w word crazy_context option" where
  "crazy_context_clear_error ctx = assign_error [] ctx"

definition format_error :: "char list \<Rightarrow> ('w::len) word crazy_context \<Rightarrow> 'w word crazy_context option" where
  "format_error message ctx = do { err \<leftarrow> Error_Format message (cc_error ctx); Some (ctx\<lparr>cc_error := err\<rparr>) }"

definition crazy_context_set_load_address :: "('w::len) word \<Rightarrow> 'w word crazy_context \<Rightarrow> 'w word crazy_context" where
  "crazy_context_set_load_address a ctx = ctx\<lparr>cc_load_address := a\<rparr>"

definition crazy_context_get_load_address :: "('w::len) word crazy_context \<Rightarrow> 'w word" where
  "crazy_context_get_load_address ctx = cc_load_address ctx"

definition crazy_context_set_file_offset :: "('w::len) word \<Rightarrow> 'w word crazy_context \<Rightarrow> 'w word crazy_context" where
  "crazy_context_set_file_offset a ctx = ctx\<lparr>cc_file_offset := a\<rparr>"

definition crazy_context_get_file_offset :: "('w::len) word crazy_context \<Rightarrow> 'w word" where
  "crazy_context_get_file_offset ctx = cc_file_offset ctx"

definition crazy_context_add_search_path :: "char list \<Rightarrow> ('w::len) word crazy_context \<Rightarrow> crazy_status \<times> 'w word crazy_context" where
  "crazy_context_add_search_path file_path ctx =
     (CRAZY_STATUS_SUCCESS, ctx\<lparr>cc_search_paths := AddPaths file_path (cc_search_paths ctx)\<rparr>)"

definition no_binary_at ::
  "('w::len) word api_env \<Rightarrow> 'w word \<Rightarrow> 'w word crazy_context \<Rightarrow> (crazy_status \<times> 'w word crazy_context) option" where
  "no_binary_at env address ctx =
     do {
       ctx \<leftarrow> format_error (''Could not find ELF binary at address @'' @ ae_pointer env address) ctx;
       Some (CRAZY_STATUS_FAILURE, ctx)
     }"

text \<open>\<open>path\<close> is the local buffer of 512 characters.\<close>

definition crazy_context_add_search_path_for_address ::
  "('w::len) word api_env \<Rightarrow> char list \<Rightarrow> 'w word vm \<Rightarrow> 'w word \<Rightarrow> 'w word crazy_context \<Rightarrow>
     (crazy_status \<times> 'w word crazy_context) option" where
  "crazy_context_add_search_path_for_address env path vm address ctx =
     do {
       (found, _, path) \<leftarrow> FindElfBinaryForAddress (ae_maps env vm) address path;
       let p = (if found then memrchr (CHR ''/'') (c_str path) else None);
       (case p of
          Some i \<Rightarrow>
            if Suc i < length (c_str path) then Some (crazy_context_add_search_path (take i (c_str path)) ctx)
            else no_binary_at env address ctx
        | None \<Rightarrow> no_binary_at env address ctx)
     }"

definition crazy_context_reset_search_paths :: "('w::len) word api_env \<Rightarrow> 'w word crazy_context \<Rightarrow> 'w word crazy_context" where
  "crazy_context_reset_search_paths env ctx = ResetSearchPaths env ctx"

definition crazy_context_set_java_vm :: "('w::len) word \<Rightarrow> int \<Rightarrow> 'w word crazy_context \<Rightarrow> 'w word crazy_context" where
  "crazy_context_set_java_vm jvm minimum_jni_version ctx =
     ctx\<lparr>cc_java_vm := jvm, cc_minimum_jni_version := minimum_jni_version\<rparr>"

definition crazy_context_get_java_vm :: "('w::len) word crazy_context \<Rightarrow> 'w word \<times> int" where
  "crazy_context_get_java_vm ctx = (cc_java_vm ctx, cc_minimum_jni_version ctx)"

definition crazy_context_set_callback_poster ::
  "(rdebug_handler \<times> ('w::len) word \<Rightarrow> bool) option \<Rightarrow> 'w word crazy_context \<Rightarrow> 'w word crazy_context" where
  "crazy_context_set_callback_poster poster ctx = ctx\<lparr>cc_callback_poster := poster\<rparr>"

definition crazy_context_get_callback_poster ::
  "('w::len) word crazy_context \<Rightarrow> (rdebug_handler \<times> 'w word \<Rightarrow> bool) option" where
  "crazy_context_get_callback_poster ctx = cc_callback_poster ctx"

text \<open>\<open>crazy_callback_run\<close>, on the task that waits longest.\<close>

definition crazy_callback_run :: "('w::len) word api_env \<Rightarrow> 'w word globals \<Rightarrow> 'w word globals option" where
  "crazy_callback_run env g =
     do {
       libs \<leftarrow> with_debug (RDebugRunnable_Run (le_rdebug (ae_linker env))) (gl_libraries g);
       Some (g\<lparr>gl_libraries := libs\<rparr>)
     }"

section \<open>Libraries\<close>

text \<open>\<open>ScopedDelayedCallbackPoster\<close>; \<^term>\<open>None\<close> is the null context.\<close>

definition set_poster ::
  "(rdebug_handler \<times> ('w::len) word \<Rightarrow> bool) option \<Rightarrow> 'w word globals \<Rightarrow> 'w word globals" where
  "set_poster poster g =
     g\<lparr>gl_libraries := (gl_libraries g)\<lparr>ll_rdebug := SetDelayedCallbackPoster poster (ll_rdebug (gl_libraries g))\<rparr>\<rparr>"

definition scoped_poster ::
  "('w::len) word crazy_context option \<Rightarrow> ('w word globals \<Rightarrow> ('r \<times> 'w word globals) option) \<Rightarrow> 'w word globals \<Rightarrow>
     ('r \<times> 'w word globals) option" where
  "scoped_poster ctx body g =
     (let poster = (case ctx of None \<Rightarrow> None | Some c \<Rightarrow> cc_callback_poster c) in
      if poster \<noteq> None then do { (r, g) \<leftarrow> body (set_poster poster g); Some (r, set_poster None g) }
      else body g)"

text \<open>\<open>SetJavaVM\<close> on the library of a new view; the view is unloaded again when the library refuses.\<close>

definition open_java ::
  "nat \<Rightarrow> ('w::len) word api_env \<Rightarrow> 'w word \<Rightarrow> 'w word crazy_context \<Rightarrow> 'w word library_list \<Rightarrow>
     (((crazy_status \<times> 'w word option) \<times> 'w word crazy_context) \<times> 'w word library_list) option" where
  "open_java n env w ctx libs =
     do {
       wrap \<leftarrow> ll_views libs w;
       if cc_java_vm ctx \<noteq> 0 \<and> IsCrazy wrap then do {
         lib \<leftarrow> ll_libs libs (GetCrazy wrap);
         (err, lib, vm) \<leftarrow> SetJavaVM (le_run_jni (ae_linker env)) (cc_java_vm ctx) (cc_minimum_jni_version ctx) lib (ll_vm libs);
         let libs = (set_lib (GetCrazy wrap) lib libs)\<lparr>ll_vm := vm\<rparr>;
         (case err of
            Some e \<Rightarrow> do {
              ctx \<leftarrow> format_error (ae_library_message env e) ctx;
              libs \<leftarrow> UnloadLibrary n (ae_linker env) w libs;
              Some (((CRAZY_STATUS_FAILURE, None), ctx), libs)
            }
          | None \<Rightarrow> Some (((CRAZY_STATUS_SUCCESS, Some w), ctx), libs))
       }
       else Some (((CRAZY_STATUS_SUCCESS, Some w), ctx), libs)
     }"

definition library_open_body ::
  "nat \<Rightarrow> ('w::len) word api_env \<Rightarrow> char list \<Rightarrow> 'w word crazy_context \<Rightarrow> 'w word library_list \<Rightarrow>
     (((crazy_status \<times> 'w word option) \<times> 'w word crazy_context) \<times> 'w word library_list) option" where
  "library_open_body n env lib_name ctx libs =
     do {
       (r, paths, libs) \<leftarrow> LoadLibrary n (ae_linker env) lib_name (ae_rtld_now env) (cc_load_address ctx) (cc_file_offset ctx)
          (cc_search_paths ctx) libs;
       let ctx = ctx\<lparr>cc_search_paths := paths\<rparr>;
       (case r of
          Inl e \<Rightarrow> do {
            ctx \<leftarrow> format_error (ae_list_message env e) ctx;
            Some (((CRAZY_STATUS_FAILURE, None), ctx), libs)
          }
        | Inr (w, note) \<Rightarrow> do {
            ctx \<leftarrow> (case note of None \<Rightarrow> Some ctx | Some e \<Rightarrow> format_error (ae_reloc_message env e) ctx);
            open_java n env w ctx libs
          })
     }"

text \<open>An operation on the list of libraries.\<close>

definition on_libraries ::
  "(('w::len) word library_list \<Rightarrow> ('r \<times> 'w word library_list) option) \<Rightarrow> 'w word globals \<Rightarrow> ('r \<times> 'w word globals) option" where
  "on_libraries f g = do { (r, libs) \<leftarrow> f (gl_libraries g); Some (r, g\<lparr>gl_libraries := libs\<rparr>) }"

definition crazy_library_open ::
  "nat \<Rightarrow> ('w::len) word api_env \<Rightarrow> char list \<Rightarrow> 'w word crazy_context \<Rightarrow> 'w word globals \<Rightarrow>
     (((crazy_status \<times> 'w word option) \<times> 'w word crazy_context) \<times> 'w word globals) option" where
  "crazy_library_open n env lib_name ctx =
     scoped_poster (Some ctx) (scoped_lock (on_libraries (library_open_body n env lib_name ctx)))"

text \<open>The handle of a library is the address of its view, 0 is the null handle. An access to a view that is
  gone is \<^term>\<open>None\<close>.\<close>

definition crazy_library_get_info ::
  "('w::len) word api_env \<Rightarrow> 'w word \<Rightarrow> 'w word crazy_context \<Rightarrow> 'w word library_list \<Rightarrow>
     ((crazy_status \<times> ('w word \<times> 'w word \<times> 'w word \<times> 'w word) option) \<times> 'w word crazy_context) option" where
  "crazy_library_get_info env library ctx libs =
     (if library = 0 then do {
        ctx \<leftarrow> assign_error ''Invalid library file handle'' ctx;
        Some ((CRAZY_STATUS_FAILURE, None), ctx)
      }
      else do {
        wrap \<leftarrow> ll_views libs library;
        if IsCrazy wrap \<and> ll_libs libs (GetCrazy wrap) = None then None
        else case LibraryView_GetInfo (the \<circ> ll_libs libs) wrap of
          Inl e \<Rightarrow> do {
            ctx \<leftarrow> assign_error (ae_library_message env e) ctx;
            Some ((CRAZY_STATUS_FAILURE, None), ctx)
          }
        | Inr info \<Rightarrow> Some ((CRAZY_STATUS_SUCCESS, Some info), ctx)
      })"

text \<open>The kernel calls of \<open>Allocate\<close>, \<open>SetProtectionFlags\<close> and the checks, and the close of the region.\<close>

definition crazy_system_can_share_relro :: "('w::len) word kernel \<Rightarrow> 'w word process \<Rightarrow> crazy_status \<times> 'w word process" where
  "crazy_system_can_share_relro k s =
     (case AshmemRegion_Allocate k 4096 None (- 1) s of (ok, fd, s) \<Rightarrow>
      if \<not> ok then (CRAZY_STATUS_FAILURE, snd (AshmemRegion_Reset fd (- 1) s))
      else case AshmemRegion_SetProtectionFlags k fd PROT_READ s of (ok, s) \<Rightarrow>
      if \<not> ok then (CRAZY_STATUS_FAILURE, snd (AshmemRegion_Reset fd (- 1) s))
      else case CheckFileDescriptorIsReadOnly k fd s of (ok, s) \<Rightarrow>
        (if ok then CRAZY_STATUS_SUCCESS else CRAZY_STATUS_FAILURE, snd (AshmemRegion_Reset fd (- 1) s)))"

text \<open>The library of a handle; an error for a null handle and for a system library.\<close>

definition crazy_handle :: "('w::len) word \<Rightarrow> 'w word library_list \<Rightarrow> 'w word option option" where
  "crazy_handle library libs =
     (if library = 0 then Some None
      else do { wrap \<leftarrow> ll_views libs library; Some (if IsCrazy wrap then Some (GetCrazy wrap) else None) })"

text \<open>\<open>s\<close> is the process without its memory, which the list of libraries has.\<close>

definition crazy_library_create_shared_relro ::
  "('w::len) word api_env \<Rightarrow> 'w word kernel \<Rightarrow> 'w word \<Rightarrow> 'w word \<Rightarrow> 'w word crazy_context \<Rightarrow> 'w word process \<Rightarrow>
     'w word globals \<Rightarrow>
     ((crazy_status \<times> ('w word \<times> 'w word \<times> int) option) \<times> 'w word crazy_context \<times> 'w word process \<times> 'w word globals) option" where
  "crazy_library_create_shared_relro env k library load_address ctx s g =
     do {
       h \<leftarrow> crazy_handle library (gl_libraries g);
       (case h of
          None \<Rightarrow> do {
            ctx \<leftarrow> assign_error ''Invalid library file handle'' ctx;
            Some ((CRAZY_STATUS_FAILURE, None), ctx, s, g)
          }
        | Some p \<Rightarrow> do {
            lib \<leftarrow> ll_libs (gl_libraries g) p;
            let (r, s) = CreateSharedRelro (le_arch (ae_linker env)) k load_address lib (s\<lparr>pr_vm := ll_vm (gl_libraries g)\<rparr>);
            let g = g\<lparr>gl_libraries := (gl_libraries g)\<lparr>ll_vm := pr_vm s\<rparr>\<rparr>;
            (case r of
               Inl e \<Rightarrow> do {
                 ctx \<leftarrow> format_error (ae_relro_message env e) ctx;
                 Some ((CRAZY_STATUS_FAILURE, None), ctx, s, g)
               }
             | Inr relro \<Rightarrow> Some ((CRAZY_STATUS_SUCCESS, Some relro), ctx, s, g))
          })
     }"

definition crazy_library_use_shared_relro ::
  "('w::len) word api_env \<Rightarrow> 'w word kernel \<Rightarrow> 'w word \<Rightarrow> 'w word \<Rightarrow> 'w word \<Rightarrow> int \<Rightarrow> 'w word crazy_context \<Rightarrow>
     'w word process \<Rightarrow> 'w word globals \<Rightarrow>
     (crazy_status \<times> 'w word crazy_context \<times> 'w word process \<times> 'w word globals) option" where
  "crazy_library_use_shared_relro env k library start len fd ctx s g =
     do {
       h \<leftarrow> crazy_handle library (gl_libraries g);
       (case h of
          None \<Rightarrow> do {
            ctx \<leftarrow> assign_error ''Invalid library file handle'' ctx;
            Some (CRAZY_STATUS_FAILURE, ctx, s, g)
          }
        | Some p \<Rightarrow> do {
            lib \<leftarrow> ll_libs (gl_libraries g) p;
            let (ok, err, lib, s) = UseSharedRelro k start len fd lib (s\<lparr>pr_vm := ll_vm (gl_libraries g)\<rparr>);
            let g = g\<lparr>gl_libraries := (set_lib p lib (gl_libraries g))\<lparr>ll_vm := pr_vm s\<rparr>\<rparr>;
            ctx \<leftarrow> (case err of None \<Rightarrow> Some ctx | Some e \<Rightarrow> format_error (ae_library_message env e) ctx);
            Some (if ok then CRAZY_STATUS_SUCCESS else CRAZY_STATUS_FAILURE, ctx, s, g)
          })
     }"

text \<open>\<open>AddRef\<close> on a view that was found.\<close>

definition ref_found ::
  "('w::len) word option \<Rightarrow> 'w word library_list \<Rightarrow> ((crazy_status \<times> 'w word option) \<times> 'w word library_list) option" where
  "ref_found found libs =
     (case found of
        None \<Rightarrow> Some ((CRAZY_STATUS_FAILURE, None), libs)
      | Some w \<Rightarrow> do { wrap \<leftarrow> ll_views libs w; Some ((CRAZY_STATUS_SUCCESS, Some w), set_view w (AddRef wrap) libs) })"

definition crazy_library_find_by_name ::
  "char list option \<Rightarrow> ('w::len) word globals \<Rightarrow> ((crazy_status \<times> 'w word option) \<times> 'w word globals) option" where
  "crazy_library_find_by_name library_name =
     scoped_lock (on_libraries (\<lambda>libs. ref_found (FindLibraryByName libs library_name) libs))"

definition crazy_library_find_symbol ::
  "('w::len) word api_env \<Rightarrow> 'w word \<Rightarrow> byte list \<Rightarrow> 'w word globals \<Rightarrow> (crazy_status \<times> 'w word) option" where
  "crazy_library_find_symbol env library symbol_name g =
     do {
       a \<leftarrow> LibraryView_LookupSymbol (ae_linker env) (gl_libraries g) symbol_name library;
       Some (if a = 0 then CRAZY_STATUS_FAILURE else CRAZY_STATUS_SUCCESS, a)
     }"

definition crazy_linker_find_symbol :: "byte list \<Rightarrow> crazy_status" where
  "crazy_linker_find_symbol symbol_name = CRAZY_STATUS_FAILURE"

definition crazy_library_find_from_address ::
  "('w::len) word \<Rightarrow> 'w word globals \<Rightarrow> ((crazy_status \<times> 'w word option) \<times> 'w word globals) option" where
  "crazy_library_find_from_address address =
     scoped_lock (on_libraries (\<lambda>libs. ref_found (FindLibraryForAddress libs address) libs))"

definition crazy_library_close_with_context ::
  "nat \<Rightarrow> ('w::len) word api_env \<Rightarrow> 'w word \<Rightarrow> 'w word crazy_context option \<Rightarrow> 'w word globals \<Rightarrow> (unit \<times> 'w word globals) option" where
  "crazy_library_close_with_context n env library ctx g =
     (if library \<noteq> 0
      then scoped_poster ctx (scoped_lock (on_libraries (\<lambda>libs.
             do { libs \<leftarrow> UnloadLibrary n (ae_linker env) library libs; Some ((), libs) }))) g
      else Some ((), g))"

definition crazy_library_close ::
  "nat \<Rightarrow> ('w::len) word api_env \<Rightarrow> 'w word \<Rightarrow> 'w word globals \<Rightarrow> (unit \<times> 'w word globals) option" where
  "crazy_library_close n env library = crazy_library_close_with_context n env library None"

section \<open>The wrappers of the dynamic linker's functions\<close>

definition SaveSystemError :: "('w::len) word api_env \<Rightarrow> thread_data \<Rightarrow> thread_data option" where
  "SaveSystemError env td = SetErrorArgs (map_option (ae_as_format env) (ae_dlerror env)) td"

definition dlopen_system ::
  "('w::len) word api_env \<Rightarrow> char list option \<Rightarrow> int \<Rightarrow> thread_data \<Rightarrow> 'w word globals \<Rightarrow>
     (('w word \<times> thread_data) \<times> 'w word globals) option" where
  "dlopen_system env path mode td g =
     (let system_lib = (case path of None \<Rightarrow> ae_dlopen_exe env mode | Some p \<Rightarrow> le_dlopen (ae_linker env) p mode) in
      if system_lib = 0 then do { td \<leftarrow> SaveSystemError env td; Some ((0, td), g) }
      else do {
        (w, libs) \<leftarrow> new_object (ae_linker env) (gl_libraries g);
        let name = (case path of None \<Rightarrow> ''<executable>'' | Some p \<Rightarrow> p);
        let libs = AddLibrary w (set_view w (SetSystem system_lib name LibraryView_Init) libs);
        Some ((w, td), g\<lparr>gl_libraries := libs\<rparr>)
      })"

definition WrapDlopen ::
  "nat \<Rightarrow> ('w::len) word api_env \<Rightarrow> char list option \<Rightarrow> int \<Rightarrow> thread_data \<Rightarrow> 'w word globals \<Rightarrow>
     (('w word \<times> thread_data) \<times> 'w word globals) option" where
  "WrapDlopen n env path mode td = scoped_lock (\<lambda>g.
     case path of
       None \<Rightarrow> dlopen_system env path mode td g
     | Some lib_name \<Rightarrow>
         do {
           (r, paths, libs) \<leftarrow> LoadLibrary n (ae_linker env) lib_name mode 0 0 (gl_search_paths g) (gl_libraries g);
           let g = g\<lparr>gl_libraries := libs, gl_search_paths := paths\<rparr>;
           (case r of
              Inr (w, _) \<Rightarrow> Some ((w, td), g)
            | Inl _ \<Rightarrow> dlopen_system env path mode td g)
         })"

text \<open>\<open>quoted\<close> is \<open>'%s'\<close>.\<close>

definition quoted :: "char list \<Rightarrow> char list" where
  "quoted s = CHR 0x27 # s @ [CHR 0x27]"

definition linker_error ::
  "char list \<Rightarrow> thread_data \<Rightarrow> ('w::len) word globals \<Rightarrow> (('w word \<times> thread_data) \<times> 'w word globals) option" where
  "linker_error message td g = do { td \<leftarrow> SetErrorArgs (Some message) td; Some ((0, td), g) }"

definition WrapDlsym ::
  "('w::len) word api_env \<Rightarrow> 'w word \<Rightarrow> byte list option \<Rightarrow> thread_data \<Rightarrow> 'w word globals \<Rightarrow>
     (('w word \<times> thread_data) \<times> 'w word globals) option" where
  "WrapDlsym env lib_handle symbol_name td g =
     (case symbol_name of
        None \<Rightarrow> linker_error ''dlsym: NULL symbol name'' td g
      | Some name \<Rightarrow>
          if lib_handle = 0 then linker_error ''dlsym: NULL library handle'' td g
          else if lib_handle = ae_rtld_default env \<or> lib_handle = ae_rtld_next env
          then linker_error ''dlsym: RTLD_DEFAULT/RTLD_NEXT are not implemented!'' td g
          else do {
            wrap \<leftarrow> ll_views (gl_libraries g) lib_handle;
            if IsSystem wrap then
              (let result = le_dlsym (ae_linker env) (lv_system wrap) name in
               if result = 0 then do { td \<leftarrow> SaveSystemError env td; Some ((0, td), g) }
               else Some ((result, td), g))
            else if IsCrazy wrap then
              scoped_lock (\<lambda>g. do {
                addr \<leftarrow> FindSymbolFrom (ae_linker env) (gl_libraries g) name (Some lib_handle);
                if addr \<noteq> 0 then Some ((addr, td), g)
                else linker_error (''dlsym: Could not find '' @ quoted (chars_of name) @ '' from library '' @ quoted (lv_name wrap)) td g
              }) g
            else linker_error (''dlsym: Invalid library handle '' @ ae_pointer env lib_handle @ '' looking for '' @ quoted (chars_of name)) td g
          })"

definition WrapDladdr ::
  "('w::len) word api_env \<Rightarrow> 'w word \<Rightarrow> 'w word dl_info \<Rightarrow> thread_data \<Rightarrow> 'w word globals \<Rightarrow>
     ((int \<times> 'w word dl_info \<times> thread_data) \<times> 'w word globals) option" where
  "WrapDladdr env address info td g =
     do {
       (found, g) \<leftarrow> scoped_lock (\<lambda>g.
         case FindLibraryForAddress (gl_libraries g) address of
           None \<Rightarrow> Some (None, g)
         | Some w \<Rightarrow> do {
             wrap \<leftarrow> ll_views (gl_libraries g) w;
             if \<not> IsCrazy wrap then Some (None, g)
             else do {
               lib \<leftarrow> ll_libs (gl_libraries g) (GetCrazy wrap);
               let (sname, saddr) = (case FindNearestSymbolForAddress (ll_vm (gl_libraries g)) lib address of
                 None \<Rightarrow> (0, 0) | Some (n, a, _) \<Rightarrow> (n, a));
               Some (Some \<lparr>dli_fname = base_name lib, dli_fbase = lib_address lib, dli_sname = sname, dli_saddr = saddr\<rparr>, g)
             }
           }) g;
       (case found of
          Some info \<Rightarrow> Some ((0, info, td), g)
        | None \<Rightarrow>
            let (ret, info) = ae_dladdr env address info in
            if ret \<noteq> 0 then do { td \<leftarrow> SaveSystemError env td; Some ((ret, info, td), g) }
            else Some ((ret, info, td), g))
     }"

definition WrapDlclose ::
  "nat \<Rightarrow> ('w::len) word api_env \<Rightarrow> 'w word \<Rightarrow> thread_data \<Rightarrow> 'w word globals \<Rightarrow> ((int \<times> thread_data) \<times> 'w word globals) option" where
  "WrapDlclose n env lib_handle td g =
     (if lib_handle = 0 then do { td \<leftarrow> SetErrorArgs (Some ''NULL library handle'') td; Some ((- 1, td), g) }
      else do {
        wrap_lib \<leftarrow> ll_views (gl_libraries g) lib_handle;
        if IsSystem wrap_lib \<or> IsCrazy wrap_lib then
          scoped_lock (on_libraries (\<lambda>libs.
            do { libs \<leftarrow> UnloadLibrary n (ae_linker env) lib_handle libs; Some ((0, td), libs) })) g
        else do {
          td \<leftarrow> SetErrorArgs (Some (''Invalid library handle '' @ ae_pointer env lib_handle)) td;
          Some ((- 1, td), g)
        }
      })"

definition WrapDl_unwind_find_exidx ::
  "('w::len) word api_env \<Rightarrow> 'w word \<Rightarrow> 'w word globals \<Rightarrow> (('w word \<times> nat) \<times> 'w word globals) option" where
  "WrapDl_unwind_find_exidx env pc g =
     do {
       ((result, pcount), g) \<leftarrow> scoped_lock (on_libraries (\<lambda>libs.
         do { r \<leftarrow> FindArmExIdx libs pc; Some (r, libs) })) g;
       Some (if result \<noteq> 0 then (result, pcount) else ae_exidx env pc, g)
     }"

text \<open>\<open>system\<close> is \<open>::dl_iterate_phdr\<close>.\<close>

definition WrapDl_iterate_phdr ::
  "((('w::len) word dl_phdr_info \<Rightarrow> 'd \<Rightarrow> int \<times> 'd) \<Rightarrow> 'd \<Rightarrow> int \<times> 'd) \<Rightarrow> ('w word dl_phdr_info \<Rightarrow> 'd \<Rightarrow> int \<times> 'd) \<Rightarrow>
     'd \<Rightarrow> 'w word globals \<Rightarrow> ((int \<times> 'd) \<times> 'w word globals) option" where
  "WrapDl_iterate_phdr system cb data g =
     do {
       ((result, data), g) \<leftarrow> scoped_lock (on_libraries (\<lambda>libs.
         do { r \<leftarrow> IteratePhdr cb libs data; Some (r, libs) })) g;
       Some (if result \<noteq> 0 then (result, data) else system cb data, g)
     }"

section \<open>The lock and the list between calls\<close>

definition api_ok :: "('w::len) word globals \<Rightarrow> bool" where
  "api_ok g \<longleftrightarrow> \<not> gl_locked g \<and> list_inv {} {} (gl_libraries g)"

text \<open>The calls of a client, made one after another: it closes handles it has, and passes handles it has.\<close>

inductive api_reachable :: "('w::len) word api_env \<Rightarrow> 'w word globals \<Rightarrow> bool" for env where
  start: "api_reachable env (Globals_Init env vm)"
| library_open: "api_reachable env g \<Longrightarrow> crazy_library_open n env name ctx g = Some (r, g') \<Longrightarrow> api_reachable env g'"
| library_close: "api_reachable env g \<Longrightarrow> w \<in> set (known_libraries (gl_libraries g)) \<Longrightarrow>
    crazy_library_close_with_context n env w ctx g = Some (r', g') \<Longrightarrow> api_reachable env g'"
| by_name: "api_reachable env g \<Longrightarrow> crazy_library_find_by_name lib_name g = Some (r, g') \<Longrightarrow> api_reachable env g'"
| from_address: "api_reachable env g \<Longrightarrow> crazy_library_find_from_address address g = Some (r, g') \<Longrightarrow> api_reachable env g'"
| create_relro: "api_reachable env g \<Longrightarrow>
    crazy_library_create_shared_relro env k w load_address ctx s g = Some (c, ctx', s', g') \<Longrightarrow> api_reachable env g'"
| use_relro: "api_reachable env g \<Longrightarrow>
    crazy_library_use_shared_relro env k w start len fd ctx s g = Some (status, ctx', s', g') \<Longrightarrow> api_reachable env g'"
| run_callback: "api_reachable env g \<Longrightarrow> crazy_callback_run env g = Some g' \<Longrightarrow> api_reachable env g'"
| dlopen: "api_reachable env g \<Longrightarrow> WrapDlopen n env path mode td g = Some (h, g') \<Longrightarrow> api_reachable env g'"
| dlsym: "api_reachable env g \<Longrightarrow> WrapDlsym env w symbol td g = Some (h, g') \<Longrightarrow> api_reachable env g'"
| dladdr: "api_reachable env g \<Longrightarrow> WrapDladdr env address info td g = Some (d, g') \<Longrightarrow> api_reachable env g'"
| dlclose: "api_reachable env g \<Longrightarrow> w \<in> set (known_libraries (gl_libraries g)) \<Longrightarrow>
    WrapDlclose n env w td g = Some (e, g') \<Longrightarrow> api_reachable env g'"
| find_exidx: "api_reachable env g \<Longrightarrow> WrapDl_unwind_find_exidx env pc g = Some (x, g') \<Longrightarrow> api_reachable env g'"

lemma scoped_lock_ok:
  assumes "scoped_lock body g = Some (r, g')" "api_ok g"
    and "\<And>g r g'. body g = Some (r, g') \<Longrightarrow> list_inv {} {} (gl_libraries g) \<Longrightarrow> list_inv {} {} (gl_libraries g')"
  shows "api_ok g'"
proof -
  obtain h where "body (g\<lparr>gl_locked := True\<rparr>) = Some (r, h)" "g' = Globals_Unlock h"
    using assms(1) by (auto simp: scoped_lock_def Globals_Lock_def bind_eq_Some_conv split: if_splits)
  with assms(3) [of "g\<lparr>gl_locked := True\<rparr>"] assms(2) show ?thesis by (simp add: api_ok_def Globals_Unlock_def)
qed

lemma locked_blocks: "gl_locked g \<Longrightarrow> scoped_lock body g = None"
  by (simp add: scoped_lock_def Globals_Lock_def)

lemma on_libraries_ok:
  assumes "on_libraries f g = Some (r, g')" "list_inv {} {} (gl_libraries g)"
    and "\<And>st r st'. f st = Some (r, st') \<Longrightarrow> list_inv {} {} st \<Longrightarrow> list_inv {} {} st'"
  shows "list_inv {} {} (gl_libraries g')"
  using assms by (auto simp: on_libraries_def bind_eq_Some_conv)

lemma set_poster_ok [simp]: "api_ok (set_poster poster g) = api_ok g"
  by (simp add: api_ok_def set_poster_def)

lemma scoped_poster_ok:
  assumes "scoped_poster ctx body g = Some (r, g')" "api_ok g"
    and "\<And>g r g'. body g = Some (r, g') \<Longrightarrow> api_ok g \<Longrightarrow> api_ok g'"
  shows "api_ok g'"
  using assms by (auto simp: scoped_poster_def Let_def bind_eq_Some_conv split: if_splits)

lemma known_of_view: "list_inv {} {} st \<Longrightarrow> ll_views st w = Some v \<Longrightarrow> w \<in> set (known_libraries st)"
  unfolding list_inv_def objects_def by (metis domI)

text \<open>A change of a library that leaves the links of the chain alone.\<close>

lemma set_lib_links:
  assumes "ll_libs st p = Some lib" "list_next lib' = list_next lib" "list_prev lib' = list_prev lib"
  shows "list_inv D P (set_lib p lib' st) = list_inv D P st"
proof -
  have "dom (ll_libs (set_lib p lib' st)) = dom (ll_libs st)" using assms(1) by (auto simp: set_lib_def)
  moreover have "lib_next (set_lib p lib' st) = lib_next st" "lib_prev (set_lib p lib' st) = lib_prev st"
    using assms by (auto simp: fun_eq_iff lib_next_def lib_prev_def set_lib_def)
  moreover have "crazy_of (set_lib p lib' st) = crazy_of st" by simp
  ultimately show ?thesis
    unfolding list_inv_def objects_def chain_def in_use_def by (simp add: set_lib_def)
qed

lemma SetJavaVM_links:
  "SetJavaVM run jvm v lib vm = Some (err, lib', vm') \<Longrightarrow> list_next lib' = list_next lib \<and> list_prev lib' = list_prev lib"
  by (auto simp: SetJavaVM_def bind_eq_Some_conv split: if_splits prod.split_asm)

lemma UseSharedRelro_links:
  "UseSharedRelro k start len fd lib s = (ok, err, lib', s') \<Longrightarrow> list_next lib' = list_next lib \<and> list_prev lib' = list_prev lib"
  by (auto simp: UseSharedRelro_def split: if_splits prod.split_asm)

lemma LoadLibrary_known:
  assumes "LoadLibrary n env name mode addr offs spl st = Some (Inr (w, note), spl', st')"
  shows "w \<in> set (known_libraries st')"
proof (cases n)
  case (Suc k)
  show ?thesis
  proof (cases "FindKnownLibrary st name")
    case (Some x)
    with assms Suc show ?thesis
      using FindKnownLibrary_known [OF Some] by (auto simp: load_known_def bind_eq_Some_conv set_view_def split: if_splits)
  next
    case None
    show ?thesis
    proof (cases "IsSystemLibrary name")
      case True
      with None assms Suc show ?thesis
        by (auto simp: load_system_def bind_eq_Some_conv Let_def AddLibrary_def set_view_def split: if_splits)
    next
      case False
      with None assms Suc show ?thesis by (auto dest!: load_crazy_success register_named)
    qed
  qed
qed (use assms in simp)

lemma open_java_ok:
  assumes "open_java n env w ctx st = Some (r, st')" "list_inv {} {} st"
  shows "list_inv {} {} st'"
proof -
  obtain v where v: "ll_views st w = Some v" using assms(1) by (auto simp: open_java_def bind_eq_Some_conv)
  show ?thesis
  proof (cases "cc_java_vm ctx \<noteq> 0 \<and> IsCrazy v")
    case False
    with assms v show ?thesis by (simp add: open_java_def)
  next
    case True
    with assms(1) v obtain lib err lib' vm where
      lib: "ll_libs st (GetCrazy v) = Some lib"
      and jni: "SetJavaVM (le_run_jni (ae_linker env)) (cc_java_vm ctx) (cc_minimum_jni_version ctx) lib (ll_vm st) = Some (err, lib', vm)"
      by (auto simp: open_java_def bind_eq_Some_conv)
    let ?st = "(set_lib (GetCrazy v) lib' st)\<lparr>ll_vm := vm\<rparr>"
    have inv: "list_inv {} {} ?st" using set_lib_links [OF lib] SetJavaVM_links [OF jni] assms(2) by simp
    show ?thesis
    proof (cases err)
      case None
      with True assms(1) v lib jni inv show ?thesis by (simp add: open_java_def)
    next
      case (Some e)
      have "w \<in> set (known_libraries ?st)" using known_of_view [OF assms(2) v] by (simp add: set_lib_def)
      moreover obtain st2 where "UnloadLibrary n (ae_linker env) w ?st = Some st2" "st' = st2"
        using True assms(1) v lib jni Some by (auto simp: open_java_def bind_eq_Some_conv)
      ultimately show ?thesis using UnloadLibrary_inv [OF inv] by blast
    qed
  qed
qed

lemma library_open_body_ok:
  assumes "library_open_body n env name ctx st = Some (r, st')" "list_inv {} {} st"
  shows "list_inv {} {} st'"
proof -
  obtain l paths st1 where load: "LoadLibrary n (ae_linker env) name (ae_rtld_now env) (cc_load_address ctx) (cc_file_offset ctx)
      (cc_search_paths ctx) st = Some (l, paths, st1)"
    using assms(1) by (auto simp: library_open_body_def bind_eq_Some_conv)
  have inv: "list_inv {} {} st1" by (rule LoadLibrary_inv [OF assms(2) load])
  show ?thesis
    using assms(1) load inv by (cases l) (auto simp: library_open_body_def bind_eq_Some_conv Let_def intro: open_java_ok)
qed

lemma ref_found_ok:
  "ref_found found st = Some (r, st') \<Longrightarrow> list_inv {} {} st \<Longrightarrow> list_inv {} {} st'"
proof -
  assume found: "ref_found found st = Some (r, st')" and inv: "list_inv {} {} st"
  show "list_inv {} {} st'"
  proof (cases found)
    case (Some w)
    with found obtain v where v: "ll_views st w = Some v" "st' = set_view w (AddRef v) st"
      by (auto simp: ref_found_def bind_eq_Some_conv)
    moreover have "1 \<le> lv_ref_count v" using inv objects_view [of "{}" "{}" st w v] v by (simp add: list_inv_def)
    ultimately show ?thesis using inv set_view_counts [OF v(1), of "AddRef v"] by (simp add: AddRef_def)
  qed (use found inv in \<open>simp add: ref_found_def\<close>)
qed

lemma unload_ok:
  assumes "w \<in> set (known_libraries (gl_libraries g))" "api_ok g"
    and "scoped_lock (on_libraries (\<lambda>libs. do { libs \<leftarrow> UnloadLibrary n env w libs; Some (r, libs) })) g = Some (r', g')"
  shows "api_ok g'"
proof -
  obtain st where "UnloadLibrary n env w (gl_libraries g) = Some st" "g' = g\<lparr>gl_locked := False, gl_libraries := st\<rparr>"
    using assms(3) by (auto simp: scoped_lock_def on_libraries_def Globals_Lock_def Globals_Unlock_def bind_eq_Some_conv split: if_splits)
  with UnloadLibrary_inv [of "{}" "{}" "gl_libraries g" w n env st] assms(1,2) show ?thesis by (simp add: api_ok_def)
qed

lemma library_open_ok:
  assumes "crazy_library_open n env name ctx g = Some (r, g')" "api_ok g"
  shows "api_ok g'"
proof (rule scoped_poster_ok [OF assms [unfolded crazy_library_open_def]])
  fix h :: "'a word globals" and q and h' :: "'a word globals"
  assume "scoped_lock (on_libraries (library_open_body n env name ctx)) h = Some (q, h')" "api_ok h"
  then show "api_ok h'" by (rule scoped_lock_ok) (blast intro: on_libraries_ok library_open_body_ok)
qed

lemma library_close_ok:
  assumes "crazy_library_close_with_context n env w ctx g = Some (r, g')" "w \<in> set (known_libraries (gl_libraries g))" "api_ok g"
  shows "api_ok g'"
proof -
  have "w \<in> set (known_libraries (gl_libraries (set_poster p g)))" for p
    using assms(2) by (simp add: set_poster_def)
  note poster = unload_ok [OF this set_poster_ok [THEN iffD2, OF assms(3)]]
  show ?thesis
    using assms unload_ok [OF assms(2,3)] poster
    by (auto simp: crazy_library_close_with_context_def scoped_poster_def Let_def bind_eq_Some_conv split: if_splits)
qed

lemma dlopen_system_inv:
  "dlopen_system env path mode td g = Some (r, g') \<Longrightarrow> list_inv {} {} (gl_libraries g) \<Longrightarrow> list_inv {} {} (gl_libraries g')"
  by (auto simp: dlopen_system_def Let_def bind_eq_Some_conv intro: new_system_view split: if_splits)

lemma WrapDlopen_ok:
  assumes "WrapDlopen n env path mode td g = Some (r, g')" "api_ok g"
  shows "api_ok g'"
  using assms(1) unfolding WrapDlopen_def
proof (rule scoped_lock_ok)
  fix h :: "'a word globals" and q h'
  assume h: "(case path of None \<Rightarrow> dlopen_system env path mode td h
     | Some lib_name \<Rightarrow>
         do {
           (r, paths, libs) \<leftarrow> LoadLibrary n (ae_linker env) lib_name mode 0 0 (gl_search_paths h) (gl_libraries h);
           let g = h\<lparr>gl_libraries := libs, gl_search_paths := paths\<rparr>;
           (case r of Inr (w, _) \<Rightarrow> Some ((w, td), g) | Inl _ \<Rightarrow> dlopen_system env path mode td g)
         }) = Some (q, h')" and inv: "list_inv {} {} (gl_libraries h)"
  show "list_inv {} {} (gl_libraries h')"
  proof (cases path)
    case None
    with h inv show ?thesis by (auto intro: dlopen_system_inv)
  next
    case (Some name)
    with h obtain l paths st where load: "LoadLibrary n (ae_linker env) name mode 0 0 (gl_search_paths h) (gl_libraries h) = Some (l, paths, st)"
      by (auto simp: bind_eq_Some_conv)
    let ?g = "h\<lparr>gl_libraries := st, gl_search_paths := paths\<rparr>"
    have "list_inv {} {} (gl_libraries ?g)" using LoadLibrary_inv [OF inv load] by simp
    with h Some load dlopen_system_inv [of env path mode td ?g] show ?thesis by (cases l) (auto simp: Let_def)
  qed
qed (rule assms(2))

lemma lock_only_ok:
  assumes "scoped_lock body g = Some (r, g')" "api_ok g" "\<And>g r g'. body g = Some (r, g') \<Longrightarrow> gl_libraries g' = gl_libraries g"
  shows "api_ok g'"
  using assms(1,2) by (rule scoped_lock_ok) (simp add: assms(3))

lemma linker_error_same: "linker_error message td g = Some (r, g') \<Longrightarrow> g' = g"
  by (auto simp: linker_error_def bind_eq_Some_conv)

lemma WrapDlsym_ok:
  assumes "WrapDlsym env w symbol td g = Some (r, g')" "api_ok g"
  shows "api_ok g'"
proof -
  have lock: "api_ok g'" if "scoped_lock (\<lambda>g. do {
                addr \<leftarrow> FindSymbolFrom (ae_linker env) (gl_libraries g) name (Some w);
                if addr \<noteq> 0 then Some ((addr, td), g) else linker_error message td g
              }) g = Some (r, g')" for name message
    using that assms(2) by (rule lock_only_ok) (auto simp: bind_eq_Some_conv dest: linker_error_same split: if_splits)
  show ?thesis
    using assms by (auto simp: WrapDlsym_def bind_eq_Some_conv Let_def split: option.split_asm if_split_asm dest: linker_error_same lock)
qed

lemma WrapDladdr_ok:
  assumes "WrapDladdr env address info td g = Some (r, g')" "api_ok g"
  shows "api_ok g'"
proof -
  obtain found g1 where "scoped_lock (\<lambda>g.
         case FindLibraryForAddress (gl_libraries g) address of
           None \<Rightarrow> Some (None, g)
         | Some w \<Rightarrow> do {
             wrap \<leftarrow> ll_views (gl_libraries g) w;
             if \<not> IsCrazy wrap then Some (None, g)
             else do {
               lib \<leftarrow> ll_libs (gl_libraries g) (GetCrazy wrap);
               let (sname, saddr) = (case FindNearestSymbolForAddress (ll_vm (gl_libraries g)) lib address of
                 None \<Rightarrow> (0, 0) | Some (n, a, _) \<Rightarrow> (n, a));
               Some (Some \<lparr>dli_fname = base_name lib, dli_fbase = lib_address lib, dli_sname = sname, dli_saddr = saddr\<rparr>, g)
             }
           }) g = Some (found, g1)" and "g' = g1"
    using assms(1) by (auto simp: WrapDladdr_def bind_eq_Some_conv Let_def split: option.split_asm if_splits prod.split_asm)
  from this(1) assms(2) have "api_ok g1"
    by (rule lock_only_ok) (auto simp: bind_eq_Some_conv case_prod_unfold split: option.split_asm if_splits)
  with \<open>g' = g1\<close> show ?thesis by simp
qed

lemma create_relro_ok:
  assumes "crazy_library_create_shared_relro env k w load_address ctx s g = Some (c, ctx', s', g')" "api_ok g"
  shows "api_ok g'"
proof -
  obtain h where h: "crazy_handle w (gl_libraries g) = Some h"
    using assms(1) by (auto simp: crazy_library_create_shared_relro_def bind_eq_Some_conv)
  have "g' = g \<or> (\<exists>vm. g' = g\<lparr>gl_libraries := (gl_libraries g)\<lparr>ll_vm := vm\<rparr>\<rparr>)"
  proof (cases h)
    case None
    with h assms show ?thesis by (auto simp: crazy_library_create_shared_relro_def bind_eq_Some_conv)
  next
    case (Some p)
    with h assms(1) obtain lib where lib: "ll_libs (gl_libraries g) p = Some lib"
      by (auto simp: crazy_library_create_shared_relro_def bind_eq_Some_conv)
    obtain q s1 where "CreateSharedRelro (le_arch (ae_linker env)) k load_address lib (s\<lparr>pr_vm := ll_vm (gl_libraries g)\<rparr>) = (q, s1)"
      by fastforce
    with assms(1) h Some lib show ?thesis
      by (cases q) (auto simp: crazy_library_create_shared_relro_def bind_eq_Some_conv)
  qed
  with assms(2) show ?thesis by (auto simp: api_ok_def)
qed

lemma use_relro_ok:
  assumes "crazy_library_use_shared_relro env k w start len fd ctx s g = Some (status, ctx', s', g')" "api_ok g"
  shows "api_ok g'"
proof -
  obtain h where h: "crazy_handle w (gl_libraries g) = Some h"
    using assms(1) by (auto simp: crazy_library_use_shared_relro_def bind_eq_Some_conv)
  show ?thesis
  proof (cases h)
    case None
    with h assms show ?thesis by (auto simp: crazy_library_use_shared_relro_def bind_eq_Some_conv)
  next
    case (Some p)
    with h assms(1) obtain lib where lib: "ll_libs (gl_libraries g) p = Some lib"
      by (auto simp: crazy_library_use_shared_relro_def bind_eq_Some_conv)
    obtain ok err lib' s1 where use: "UseSharedRelro k start len fd lib (s\<lparr>pr_vm := ll_vm (gl_libraries g)\<rparr>) = (ok, err, lib', s1)"
      by (metis prod_cases4)
    have "g' = g\<lparr>gl_libraries := (set_lib p lib' (gl_libraries g))\<lparr>ll_vm := pr_vm s1\<rparr>\<rparr>"
      using assms(1) h Some lib use by (auto simp: crazy_library_use_shared_relro_def bind_eq_Some_conv)
    with set_lib_links [OF lib] UseSharedRelro_links [OF use] assms(2) show ?thesis by (simp add: api_ok_def)
  qed
qed

lemma callback_run_ok: "crazy_callback_run env g = Some g' \<Longrightarrow> api_ok g \<Longrightarrow> api_ok g'"
  by (auto simp: crazy_callback_run_def bind_eq_Some_conv api_ok_def with_debug_frame)

lemma WrapDlclose_ok:
  "WrapDlclose n env w td g = Some (r, g') \<Longrightarrow> w \<in> set (known_libraries (gl_libraries g)) \<Longrightarrow> api_ok g \<Longrightarrow> api_ok g'"
  by (auto simp: WrapDlclose_def bind_eq_Some_conv split: if_split_asm dest: unload_ok)

lemma find_exidx_ok:
  assumes "WrapDl_unwind_find_exidx env pc g = Some (x, g')" "api_ok g"
  shows "api_ok g'"
proof -
  obtain q where "scoped_lock (on_libraries (\<lambda>libs. do { r \<leftarrow> FindArmExIdx libs pc; Some (r, libs) })) g = Some (q, g')"
    using assms(1) by (auto simp: WrapDl_unwind_find_exidx_def bind_eq_Some_conv)
  then show ?thesis using assms(2) by (rule lock_only_ok) (auto simp: on_libraries_def bind_eq_Some_conv)
qed

lemma find_ok:
  assumes "scoped_lock (on_libraries (\<lambda>libs. ref_found (search libs) libs)) g = Some (r, g')" "api_ok g"
  shows "api_ok g'"
  using assms by (rule scoped_lock_ok) (blast intro: on_libraries_ok ref_found_ok)

lemmas api_calls_ok = library_open_ok library_close_ok find_ok create_relro_ok use_relro_ok callback_run_ok WrapDlopen_ok
  WrapDlsym_ok WrapDladdr_ok WrapDlclose_ok find_exidx_ok

lemma Globals_Init_ok: "api_ok (Globals_Init env vm)"
  by (simp add: api_ok_def Globals_Init_def list_inv_Init)

section \<open>An example\<close>

definition demo_api :: "32 word api_env" where
  "demo_api = \<lparr>ae_linker = demo_env, ae_list_message = (\<lambda>_. ''no''), ae_reloc_message = (\<lambda>_. ''no''), ae_library_message = (\<lambda>_. ''no''),
     ae_relro_message = (\<lambda>_. ''no''), ae_pointer = (\<lambda>_. ''0''), ae_as_format = (\<lambda>s. s), ae_getenv = (\<lambda>_. None),
     ae_maps = (\<lambda>_. \<lparr>pm_index = 0, pm_entries = []\<rparr>), ae_dlerror = None, ae_dlopen_exe = (\<lambda>_. 0x78), ae_dladdr = (\<lambda>_ info. (1, info)),
     ae_exidx = (\<lambda>_. (0, 0)), ae_rtld_now = 0, ae_rtld_default = - 1, ae_rtld_next = - 2\<rparr>"

definition demo_ctx :: "32 word crazy_context" where
  "demo_ctx = \<lparr>cc_load_address = 0, cc_file_offset = 0, cc_error = replicate 512 NUL, cc_search_paths = SearchPathList_Init,
     cc_java_vm = 0, cc_minimum_jni_version = 0, cc_callback_poster = None\<rparr>"

definition demo_libc :: "32 word library_list" where
  "demo_libc = AddLibrary 0x40 (set_view 0x40 (SetSystem 0x77 ''libc.so'' LibraryView_Init)
     ((LibraryList_Init sym_image)\<lparr>ll_live := [0x40]\<rparr>))"

lemma demo_open:
  "crazy_library_open 1 demo_api ''libc.so'' demo_ctx (Globals_Init demo_api sym_image) =
     Some (((CRAZY_STATUS_SUCCESS, Some 0x40), demo_ctx), (Globals_Init demo_api sym_image)\<lparr>gl_libraries := demo_libc\<rparr>)"
proof -
  have view: "ll_views demo_libc 0x40 = Some (SetSystem 0x77 ''libc.so'' LibraryView_Init)"
    by (simp add: demo_libc_def AddLibrary_def set_view_def)
  have "library_open_body 1 demo_api ''libc.so'' demo_ctx (LibraryList_Init sym_image) =
      Some (((CRAZY_STATUS_SUCCESS, Some 0x40), demo_ctx), demo_libc)"
    using demo_system view by (simp add: library_open_body_def open_java_def demo_api_def demo_ctx_def demo_libc_def del: LoadLibrary.simps)
  then show ?thesis
    by (simp add: crazy_library_open_def scoped_poster_def demo_ctx_def scoped_lock_def Globals_Lock_def Globals_Unlock_def
        on_libraries_def Globals_Init_def)
qed

section \<open>Properties\<close>

text \<open>C4: After every sequence of calls of the API and of the wrapped functions of the dynamic linker, whatever
  they returned and in whatever order they came, the lock is free, and the list of libraries satisfies its
  invariant: the views are distinct, alive and counted, every library object belongs to one view, and the
  chain links exactly the libraries in use.\<close>

theorem api_states_ok:
  assumes "api_reachable env g"
  shows "\<not> gl_locked g \<and> list_inv {} {} (gl_libraries g)"
proof -
  from assms have "api_ok g"
  proof (induction rule: api_reachable.induct)
    case start
    show ?case by (rule Globals_Init_ok)
  next
    case by_name
    then show ?case unfolding crazy_library_find_by_name_def by (rule_tac find_ok)
  next
    case from_address
    then show ?case unfolding crazy_library_find_from_address_def by (rule_tac find_ok)
  qed (erule (2) api_calls_ok | erule (1) api_calls_ok)+
  then show ?thesis by (simp add: api_ok_def)
qed

theorem api_states_ok_witness:
  "\<exists>g. api_reachable demo_api g \<and> \<not> gl_locked g \<and> list_inv {} {} (gl_libraries g) \<and> known_libraries (gl_libraries g) = [0x40]"
proof -
  let ?g = "(Globals_Init demo_api sym_image)\<lparr>gl_libraries := demo_libc\<rparr>"
  have "api_reachable demo_api ?g" by (rule api_reachable.library_open [OF api_reachable.start demo_open])
  moreover from api_states_ok [OF this] have "\<not> gl_locked ?g \<and> list_inv {} {} (gl_libraries ?g)" .
  moreover have "known_libraries demo_libc = [0x40]"
    by (simp add: demo_libc_def AddLibrary_def set_view_def LibraryList_Init_def)
  ultimately show ?thesis by (intro exI [of _ ?g]) simp
qed

text \<open>C26: A handle that was found by its name or by an address keeps its library loaded until it is closed:
  the view is in the list and its count is one higher; closing the handle gives the state before.\<close>

theorem find_close_round_trip:
  assumes "crazy_library_find_by_name name g = Some ((CRAZY_STATUS_SUCCESS, Some w), g') \<or>
      crazy_library_find_from_address address g = Some ((CRAZY_STATUS_SUCCESS, Some w), g')" "api_ok g"
  shows "w \<in> set (known_libraries (gl_libraries g)) \<and>
     (\<exists>v. ll_views (gl_libraries g) w = Some v \<and> ll_views (gl_libraries g') w = Some (AddRef v)) \<and>
     crazy_library_close (Suc n) env w g' = Some ((), g)"
proof -
  let ?st = "gl_libraries g"
  have g: "g\<lparr>gl_locked := False\<rparr> = g" using assms(2) by (simp add: api_ok_def)
  obtain v where v: "ll_views ?st w = Some v" and g': "g' = g\<lparr>gl_libraries := set_view w (AddRef v) ?st\<rparr>"
    using assms by (auto simp: crazy_library_find_by_name_def crazy_library_find_from_address_def scoped_lock_def Globals_Lock_def
        Globals_Unlock_def on_libraries_def ref_found_def api_ok_def bind_eq_Some_conv split: option.split_asm)
  have inv: "list_inv {} {} ?st" using assms(2) by (simp add: api_ok_def)
  have known: "w \<in> set (known_libraries ?st)" by (rule known_of_view [OF inv v])
  have o: "objects {} {} ?st" using inv by (simp add: list_inv_def)
  have "w \<noteq> 0" using objects_sets(1,5,6) [OF o] known by auto
  moreover have "UnloadLibrary (Suc n) (ae_linker env) w (set_view w (AddRef v) ?st) =
      Some (set_view w ((AddRef v)\<lparr>lv_ref_count := lv_ref_count (AddRef v) - 1\<rparr>) (set_view w (AddRef v) ?st))"
    by (rule UnloadLibrary_in_use) (use objects_view [OF o v] in \<open>simp_all add: set_view_def AddRef_def\<close>)
  ultimately have "crazy_library_close (Suc n) env w g' = Some ((), g\<lparr>gl_locked := False, gl_libraries := set_view w v ?st\<rparr>)"
    using g g' assms(2)
    by (simp add: crazy_library_close_def crazy_library_close_with_context_def scoped_poster_def scoped_lock_def Globals_Lock_def
        Globals_Unlock_def on_libraries_def api_ok_def AddRef_def del: UnloadLibrary.simps)
  with known v g' g show ?thesis by (simp add: set_view_same [OF v]) (simp add: set_view_def)
qed

theorem find_close_round_trip_witness:
  "\<exists>g w g'. crazy_library_find_by_name (Some ''libc.so'') g = Some ((CRAZY_STATUS_SUCCESS, Some w), g') \<and>
     crazy_library_close 1 demo_api w g' = Some ((), g)"
proof -
  let ?g = "(Globals_Init demo_api sym_image)\<lparr>gl_libraries := demo_libc\<rparr>"
  have ok: "api_ok ?g" by (rule library_open_ok [OF demo_open Globals_Init_ok])
  have view: "ll_views demo_libc 0x40 = Some (SetSystem 0x77 ''libc.so'' LibraryView_Init)"
    by (simp add: demo_libc_def AddLibrary_def set_view_def)
  have "FindLibraryByName demo_libc (Some ''libc.so'') = Some 0x40"
    by (simp add: FindLibraryByName_def view_named_def demo_libc_def AddLibrary_def set_view_def LibraryList_Init_def)
  with view have "\<exists>g'. crazy_library_find_by_name (Some ''libc.so'') ?g = Some ((CRAZY_STATUS_SUCCESS, Some 0x40), g')"
    by (simp add: crazy_library_find_by_name_def scoped_lock_def Globals_Lock_def on_libraries_def ref_found_def Globals_Init_def)
  then show ?thesis using find_close_round_trip [OF disjI1 ok, of _ _ _ 0 demo_api] unfolding One_nat_def by blast
qed



end
