(* ===== verification/App_Glue.thy ===== *)
theory App_Glue
  imports Prelude
begin

text \<open>
  The native application glue, \<open>android_native_app_glue.c\<close>: the callbacks of an activity run in the main thread,
  send commands through a pipe to the thread of the application, and wait on a condition variable until
  it has taken them in. The state is the shared \<open>android_app\<close>, what the main thread waits for, and where
  the application thread is.

  A critical section is one step, since the threads write the shared fields they wait for with the mutex
  held; the application thread takes a step for every part of \<open>process_cmd\<close>. \<open>pthread_cond_broadcast\<close> marks
  the waiting thread as woken; a thread may also wake up without a broadcast. The code of the application,
  \<open>android_main\<close> and \<open>onAppCmd\<close>, is a parameter: it changes \<open>savedState\<close>, and returns when a destruction is
  requested. A pointer is a number, 0 is \<open>NULL\<close>.
\<close>

section \<open>State\<close>

datatype app_cmd =
  APP_CMD_INPUT_CHANGED | APP_CMD_INIT_WINDOW | APP_CMD_TERM_WINDOW | APP_CMD_WINDOW_RESIZED
| APP_CMD_WINDOW_REDRAW_NEEDED | APP_CMD_CONTENT_RECT_CHANGED | APP_CMD_GAINED_FOCUS | APP_CMD_LOST_FOCUS
| APP_CMD_CONFIG_CHANGED | APP_CMD_LOW_MEMORY | APP_CMD_START | APP_CMD_RESUME | APP_CMD_SAVE_STATE
| APP_CMD_PAUSE | APP_CMD_STOP | APP_CMD_DESTROY

text \<open>\<open>attached\<close> are the queues that are attached to the looper, \<open>msgpipe\<close> the commands between \<open>msgwrite\<close> and
  \<open>msgread\<close>, \<open>savedState\<close> the block with its size.\<close>

record android_app =
  config :: "nat option"
  savedState :: "char list option"
  inputQueue :: nat
  window :: nat
  activityState :: app_cmd
  destroyRequested :: bool
  msgpipe :: "app_cmd list"
  running :: bool
  stateSaved :: bool
  destroyed :: bool
  pendingInputQueue :: nat
  pendingWindow :: nat
  attached :: "nat list"

text \<open>The loops around \<open>pthread_cond_wait\<close>, and where a thread is. \<open>AppPre\<close>, \<open>AppRun\<close> and \<open>AppPost\<close> are the
  statements of \<open>process_cmd\<close> after the read; the command is \<^term>\<open>None\<close> for the -1 of a failed read.\<close>

datatype wait_loop = WaitRunning | WaitInput | WaitWindow | WaitState app_cmd | WaitSaved | WaitDestroyed

datatype main_phase = MainIdle | MainWait wait_loop bool | MainFreed

datatype app_phase =
  AppStart | AppMain | AppPre "app_cmd option" | AppRun "app_cmd option" | AppPost "app_cmd option" | AppExit | AppDone

text \<open>\<open>g_assets\<close> is the configuration of the asset manager, \<open>g_returned\<close> what \<open>onSaveInstanceState\<close> returned.\<close>

record glue =
  g_app :: android_app
  g_main :: main_phase
  g_thread :: app_phase
  g_assets :: nat
  g_returned :: "char list option list"

abbreviation on_app :: "(android_app \<Rightarrow> android_app) \<Rightarrow> glue \<Rightarrow> glue" where
  "on_app f g \<equiv> g\<lparr>g_app := f (g_app g)\<rparr>"

definition broadcast :: "glue \<Rightarrow> glue" where
  "broadcast g = (case g_main g of MainWait c _ \<Rightarrow> g\<lparr>g_main := MainWait c True\<rparr> | _ \<Rightarrow> g)"

section \<open>The application thread\<close>

definition free_saved_state :: "android_app \<Rightarrow> android_app" where
  "free_saved_state a = a\<lparr>savedState := None\<rparr>"

text \<open>\<open>ok\<close> tells whether the read delivers a command.\<close>

definition android_app_read_cmd :: "bool \<Rightarrow> android_app \<Rightarrow> app_cmd option \<times> android_app" where
  "android_app_read_cmd ok a =
     (if ok then
        (case msgpipe a of
           [] \<Rightarrow> (None, a)
         | cmd # rest \<Rightarrow>
             let a = a\<lparr>msgpipe := rest\<rparr> in
             (Some cmd, if cmd = APP_CMD_SAVE_STATE then free_saved_state a else a))
      else (None, a))"

definition android_app_pre_exec_cmd :: "app_cmd option \<Rightarrow> glue \<Rightarrow> glue" where
  "android_app_pre_exec_cmd cmd g =
     (case cmd of
        Some APP_CMD_INPUT_CHANGED \<Rightarrow>
          broadcast (on_app (\<lambda>a.
            let a = (if inputQueue a \<noteq> 0 then a\<lparr>attached := remove1 (inputQueue a) (attached a)\<rparr> else a);
                a = a\<lparr>inputQueue := pendingInputQueue a\<rparr>
            in if inputQueue a \<noteq> 0 then a\<lparr>attached := inputQueue a # attached a\<rparr> else a) g)
      | Some APP_CMD_INIT_WINDOW \<Rightarrow> broadcast (on_app (\<lambda>a. a\<lparr>window := pendingWindow a\<rparr>) g)
      | Some APP_CMD_TERM_WINDOW \<Rightarrow> broadcast g
      | Some APP_CMD_RESUME \<Rightarrow> broadcast (on_app (\<lambda>a. a\<lparr>activityState := APP_CMD_RESUME\<rparr>) g)
      | Some APP_CMD_START \<Rightarrow> broadcast (on_app (\<lambda>a. a\<lparr>activityState := APP_CMD_START\<rparr>) g)
      | Some APP_CMD_PAUSE \<Rightarrow> broadcast (on_app (\<lambda>a. a\<lparr>activityState := APP_CMD_PAUSE\<rparr>) g)
      | Some APP_CMD_STOP \<Rightarrow> broadcast (on_app (\<lambda>a. a\<lparr>activityState := APP_CMD_STOP\<rparr>) g)
      | Some APP_CMD_CONFIG_CHANGED \<Rightarrow> on_app (\<lambda>a. a\<lparr>config := Some (g_assets g)\<rparr>) g
      | Some APP_CMD_DESTROY \<Rightarrow> on_app (\<lambda>a. a\<lparr>destroyRequested := True\<rparr>) g
      | _ \<Rightarrow> g)"

definition android_app_post_exec_cmd :: "app_cmd option \<Rightarrow> glue \<Rightarrow> glue" where
  "android_app_post_exec_cmd cmd g =
     (case cmd of
        Some APP_CMD_TERM_WINDOW \<Rightarrow> broadcast (on_app (\<lambda>a. a\<lparr>window := 0\<rparr>) g)
      | Some APP_CMD_SAVE_STATE \<Rightarrow> broadcast (on_app (\<lambda>a. a\<lparr>stateSaved := True\<rparr>) g)
      | Some APP_CMD_RESUME \<Rightarrow> on_app free_saved_state g
      | _ \<Rightarrow> g)"

definition android_app_destroy :: "glue \<Rightarrow> glue" where
  "android_app_destroy g =
     broadcast (on_app (\<lambda>a.
       let a = free_saved_state a;
           a = (if inputQueue a \<noteq> 0 then a\<lparr>attached := remove1 (inputQueue a) (attached a)\<rparr> else a)
       in a\<lparr>config := None, destroyed := True\<rparr>) g)"

text \<open>The events of a queue: those the system takes before dispatch are dropped, the others are finished with
  the answer of the handler, 0 when there is none.\<close>

fun process_input :: "('e \<Rightarrow> bool) \<Rightarrow> ('e \<Rightarrow> int) option \<Rightarrow> 'e list \<Rightarrow> ('e \<times> int) list" where
  "process_input preDispatch onInputEvent [] = []"
| "process_input preDispatch onInputEvent (event # events) =
     (if preDispatch event then process_input preDispatch onInputEvent events
      else (event, case onInputEvent of None \<Rightarrow> 0 | Some handler \<Rightarrow> handler event) # process_input preDispatch onInputEvent events)"

text \<open>\<open>process_cmd\<close>, as the application thread goes through it. \<open>onAppCmd\<close> is the change of \<open>savedState\<close> by the
  application.\<close>

definition process_cmd_step :: "bool \<Rightarrow> (app_cmd option \<Rightarrow> char list option \<Rightarrow> char list option) \<Rightarrow> glue \<Rightarrow> glue" where
  "process_cmd_step ok onAppCmd g =
     (case g_thread g of
        AppMain \<Rightarrow> let (cmd, a) = android_app_read_cmd ok (g_app g) in g\<lparr>g_app := a, g_thread := AppPre cmd\<rparr>
      | AppPre cmd \<Rightarrow> (android_app_pre_exec_cmd cmd g)\<lparr>g_thread := AppRun cmd\<rparr>
      | AppRun cmd \<Rightarrow> (on_app (\<lambda>a. a\<lparr>savedState := onAppCmd cmd (savedState a)\<rparr>) g)\<lparr>g_thread := AppPost cmd\<rparr>
      | AppPost cmd \<Rightarrow> (android_app_post_exec_cmd cmd g)\<lparr>g_thread := AppMain\<rparr>
      | _ \<Rightarrow> g)"

text \<open>\<open>android_app_entry\<close>: before and after \<open>android_main\<close>.\<close>

definition android_app_entry :: "glue \<Rightarrow> glue" where
  "android_app_entry g =
     (case g_thread g of
        AppStart \<Rightarrow> broadcast (on_app (\<lambda>a. a\<lparr>config := Some (g_assets g), running := True\<rparr>) g\<lparr>g_thread := AppMain\<rparr>)
      | AppExit \<Rightarrow> (android_app_destroy g)\<lparr>g_thread := AppDone\<rparr>
      | _ \<Rightarrow> g)"

section \<open>The main thread\<close>

definition wait_done :: "wait_loop \<Rightarrow> android_app \<Rightarrow> bool" where
  "wait_done c a =
     (case c of
        WaitRunning \<Rightarrow> running a
      | WaitInput \<Rightarrow> inputQueue a = pendingInputQueue a
      | WaitWindow \<Rightarrow> window a = pendingWindow a
      | WaitState cmd \<Rightarrow> activityState a = cmd
      | WaitSaved \<Rightarrow> stateSaved a
      | WaitDestroyed \<Rightarrow> destroyed a)"

text \<open>What a callback does after its loop.\<close>

definition after_wait :: "wait_loop \<Rightarrow> glue \<Rightarrow> glue" where
  "after_wait c g =
     (case c of
        WaitSaved \<Rightarrow> (on_app (\<lambda>a. a\<lparr>savedState := None\<rparr>) g)\<lparr>g_main := MainIdle, g_returned := savedState (g_app g) # g_returned g\<rparr>
      | WaitDestroyed \<Rightarrow> g\<lparr>g_main := MainFreed\<rparr>
      | _ \<Rightarrow> g\<lparr>g_main := MainIdle\<rparr>)"

text \<open>The test of the loop, when it is entered and after a wake-up.\<close>

definition wait_test :: "wait_loop \<Rightarrow> glue \<Rightarrow> glue" where
  "wait_test c g = (if wait_done c (g_app g) then after_wait c g else g\<lparr>g_main := MainWait c False\<rparr>)"

text \<open>\<open>wr\<close> tells which writes succeed.\<close>

definition android_app_write_cmd :: "(app_cmd \<Rightarrow> bool) \<Rightarrow> app_cmd \<Rightarrow> android_app \<Rightarrow> android_app" where
  "android_app_write_cmd wr cmd a = (if wr cmd then a\<lparr>msgpipe := msgpipe a @ [cmd]\<rparr> else a)"

definition android_app_set_input :: "(app_cmd \<Rightarrow> bool) \<Rightarrow> nat \<Rightarrow> glue \<Rightarrow> glue" where
  "android_app_set_input wr queue g =
     wait_test WaitInput (on_app (\<lambda>a. android_app_write_cmd wr APP_CMD_INPUT_CHANGED (a\<lparr>pendingInputQueue := queue\<rparr>)) g)"

definition android_app_set_window :: "(app_cmd \<Rightarrow> bool) \<Rightarrow> nat \<Rightarrow> glue \<Rightarrow> glue" where
  "android_app_set_window wr win g =
     wait_test WaitWindow (on_app (\<lambda>a.
       let a = (if pendingWindow a \<noteq> 0 then android_app_write_cmd wr APP_CMD_TERM_WINDOW a else a);
           a = a\<lparr>pendingWindow := win\<rparr>
       in if win \<noteq> 0 then android_app_write_cmd wr APP_CMD_INIT_WINDOW a else a) g)"

definition android_app_set_activity_state :: "(app_cmd \<Rightarrow> bool) \<Rightarrow> app_cmd \<Rightarrow> glue \<Rightarrow> glue" where
  "android_app_set_activity_state wr cmd g = wait_test (WaitState cmd) (on_app (android_app_write_cmd wr cmd) g)"

definition android_app_free :: "(app_cmd \<Rightarrow> bool) \<Rightarrow> glue \<Rightarrow> glue" where
  "android_app_free wr g = wait_test WaitDestroyed (on_app (android_app_write_cmd wr APP_CMD_DESTROY) g)"

definition onSaveInstanceState :: "(app_cmd \<Rightarrow> bool) \<Rightarrow> glue \<Rightarrow> glue" where
  "onSaveInstanceState wr g =
     wait_test WaitSaved (on_app (\<lambda>a. android_app_write_cmd wr APP_CMD_SAVE_STATE (a\<lparr>stateSaved := False\<rparr>)) g)"

text \<open>The callbacks \<open>ANativeActivity_onCreate\<close> installs.\<close>

datatype callback =
  OnDestroy | OnStart | OnResume | OnSaveInstanceState | OnPause | OnStop | OnConfigurationChanged | OnLowMemory
| OnWindowFocusChanged bool | OnNativeWindowCreated nat | OnNativeWindowDestroyed nat | OnInputQueueCreated nat
| OnInputQueueDestroyed nat

fun activity_callback :: "(app_cmd \<Rightarrow> bool) \<Rightarrow> callback \<Rightarrow> glue \<Rightarrow> glue" where
  "activity_callback wr OnDestroy g = android_app_free wr g"
| "activity_callback wr OnStart g = android_app_set_activity_state wr APP_CMD_START g"
| "activity_callback wr OnResume g = android_app_set_activity_state wr APP_CMD_RESUME g"
| "activity_callback wr OnSaveInstanceState g = onSaveInstanceState wr g"
| "activity_callback wr OnPause g = android_app_set_activity_state wr APP_CMD_PAUSE g"
| "activity_callback wr OnStop g = android_app_set_activity_state wr APP_CMD_STOP g"
| "activity_callback wr OnConfigurationChanged g = on_app (android_app_write_cmd wr APP_CMD_CONFIG_CHANGED) g"
| "activity_callback wr OnLowMemory g = on_app (android_app_write_cmd wr APP_CMD_LOW_MEMORY) g"
| "activity_callback wr (OnWindowFocusChanged focused) g =
     on_app (android_app_write_cmd wr (if focused then APP_CMD_GAINED_FOCUS else APP_CMD_LOST_FOCUS)) g"
| "activity_callback wr (OnNativeWindowCreated win) g = android_app_set_window wr win g"
| "activity_callback wr (OnNativeWindowDestroyed win) g = android_app_set_window wr 0 g"
| "activity_callback wr (OnInputQueueCreated queue) g = android_app_set_input wr queue g"
| "activity_callback wr (OnInputQueueDestroyed queue) g = android_app_set_input wr 0 g"

text \<open>\<open>android_app_create\<close> up to its loop; \<^term>\<open>None\<close> when there is no pipe, which leaves a null instance.\<close>

definition android_app_create :: "bool \<Rightarrow> char list option \<Rightarrow> nat \<Rightarrow> glue option" where
  "android_app_create pipe_ok saved assets =
     (if pipe_ok then
        Some (wait_test WaitRunning
          \<lparr>g_app = \<lparr>config = None, savedState = saved, inputQueue = 0, window = 0, activityState = APP_CMD_INPUT_CHANGED,
             destroyRequested = False, msgpipe = [], running = False, stateSaved = False, destroyed = False,
             pendingInputQueue = 0, pendingWindow = 0, attached = []\<rparr>,
           g_main = MainIdle, g_thread = AppStart, g_assets = assets, g_returned = []\<rparr>)
      else None)"

section \<open>Interleavings\<close>

text \<open>With \<open>strict\<close>, every write succeeds.\<close>

inductive glue_step :: "bool \<Rightarrow> glue \<Rightarrow> glue \<Rightarrow> bool" for strict where
  callback: "g_main g = MainIdle \<Longrightarrow> strict \<longrightarrow> (\<forall>cmd. wr cmd) \<Longrightarrow> glue_step strict g (activity_callback wr cb g)"
| wake: "g_main g = MainWait c woken \<Longrightarrow> glue_step strict g (wait_test c g)"
| entry: "glue_step strict g (android_app_entry g)"
| app_cmd: "ok \<longrightarrow> msgpipe (g_app g) \<noteq> [] \<or> g_thread g \<noteq> AppMain \<Longrightarrow> glue_step strict g (process_cmd_step ok onAppCmd g)"
| main_returns: "g_thread g = AppMain \<Longrightarrow> destroyRequested (g_app g) \<Longrightarrow> glue_step strict g (g\<lparr>g_thread := AppExit\<rparr>)"
| assets: "glue_step strict g (g\<lparr>g_assets := n\<rparr>)"

inductive glue_reachable :: "bool \<Rightarrow> glue \<Rightarrow> bool" for strict where
  create: "android_app_create pipe_ok saved assets = Some g \<Longrightarrow> glue_reachable strict g"
| step: "glue_reachable strict g \<Longrightarrow> glue_step strict g g' \<Longrightarrow> glue_reachable strict g'"

text \<open>The application thread left to itself: it takes the commands one after another and returns when its
  destruction is requested.\<close>

definition app_quiet :: "glue \<Rightarrow> bool" where
  "app_quiet g \<longleftrightarrow> g_thread g = AppDone \<or> g_thread g = AppMain \<and> msgpipe (g_app g) = [] \<and> \<not> destroyRequested (g_app g)"

definition app_next :: "(app_cmd option \<Rightarrow> char list option \<Rightarrow> char list option) \<Rightarrow> glue \<Rightarrow> glue" where
  "app_next onAppCmd g =
     (case g_thread g of
        AppStart \<Rightarrow> android_app_entry g
      | AppExit \<Rightarrow> android_app_entry g
      | AppMain \<Rightarrow> if destroyRequested (g_app g) then g\<lparr>g_thread := AppExit\<rparr> else process_cmd_step True onAppCmd g
      | _ \<Rightarrow> process_cmd_step True onAppCmd g)"

definition app_work :: "glue \<Rightarrow> nat" where
  "app_work g = 4 * length (msgpipe (g_app g)) +
     (case g_thread g of AppStart \<Rightarrow> 3 | AppMain \<Rightarrow> 2 | AppPre _ \<Rightarrow> 5 | AppRun _ \<Rightarrow> 4 | AppPost _ \<Rightarrow> 3 | AppExit \<Rightarrow> 1 | AppDone \<Rightarrow> 0)"

section \<open>Invariants\<close>

definition waiting :: "wait_loop \<Rightarrow> glue \<Rightarrow> bool" where
  "waiting c g \<longleftrightarrow> (\<exists>woken. g_main g = MainWait c woken)"

text \<open>The commands that have not had their effect yet; the effect of two of them comes after the handler.\<close>

definition late :: "app_cmd \<Rightarrow> app_cmd list" where
  "late c = (if c = APP_CMD_TERM_WINDOW \<or> c = APP_CMD_SAVE_STATE then [c] else [])"

definition todo :: "glue \<Rightarrow> app_cmd list" where
  "todo g = (case g_thread g of
       AppPre (Some c) \<Rightarrow> [c] | AppRun (Some c) \<Rightarrow> late c | AppPost (Some c) \<Rightarrow> late c | _ \<Rightarrow> []) @ msgpipe (g_app g)"

definition ending :: "glue \<Rightarrow> bool" where
  "ending g \<longleftrightarrow> destroyRequested (g_app g) \<or> APP_CMD_DESTROY \<in> set (todo g)"

definition glue_safe :: "glue \<Rightarrow> bool" where
  "glue_safe g \<longleftrightarrow>
     (destroyed (g_app g) \<longleftrightarrow> g_thread g = AppDone) \<and> (g_main g = MainFreed \<longrightarrow> g_thread g = AppDone) \<and>
     (running (g_app g) \<longleftrightarrow> g_thread g \<noteq> AppStart) \<and> (g_thread g = AppStart \<longrightarrow> waiting WaitRunning g) \<and>
     (g_thread g = AppExit \<or> g_thread g = AppDone \<longrightarrow> destroyRequested (g_app g)) \<and>
     (ending g \<longrightarrow> waiting WaitDestroyed g \<or> g_main g = MainFreed) \<and>
     (\<forall>c woken. g_main g = MainWait c woken \<and> wait_done c (g_app g) \<longrightarrow> woken)"

definition resources_safe :: "glue \<Rightarrow> bool" where
  "resources_safe g \<longleftrightarrow>
     (window (g_app g) = 0 \<or> window (g_app g) = pendingWindow (g_app g) \<or> waiting WaitWindow g) \<and>
     (inputQueue (g_app g) = pendingInputQueue (g_app g) \<or> waiting WaitInput g) \<and>
     attached (g_app g) = (if inputQueue (g_app g) = 0 \<or> g_thread g = AppDone then [] else [inputQueue (g_app g)])"

text \<open>What the fields will be when all commands are processed, provided that no write failed.\<close>

definition window_cmd :: "nat \<Rightarrow> nat \<Rightarrow> app_cmd \<Rightarrow> nat" where
  "window_cmd pending w c = (if c = APP_CMD_INIT_WINDOW then pending else if c = APP_CMD_TERM_WINDOW then 0 else w)"

definition window_after :: "glue \<Rightarrow> nat" where
  "window_after g = foldl (window_cmd (pendingWindow (g_app g))) (window (g_app g)) (todo g)"

definition state_cmd :: "app_cmd \<Rightarrow> app_cmd \<Rightarrow> app_cmd" where
  "state_cmd s c = (if c = APP_CMD_START \<or> c = APP_CMD_RESUME \<or> c = APP_CMD_PAUSE \<or> c = APP_CMD_STOP then c else s)"

definition state_after :: "glue \<Rightarrow> app_cmd" where
  "state_after g = foldl state_cmd (activityState (g_app g)) (todo g)"

definition glue_live :: "glue \<Rightarrow> bool" where
  "glue_live g \<longleftrightarrow>
     window_after g = pendingWindow (g_app g) \<and>
     (inputQueue (g_app g) = pendingInputQueue (g_app g) \<or> APP_CMD_INPUT_CHANGED \<in> set (todo g)) \<and>
     (\<forall>c. waiting (WaitState c) g \<longrightarrow> state_after g = c) \<and>
     (waiting WaitSaved g \<longrightarrow> stateSaved (g_app g) \<or> APP_CMD_SAVE_STATE \<in> set (todo g)) \<and>
     (waiting WaitDestroyed g \<longrightarrow> ending g)"

lemma broadcast_simps [simp]:
  "g_app (broadcast g) = g_app g" "g_thread (broadcast g) = g_thread g" "waiting c (broadcast g) = waiting c g"
  "g_main (broadcast g) = MainIdle \<longleftrightarrow> g_main g = MainIdle" "g_main (broadcast g) = MainFreed \<longleftrightarrow> g_main g = MainFreed"
  "g_main (broadcast g) = MainWait c woken \<longleftrightarrow> woken \<and> waiting c g"
  by (auto simp: broadcast_def waiting_def split: main_phase.split)

lemma waiting_simps [simp]:
  "waiting c (g\<lparr>g_app := a\<rparr>) = waiting c g" "waiting c (g\<lparr>g_thread := t\<rparr>) = waiting c g" "waiting c (g\<lparr>g_assets := n\<rparr>) = waiting c g"
  "waiting c (g\<lparr>g_main := m\<rparr>) \<longleftrightarrow> (\<exists>woken. m = MainWait c woken)" "waiting c (g\<lparr>g_returned := r\<rparr>) = waiting c g"
  by (simp_all add: waiting_def)

lemma wait_done_simps [simp]:
  "wait_done c (a\<lparr>msgpipe := p\<rparr>) = wait_done c a" "wait_done c (a\<lparr>savedState := s\<rparr>) = wait_done c a"
  "wait_done c (a\<lparr>config := k\<rparr>) = wait_done c a" "wait_done c (a\<lparr>destroyRequested := d\<rparr>) = wait_done c a"
  by (simp_all add: wait_done_def split: wait_loop.split)

lemmas live_defs = glue_live_def ending_def window_after_def state_after_def

lemma todo_frame [simp]:
  "todo (broadcast g) = todo g" "todo (g\<lparr>g_main := m\<rparr>) = todo g" "todo (g\<lparr>g_assets := n\<rparr>) = todo g" "todo (g\<lparr>g_returned := r\<rparr>) = todo g"
  by (simp_all add: todo_def)

lemma waiting_unique: "waiting c g \<Longrightarrow> waiting d g \<Longrightarrow> c = d"
  by (auto simp: waiting_def)

lemmas pre_post_defs = android_app_pre_exec_cmd_def android_app_post_exec_cmd_def free_saved_state_def

text \<open>A read moves a command from the pipe to the thread.\<close>

lemma read_todo:
  assumes "g_thread g = AppMain" "ok \<longrightarrow> msgpipe (g_app g) \<noteq> []"
  shows "\<exists>c p s. process_cmd_step ok h g = g\<lparr>g_app := (g_app g)\<lparr>msgpipe := p, savedState := s\<rparr>, g_thread := AppPre c\<rparr> \<and>
     todo (process_cmd_step ok h g) = todo g"
proof (cases "ok \<and> msgpipe (g_app g) \<noteq> []")
  case True
  then obtain c p where "msgpipe (g_app g) = c # p" by (cases "msgpipe (g_app g)") auto
  then show ?thesis
    using assms True
    by (intro exI [of _ "Some c"] exI [of _ p] exI [of _ "if c = APP_CMD_SAVE_STATE then None else savedState (g_app g)"])
      (simp add: process_cmd_step_def android_app_read_cmd_def free_saved_state_def todo_def Let_def)
next
  case False
  then show ?thesis
    using assms
    by (intro exI [of _ None] exI [of _ "msgpipe (g_app g)"] exI [of _ "savedState (g_app g)"])
      (auto simp: process_cmd_step_def android_app_read_cmd_def todo_def)
qed

lemma read_safe:
  assumes "g_thread g = AppMain" "ok \<longrightarrow> msgpipe (g_app g) \<noteq> []"
  shows "glue_safe g \<Longrightarrow> glue_safe (process_cmd_step ok h g)" "resources_safe g \<Longrightarrow> resources_safe (process_cmd_step ok h g)"
    "glue_live g \<Longrightarrow> glue_live (process_cmd_step ok h g)"
proof -
  obtain c p s where g': "process_cmd_step ok h g = g\<lparr>g_app := (g_app g)\<lparr>msgpipe := p, savedState := s\<rparr>, g_thread := AppPre c\<rparr>"
    and t: "todo (process_cmd_step ok h g) = todo g" using read_todo [OF assms] by blast
  note t = t [unfolded g']
  show "glue_safe g \<Longrightarrow> glue_safe (process_cmd_step ok h g)"
    unfolding g' glue_safe_def ending_def t using assms(1) by auto
  show "resources_safe g \<Longrightarrow> resources_safe (process_cmd_step ok h g)"
    unfolding g' resources_safe_def using assms(1) by simp
  show "glue_live g \<Longrightarrow> glue_live (process_cmd_step ok h g)"
    unfolding g' live_defs t by simp
qed

text \<open>The statement before the handler: the effect of the command, except for the two late ones.\<close>

lemma pre_todo:
  assumes "g_thread g = AppPre cmd"
  shows "todo g = (case cmd of None \<Rightarrow> [] | Some c \<Rightarrow> [c]) @ msgpipe (g_app g)"
    "todo (process_cmd_step ok h g) = (case cmd of None \<Rightarrow> [] | Some c \<Rightarrow> late c) @ msgpipe (g_app g)"
  using assms
  by (auto simp: todo_def process_cmd_step_def android_app_pre_exec_cmd_def Let_def split: option.split app_cmd.split)

lemma pre_safe:
  assumes "g_thread g = AppPre cmd" "glue_safe g" "resources_safe g"
  shows "glue_safe (process_cmd_step ok h g)"
proof -
  have todo: "set (todo (process_cmd_step ok h g)) \<subseteq> set (todo g)"
    unfolding pre_todo [OF assms(1)] by (auto simp: late_def split: option.split)
  have "todo g = (case cmd of None \<Rightarrow> [] | Some c \<Rightarrow> [c]) @ msgpipe (g_app g)" by (rule pre_todo [OF assms(1)])
  with assms(1,2) todo show ?thesis
    unfolding glue_safe_def ending_def
    by (cases cmd; (cases "the cmd")?) (auto simp: process_cmd_step_def android_app_pre_exec_cmd_def Let_def)
qed

lemma pre_resources:
  assumes "g_thread g = AppPre cmd" "resources_safe g"
  shows "resources_safe (process_cmd_step ok h g)"
  using assms unfolding resources_safe_def
  by (cases cmd; (cases "the cmd")?) (auto simp: process_cmd_step_def android_app_pre_exec_cmd_def Let_def split: if_splits)

lemma pre_live:
  assumes "g_thread g = AppPre cmd" "glue_live g"
  shows "glue_live (process_cmd_step ok h g)"
  using assms(2) unfolding live_defs pre_todo [OF assms(1)]
  using assms(1)
  by (cases cmd; (cases "the cmd")?)
    (auto simp: process_cmd_step_def android_app_pre_exec_cmd_def Let_def late_def window_cmd_def state_cmd_def)

text \<open>The handler changes \<open>savedState\<close> only.\<close>

lemma run_safe:
  assumes "g_thread g = AppRun cmd"
  shows "glue_safe g \<Longrightarrow> glue_safe (process_cmd_step ok h g)" "resources_safe g \<Longrightarrow> resources_safe (process_cmd_step ok h g)"
    "glue_live g \<Longrightarrow> glue_live (process_cmd_step ok h g)"
proof -
  have t: "todo (process_cmd_step ok h g) = todo g" using assms by (simp add: process_cmd_step_def todo_def)
  show "glue_safe g \<Longrightarrow> glue_safe (process_cmd_step ok h g)"
    unfolding glue_safe_def ending_def t using assms by (auto simp: process_cmd_step_def)
  show "resources_safe g \<Longrightarrow> resources_safe (process_cmd_step ok h g)"
    unfolding resources_safe_def using assms by (simp add: process_cmd_step_def)
  show "glue_live g \<Longrightarrow> glue_live (process_cmd_step ok h g)"
    unfolding live_defs t using assms by (simp add: process_cmd_step_def)
qed

lemma post_todo:
  assumes "g_thread g = AppPost cmd"
  shows "todo g = (case cmd of None \<Rightarrow> [] | Some c \<Rightarrow> late c) @ msgpipe (g_app g)"
    "todo (process_cmd_step ok h g) = msgpipe (g_app g)"
  using assms
  by (auto simp: todo_def process_cmd_step_def pre_post_defs split: option.split app_cmd.split)

lemma post_safe:
  assumes "g_thread g = AppPost cmd"
  shows "glue_safe g \<Longrightarrow> glue_safe (process_cmd_step ok h g)" "resources_safe g \<Longrightarrow> resources_safe (process_cmd_step ok h g)"
    "glue_live g \<Longrightarrow> glue_live (process_cmd_step ok h g)"
proof -
  note t = post_todo [OF assms]
  show "glue_safe (process_cmd_step ok h g)" if "glue_safe g"
    using that assms unfolding glue_safe_def ending_def t
    by (cases cmd; (cases "the cmd")?) (auto simp: process_cmd_step_def pre_post_defs)
  show "resources_safe (process_cmd_step ok h g)" if "resources_safe g"
    using that assms unfolding resources_safe_def
    by (cases cmd; (cases "the cmd")?) (auto simp: process_cmd_step_def pre_post_defs)
  show "glue_live (process_cmd_step ok h g)" if "glue_live g"
    using that assms unfolding live_defs t
    by (cases cmd; (cases "the cmd")?) (auto simp: process_cmd_step_def pre_post_defs late_def window_cmd_def state_cmd_def)
qed

lemma entry_safe:
  assumes "glue_safe g"
  shows "glue_safe (android_app_entry g)" "resources_safe g \<Longrightarrow> resources_safe (android_app_entry g)"
    "glue_live g \<Longrightarrow> glue_live (android_app_entry g)"
proof -
  have t: "todo (android_app_entry g) = todo g"
    by (auto simp: todo_def android_app_entry_def android_app_destroy_def Let_def pre_post_defs split: app_phase.split option.split)
  show "glue_safe (android_app_entry g)"
    using assms unfolding glue_safe_def ending_def t
    by (cases "g_thread g") (auto simp: android_app_entry_def android_app_destroy_def Let_def pre_post_defs dest: waiting_unique)
  show "resources_safe (android_app_entry g)" if "resources_safe g"
    using that unfolding resources_safe_def
    by (cases "g_thread g") (auto simp: android_app_entry_def android_app_destroy_def Let_def pre_post_defs)
  show "glue_live (android_app_entry g)" if "glue_live g"
    using that unfolding live_defs t
    by (cases "g_thread g") (auto simp: android_app_entry_def android_app_destroy_def Let_def pre_post_defs)
qed

lemma returns_safe:
  assumes "glue_safe g" "g_thread g = AppMain" "destroyRequested (g_app g)"
  shows "glue_safe (g\<lparr>g_thread := AppExit\<rparr>)" "resources_safe g \<Longrightarrow> resources_safe (g\<lparr>g_thread := AppExit\<rparr>)"
    "glue_live g \<Longrightarrow> glue_live (g\<lparr>g_thread := AppExit\<rparr>)"
proof -
  have t: "todo (g\<lparr>g_thread := AppExit\<rparr>) = todo g" using assms(2) by (simp add: todo_def)
  show "glue_safe (g\<lparr>g_thread := AppExit\<rparr>)" using assms unfolding glue_safe_def ending_def t by auto
  show "resources_safe (g\<lparr>g_thread := AppExit\<rparr>)" if "resources_safe g"
    using that assms(2) unfolding resources_safe_def by simp
  show "glue_live (g\<lparr>g_thread := AppExit\<rparr>)" if "glue_live g"
    using that unfolding live_defs t by simp
qed

text \<open>The test of a loop, after a wake-up or at the end of a callback.\<close>

lemma wait_test_frame [simp]: "todo (wait_test c g) = todo g"
  by (simp add: wait_test_def after_wait_def todo_def split: wait_loop.split)

lemma wait_test_safe:
  assumes "destroyed (g_app g) \<longleftrightarrow> g_thread g = AppDone" "running (g_app g) \<longleftrightarrow> g_thread g \<noteq> AppStart"
    and "g_thread g = AppStart \<longrightarrow> c = WaitRunning" "g_thread g = AppExit \<or> g_thread g = AppDone \<longrightarrow> destroyRequested (g_app g)"
    and "ending g \<longrightarrow> c = WaitDestroyed"
  shows "glue_safe (wait_test c g)"
  using assms unfolding glue_safe_def ending_def wait_test_frame
  by (cases c) (auto simp: wait_test_def after_wait_def wait_done_def)

lemma wait_test_resources:
  assumes "window (g_app g) = 0 \<or> window (g_app g) = pendingWindow (g_app g) \<or> c = WaitWindow"
    and "inputQueue (g_app g) = pendingInputQueue (g_app g) \<or> c = WaitInput"
    and "attached (g_app g) = (if inputQueue (g_app g) = 0 \<or> g_thread g = AppDone then [] else [inputQueue (g_app g)])"
  shows "resources_safe (wait_test c g)"
  using assms unfolding resources_safe_def
  by (cases c) (auto simp: wait_test_def after_wait_def wait_done_def)

lemma wait_test_live:
  assumes "window_after g = pendingWindow (g_app g)"
    and "inputQueue (g_app g) = pendingInputQueue (g_app g) \<or> APP_CMD_INPUT_CHANGED \<in> set (todo g)"
    and "\<And>s. c = WaitState s \<Longrightarrow> state_after g = s"
    and "c = WaitSaved \<Longrightarrow> stateSaved (g_app g) \<or> APP_CMD_SAVE_STATE \<in> set (todo g)" "c = WaitDestroyed \<Longrightarrow> ending g"
  shows "glue_live (wait_test c g)"
  using assms unfolding live_defs wait_test_frame
  by (cases c) (auto simp: wait_test_def after_wait_def wait_done_def)

lemma wake_safe:
  assumes "g_main g = MainWait c woken" "glue_safe g"
  shows "glue_safe (wait_test c g)" "resources_safe g \<Longrightarrow> resources_safe (wait_test c g)" "glue_live g \<Longrightarrow> glue_live (wait_test c g)"
proof -
  have w: "waiting d g \<longleftrightarrow> c = d" for d using assms(1) by (auto simp: waiting_def)
  show "glue_safe (wait_test c g)"
    by (rule wait_test_safe) (use assms in \<open>simp_all add: glue_safe_def w\<close>)
  show "resources_safe (wait_test c g)" if "resources_safe g"
    by (rule wait_test_resources) (use that in \<open>simp_all add: resources_safe_def w\<close>)
  show "glue_live (wait_test c g)" if "glue_live g"
    by (rule wait_test_live) (use that in \<open>simp_all add: glue_live_def w\<close>)
qed

text \<open>The callbacks.\<close>

lemma todo_write:
  "todo (on_app (\<lambda>a. android_app_write_cmd wr c (f a)) g) = todo (on_app f g) @ (if wr c then [c] else [])"
  "todo (on_app (android_app_write_cmd wr c) g) = todo g @ (if wr c then [c] else [])"
  by (auto simp: todo_def android_app_write_cmd_def split: app_phase.split option.split)

lemma write_simps [simp]:
  "window (android_app_write_cmd wr c a) = window a" "pendingWindow (android_app_write_cmd wr c a) = pendingWindow a"
  "inputQueue (android_app_write_cmd wr c a) = inputQueue a" "pendingInputQueue (android_app_write_cmd wr c a) = pendingInputQueue a"
  "activityState (android_app_write_cmd wr c a) = activityState a" "stateSaved (android_app_write_cmd wr c a) = stateSaved a"
  "destroyed (android_app_write_cmd wr c a) = destroyed a" "running (android_app_write_cmd wr c a) = running a"
  "destroyRequested (android_app_write_cmd wr c a) = destroyRequested a" "attached (android_app_write_cmd wr c a) = attached a"
  by (simp_all add: android_app_write_cmd_def)

lemma idle_facts:
  assumes "glue_safe g" "g_main g = MainIdle"
  shows "running (g_app g)" "\<not> destroyed (g_app g)" "g_thread g \<noteq> AppStart" "g_thread g \<noteq> AppExit" "g_thread g \<noteq> AppDone"
    "\<not> destroyRequested (g_app g)" "APP_CMD_DESTROY \<notin> set (todo g)" "\<not> waiting c g"
  using assms unfolding glue_safe_def ending_def by (auto simp: waiting_def)

lemma todo_pending [simp]:
  "todo (on_app (pendingInputQueue_update f) g) = todo g" "todo (on_app (stateSaved_update b) g) = todo g"
  "todo (on_app (pendingWindow_update f) g) = todo g"
  by (simp_all add: todo_def)

lemma set_state_safe:
  assumes "glue_safe g" "g_main g = MainIdle" "cmd \<in> {APP_CMD_START, APP_CMD_RESUME, APP_CMD_PAUSE, APP_CMD_STOP}"
  shows "glue_safe (android_app_set_activity_state wr cmd g)"
    "resources_safe g \<Longrightarrow> resources_safe (android_app_set_activity_state wr cmd g)"
    "wr cmd \<Longrightarrow> glue_live g \<Longrightarrow> glue_live (android_app_set_activity_state wr cmd g)"
proof -
  note idle = idle_facts [OF assms(1,2)]
  show "glue_safe (android_app_set_activity_state wr cmd g)"
    unfolding android_app_set_activity_state_def
    by (rule wait_test_safe) (use idle assms(3) in \<open>auto simp: ending_def todo_write\<close>)
  show "resources_safe (android_app_set_activity_state wr cmd g)" if "resources_safe g"
    unfolding android_app_set_activity_state_def
    by (rule wait_test_resources) (use that idle in \<open>simp_all add: resources_safe_def\<close>)
  show "glue_live (android_app_set_activity_state wr cmd g)" if "wr cmd" "glue_live g"
    unfolding android_app_set_activity_state_def
    by (rule wait_test_live)
      (use that assms(3) in \<open>auto simp: glue_live_def todo_write window_after_def state_after_def window_cmd_def state_cmd_def\<close>)
qed

lemma set_input_safe:
  assumes "glue_safe g" "g_main g = MainIdle"
  shows "glue_safe (android_app_set_input wr q g)" "resources_safe g \<Longrightarrow> resources_safe (android_app_set_input wr q g)"
    "wr APP_CMD_INPUT_CHANGED \<Longrightarrow> glue_live g \<Longrightarrow> glue_live (android_app_set_input wr q g)"
proof -
  note idle = idle_facts [OF assms]
  show "glue_safe (android_app_set_input wr q g)"
    unfolding android_app_set_input_def
    by (rule wait_test_safe) (use idle in \<open>auto simp: ending_def todo_write\<close>)
  show "resources_safe (android_app_set_input wr q g)" if "resources_safe g"
    unfolding android_app_set_input_def
    by (rule wait_test_resources) (use that idle in \<open>simp_all add: resources_safe_def\<close>)
  show "glue_live (android_app_set_input wr q g)" if "wr APP_CMD_INPUT_CHANGED" "glue_live g"
    unfolding android_app_set_input_def
    by (rule wait_test_live) (use that in \<open>auto simp: glue_live_def todo_write window_after_def window_cmd_def\<close>)
qed

lemma set_window_app:
  "\<exists>p. (let a = (if pendingWindow a \<noteq> 0 then android_app_write_cmd wr APP_CMD_TERM_WINDOW a else a);
           a = a\<lparr>pendingWindow := win\<rparr>
       in if win \<noteq> 0 then android_app_write_cmd wr APP_CMD_INIT_WINDOW a else a) = a\<lparr>pendingWindow := win, msgpipe := msgpipe a @ p\<rparr> \<and>
     set p \<subseteq> {APP_CMD_TERM_WINDOW, APP_CMD_INIT_WINDOW} \<and>
     ((\<forall>c. wr c) \<longrightarrow> p = (if pendingWindow a \<noteq> 0 then [APP_CMD_TERM_WINDOW] else []) @ (if win \<noteq> 0 then [APP_CMD_INIT_WINDOW] else []))"
  by (intro exI [of _ "(if pendingWindow a \<noteq> 0 \<and> wr APP_CMD_TERM_WINDOW then [APP_CMD_TERM_WINDOW] else []) @
      (if win \<noteq> 0 \<and> wr APP_CMD_INIT_WINDOW then [APP_CMD_INIT_WINDOW] else [])"])
    (auto simp: android_app_write_cmd_def Let_def)

lemma set_window_safe:
  assumes "glue_safe g" "g_main g = MainIdle"
  shows "glue_safe (android_app_set_window wr w g)" "resources_safe g \<Longrightarrow> resources_safe (android_app_set_window wr w g)"
    "\<forall>c. wr c \<Longrightarrow> glue_live g \<Longrightarrow> glue_live (android_app_set_window wr w g)"
proof -
  note idle = idle_facts [OF assms]
  obtain p where g': "android_app_set_window wr w g = wait_test WaitWindow (on_app (\<lambda>a. a\<lparr>pendingWindow := w, msgpipe := msgpipe a @ p\<rparr>) g)"
    and p: "set p \<subseteq> {APP_CMD_TERM_WINDOW, APP_CMD_INIT_WINDOW}"
      "(\<forall>c. wr c) \<longrightarrow> p = (if pendingWindow (g_app g) \<noteq> 0 then [APP_CMD_TERM_WINDOW] else []) @ (if w \<noteq> 0 then [APP_CMD_INIT_WINDOW] else [])"
    using set_window_app [of "g_app g" wr w] unfolding android_app_set_window_def by metis
  have t: "todo (on_app (\<lambda>a. a\<lparr>pendingWindow := w, msgpipe := msgpipe a @ p\<rparr>) g) = todo g @ p"
    by (auto simp: todo_def)
  show "glue_safe (android_app_set_window wr w g)"
    unfolding g' by (rule wait_test_safe) (use idle p in \<open>auto simp: ending_def t\<close>)
  show "resources_safe (android_app_set_window wr w g)" if "resources_safe g"
    unfolding g' by (rule wait_test_resources) (use that idle in \<open>simp_all add: resources_safe_def\<close>)
  show "glue_live (android_app_set_window wr w g)" if "\<forall>c. wr c" "glue_live g"
  proof -
    have "foldl (window_cmd (pendingWindow (g_app g))) (window (g_app g)) (todo g) = pendingWindow (g_app g)"
      using that(2) by (simp add: glue_live_def window_after_def)
    with p(2) that(1) have "foldl (window_cmd w) (window (g_app g)) (todo g @ p) = w"
      by (auto simp: window_cmd_def)
    then have "window_after (on_app (\<lambda>a. a\<lparr>pendingWindow := w, msgpipe := msgpipe a @ p\<rparr>) g) = w"
      unfolding window_after_def t by simp
    with that(2) show ?thesis
      unfolding g' by (intro wait_test_live) (auto simp: glue_live_def t)
  qed
qed

lemma save_safe:
  assumes "glue_safe g" "g_main g = MainIdle"
  shows "glue_safe (onSaveInstanceState wr g)" "resources_safe g \<Longrightarrow> resources_safe (onSaveInstanceState wr g)"
    "wr APP_CMD_SAVE_STATE \<Longrightarrow> glue_live g \<Longrightarrow> glue_live (onSaveInstanceState wr g)"
proof -
  note idle = idle_facts [OF assms]
  show "glue_safe (onSaveInstanceState wr g)"
    unfolding onSaveInstanceState_def
    by (rule wait_test_safe) (use idle in \<open>auto simp: ending_def todo_write\<close>)
  show "resources_safe (onSaveInstanceState wr g)" if "resources_safe g"
    unfolding onSaveInstanceState_def
    by (rule wait_test_resources) (use that idle in \<open>simp_all add: resources_safe_def\<close>)
  show "glue_live (onSaveInstanceState wr g)" if "wr APP_CMD_SAVE_STATE" "glue_live g"
    unfolding onSaveInstanceState_def
    by (rule wait_test_live) (use that in \<open>auto simp: glue_live_def todo_write window_after_def window_cmd_def\<close>)
qed

lemma free_safe:
  assumes "glue_safe g" "g_main g = MainIdle"
  shows "glue_safe (android_app_free wr g)" "resources_safe g \<Longrightarrow> resources_safe (android_app_free wr g)"
    "wr APP_CMD_DESTROY \<Longrightarrow> glue_live g \<Longrightarrow> glue_live (android_app_free wr g)"
proof -
  note idle = idle_facts [OF assms]
  show "glue_safe (android_app_free wr g)"
    unfolding android_app_free_def by (rule wait_test_safe) (use idle in simp_all)
  show "resources_safe (android_app_free wr g)" if "resources_safe g"
    unfolding android_app_free_def
    by (rule wait_test_resources) (use that idle in \<open>simp_all add: resources_safe_def\<close>)
  show "glue_live (android_app_free wr g)" if "wr APP_CMD_DESTROY" "glue_live g"
    unfolding android_app_free_def
    by (rule wait_test_live) (use that in \<open>auto simp: glue_live_def ending_def todo_write window_after_def window_cmd_def\<close>)
qed

lemma notify_safe:
  assumes "glue_safe g" "g_main g = MainIdle" "cmd \<in> {APP_CMD_CONFIG_CHANGED, APP_CMD_LOW_MEMORY, APP_CMD_GAINED_FOCUS, APP_CMD_LOST_FOCUS}"
  shows "glue_safe (on_app (android_app_write_cmd wr cmd) g)" "resources_safe g \<Longrightarrow> resources_safe (on_app (android_app_write_cmd wr cmd) g)"
    "glue_live g \<Longrightarrow> glue_live (on_app (android_app_write_cmd wr cmd) g)"
  using assms idle_facts [OF assms(1,2)]
  by (auto simp: glue_safe_def resources_safe_def live_defs todo_write window_cmd_def state_cmd_def)

definition glue_inv :: "bool \<Rightarrow> glue \<Rightarrow> bool" where
  "glue_inv strict g \<longleftrightarrow> glue_safe g \<and> resources_safe g \<and> (strict \<longrightarrow> glue_live g)"

lemma callback_inv:
  assumes "glue_inv strict g" "g_main g = MainIdle" "strict \<longrightarrow> (\<forall>cmd. wr cmd)"
  shows "glue_inv strict (activity_callback wr cb g)"
  using assms unfolding glue_inv_def
  by (cases cb) (auto intro: set_state_safe set_input_safe set_window_safe save_safe free_safe notify_safe)

lemma process_cmd_inv:
  assumes "glue_inv strict g" "ok \<longrightarrow> msgpipe (g_app g) \<noteq> [] \<or> g_thread g \<noteq> AppMain"
  shows "glue_inv strict (process_cmd_step ok h g)"
proof (cases "g_thread g")
  case AppMain
  with assms show ?thesis unfolding glue_inv_def by (blast intro: read_safe)
next
  case (AppPre cmd)
  with assms show ?thesis unfolding glue_inv_def by (blast intro: pre_safe pre_resources pre_live)
next
  case (AppRun cmd)
  with assms show ?thesis unfolding glue_inv_def by (blast intro: run_safe)
next
  case (AppPost cmd)
  with assms show ?thesis unfolding glue_inv_def by (blast intro: post_safe)
qed (use assms in \<open>simp_all add: process_cmd_step_def\<close>)

lemma assets_inv: "glue_inv strict g \<Longrightarrow> glue_inv strict (g\<lparr>g_assets := n\<rparr>)"
proof -
  have "glue_safe (g\<lparr>g_assets := n\<rparr>) = glue_safe g" by (simp add: glue_safe_def ending_def)
  moreover have "resources_safe (g\<lparr>g_assets := n\<rparr>) = resources_safe g" by (simp add: resources_safe_def)
  moreover have "glue_live (g\<lparr>g_assets := n\<rparr>) = glue_live g" by (simp add: live_defs)
  ultimately show "glue_inv strict g \<Longrightarrow> glue_inv strict (g\<lparr>g_assets := n\<rparr>)" by (simp add: glue_inv_def)
qed

lemma step_inv: "glue_step strict g g' \<Longrightarrow> glue_inv strict g \<Longrightarrow> glue_inv strict g'"
proof (induction rule: glue_step.induct)
  case callback
  then show ?case by (blast intro: callback_inv)
next
  case wake
  then show ?case unfolding glue_inv_def by (blast intro: wake_safe)
next
  case entry
  then show ?case unfolding glue_inv_def by (blast intro: entry_safe)
next
  case app_cmd
  then show ?case by (blast intro: process_cmd_inv)
next
  case main_returns
  then show ?case unfolding glue_inv_def by (blast intro: returns_safe)
next
  case assets
  then show ?case by (rule assets_inv)
qed

lemma create_inv: "android_app_create pipe_ok saved assets = Some g \<Longrightarrow> glue_inv strict g"
  by (auto simp: android_app_create_def wait_test_def wait_done_def glue_inv_def glue_safe_def resources_safe_def live_defs todo_def
      waiting_def split: if_splits)

lemma reachable_inv: "glue_reachable strict g \<Longrightarrow> glue_inv strict g"
  by (induction rule: glue_reachable.induct) (blast intro: create_inv step_inv)+

section \<open>The application thread catches up\<close>

lemma app_next_step:
  assumes "\<not> app_quiet g"
  shows "glue_step strict g (app_next h g)"
proof (cases "g_thread g")
  case AppMain
  show ?thesis
  proof (cases "destroyRequested (g_app g)")
    case True
    with AppMain show ?thesis using glue_step.main_returns [of g strict] by (simp add: app_next_def)
  next
    case False
    with AppMain assms have "msgpipe (g_app g) \<noteq> []" by (simp add: app_quiet_def)
    with AppMain False show ?thesis using glue_step.app_cmd [of True g strict h] by (simp add: app_next_def)
  qed
qed (use assms glue_step.entry [of strict g] glue_step.app_cmd [of True g strict h] in \<open>simp_all add: app_next_def app_quiet_def\<close>)

lemma app_next_work:
  assumes "\<not> app_quiet g"
  shows "app_work (app_next h g) < app_work g"
proof (cases "g_thread g")
  case AppMain
  with assms show ?thesis
    by (cases "msgpipe (g_app g)")
      (auto simp: app_next_def app_quiet_def app_work_def process_cmd_step_def android_app_read_cmd_def free_saved_state_def Let_def)
next
  case (AppPre cmd)
  then show ?thesis
    by (cases cmd; (cases "the cmd")?) (auto simp: app_next_def app_work_def process_cmd_step_def pre_post_defs Let_def)
next
  case (AppPost cmd)
  then show ?thesis
    by (cases cmd; (cases "the cmd")?) (auto simp: app_next_def app_work_def process_cmd_step_def pre_post_defs)
qed (use assms in \<open>simp_all add: app_quiet_def app_next_def app_work_def process_cmd_step_def android_app_entry_def android_app_destroy_def
    free_saved_state_def Let_def\<close>)

text \<open>The application thread until it has nothing to do.\<close>

function app_run :: "(app_cmd option \<Rightarrow> char list option \<Rightarrow> char list option) \<Rightarrow> glue \<Rightarrow> glue" where
  "app_run h g = (if app_quiet g then g else app_run h (app_next h g))"
  by pat_completeness auto
termination
  by (relation "measure (\<lambda>(h, g). app_work g)") (simp_all add: app_next_work)

declare app_run.simps [simp del]

lemma app_next_waiting: "waiting c (app_next h g) = waiting c g"
  by (cases "g_thread g")
    (auto simp: app_next_def process_cmd_step_def android_app_entry_def android_app_destroy_def pre_post_defs Let_def case_prod_unfold
      split: option.split app_cmd.split)

lemma app_run_keeps:
  "glue_inv strict g \<Longrightarrow> glue_inv strict (app_run h g) \<and> app_quiet (app_run h g) \<and> (\<forall>c. waiting c (app_run h g) = waiting c g)"
proof (induction h g rule: app_run.induct)
  case (1 h g)
  show ?case
  proof (cases "app_quiet g")
    case True
    with 1(2) show ?thesis by (simp add: app_run.simps [of h g])
  next
    case False
    have "glue_inv strict (app_next h g)" using app_next_step [OF False] 1(2) by (rule step_inv)
    with 1(1) False show ?thesis by (simp add: app_run.simps [of h g] app_next_waiting)
  qed
qed

lemma quiet_done:
  assumes "glue_inv True g" "app_quiet g" "g_main g = MainWait c woken"
  shows "wait_done c (g_app g) \<and> woken"
proof -
  have w: "waiting d g \<longleftrightarrow> c = d" for d using assms(3) by (auto simp: waiting_def)
  have done_woken: "wait_done c (g_app g) \<Longrightarrow> woken" using assms(1,3) by (auto simp: glue_inv_def glue_safe_def)
  have "wait_done c (g_app g)"
  proof (cases "g_thread g = AppDone")
    case True
    then have "destroyed (g_app g)" "ending g" using assms(1) by (simp_all add: glue_inv_def glue_safe_def ending_def)
    with assms(1,3) w show ?thesis by (auto simp: glue_inv_def glue_safe_def wait_done_def)
  next
    case False
    with assms(2) have t: "g_thread g = AppMain" "todo g = []" "\<not> destroyRequested (g_app g)" by (simp_all add: app_quiet_def todo_def)
    with assms(1) w show ?thesis
      by (cases c) (auto simp: glue_inv_def glue_safe_def live_defs wait_done_def)
  qed
  with done_woken show ?thesis by blast
qed

lemma app_run_steps: "\<exists>n \<le> app_work g. app_run h g = (app_next h ^^ n) g"
proof (induction h g rule: app_run.induct)
  case (1 h g)
  show ?case
  proof (cases "app_quiet g")
    case True
    then show ?thesis by (intro exI [of _ 0]) (simp add: app_run.simps [of h g])
  next
    case False
    with 1 obtain n where "n \<le> app_work (app_next h g)" "app_run h (app_next h g) = (app_next h ^^ n) (app_next h g)" by blast
    with False app_next_work [OF False, of h] show ?thesis
      by (intro exI [of _ "Suc n"]) (simp add: app_run.simps [of h g] funpow_swap1)
  qed
qed

section \<open>An example\<close>

text \<open>An activity whose application has started, and one that waits for its first window to be taken.\<close>

definition demo_started :: glue where
  "demo_started =
     \<lparr>g_app = \<lparr>config = Some 7, savedState = None, inputQueue = 0, window = 0, activityState = APP_CMD_INPUT_CHANGED,
        destroyRequested = False, msgpipe = [], running = True, stateSaved = False, destroyed = False,
        pendingInputQueue = 0, pendingWindow = 0, attached = []\<rparr>,
      g_main = MainIdle, g_thread = AppMain, g_assets = 7, g_returned = []\<rparr>"

definition demo_window :: glue where
  "demo_window = activity_callback (\<lambda>_. True) (OnNativeWindowCreated 5) demo_started"

lemma demo_started_fields:
  "g_main demo_started = MainIdle" "g_thread demo_started = AppMain" "msgpipe (g_app demo_started) = []"
  "\<not> destroyRequested (g_app demo_started)" "pendingWindow (g_app demo_started) = 0"
  by (simp_all add: demo_started_def)

lemma demo_started_reachable: "glue_reachable True demo_started"
proof -
  let ?g = "the (android_app_create True None 7)"
  have create: "glue_reachable True ?g" by (rule glue_reachable.create [of True None 7]) (simp add: android_app_create_def)
  have entered: "glue_reachable True (android_app_entry ?g)" by (rule glue_reachable.step [OF create glue_step.entry])
  have wait: "g_main (android_app_entry ?g) = MainWait WaitRunning True"
    by (simp add: android_app_create_def wait_test_def wait_done_def android_app_entry_def broadcast_def)
  have "wait_test WaitRunning (android_app_entry ?g) = demo_started"
    by (simp add: android_app_create_def wait_test_def wait_done_def after_wait_def android_app_entry_def broadcast_def demo_started_def)
  then show ?thesis using glue_reachable.step [OF entered glue_step.wake [OF wait]] by simp
qed

lemma demo_window_reachable: "glue_reachable True demo_window" "g_main demo_window = MainWait WaitWindow False"
proof -
  show "glue_reachable True demo_window"
    unfolding demo_window_def
    by (rule glue_reachable.step [OF demo_started_reachable glue_step.callback]) (simp_all add: demo_started_fields)
  show "g_main demo_window = MainWait WaitWindow False"
    by (simp add: demo_window_def demo_started_def android_app_set_window_def wait_test_def wait_done_def android_app_write_cmd_def Let_def)
qed

section \<open>Properties\<close>

text \<open>C6: In every interleaving of the callbacks with the application thread, with spurious wake-ups and with
  writes to the pipe that fail: the shared object is only freed when the application thread no longer uses
  it; between the callbacks the window of the application is none or the one the activity has, so that it
  is none once the destruction of a window has been reported, and its input queue is the one of the
  activity; exactly that queue is attached to the looper; and a thread whose condition holds has been woken.\<close>

theorem glue_threads_safe:
  assumes "glue_reachable strict g"
  shows "(g_main g = MainFreed \<longrightarrow> g_thread g = AppDone) \<and>
     (g_main g = MainIdle \<longrightarrow>
        running (g_app g) \<and> \<not> destroyed (g_app g) \<and>
        window (g_app g) \<in> {0, pendingWindow (g_app g)} \<and> inputQueue (g_app g) = pendingInputQueue (g_app g)) \<and>
     (g_thread g \<noteq> AppDone \<longrightarrow> attached (g_app g) = (if inputQueue (g_app g) = 0 then [] else [inputQueue (g_app g)])) \<and>
     (\<forall>c woken. g_main g = MainWait c woken \<and> wait_done c (g_app g) \<longrightarrow> woken)"
proof -
  have inv: "glue_safe g" "resources_safe g" using reachable_inv [OF assms] by (simp_all add: glue_inv_def)
  show ?thesis
  proof (intro conjI)
    show "g_main g = MainFreed \<longrightarrow> g_thread g = AppDone" using inv(1) by (simp add: glue_safe_def)
    show "g_main g = MainIdle \<longrightarrow> running (g_app g) \<and> \<not> destroyed (g_app g) \<and>
        window (g_app g) \<in> {0, pendingWindow (g_app g)} \<and> inputQueue (g_app g) = pendingInputQueue (g_app g)"
      using idle_facts [OF inv(1)] inv(2) by (auto simp: resources_safe_def)
    show "g_thread g \<noteq> AppDone \<longrightarrow> attached (g_app g) = (if inputQueue (g_app g) = 0 then [] else [inputQueue (g_app g)])"
      using inv(2) by (simp add: resources_safe_def)
    show "\<forall>c woken. g_main g = MainWait c woken \<and> wait_done c (g_app g) \<longrightarrow> woken"
      using inv(1) unfolding glue_safe_def by blast
  qed
qed

theorem glue_threads_safe_witness:
  "glue_reachable True demo_started \<and> g_main demo_started = MainIdle \<and> window (g_app demo_started) = 0"
  using glue_threads_safe [OF demo_started_reachable] demo_started_reachable demo_started_fields by simp

text \<open>C7: No callback waits forever, as long as the writes to the pipe succeed and the application processes its
  commands and returns when it is asked to: when the application thread has caught up, which takes at most
  \<open>app_work\<close> steps, the waiting thread has been woken, its condition holds, and its callback returns.\<close>

theorem callbacks_return:
  assumes "glue_reachable True g" "g_main g = MainWait c woken"
  shows "(\<exists>n \<le> app_work g. app_run h g = (app_next h ^^ n) g) \<and> g_main (app_run h g) = MainWait c True \<and>
     g_main (wait_test c (app_run h g)) = (if c = WaitDestroyed then MainFreed else MainIdle)"
proof -
  note keeps = app_run_keeps [OF reachable_inv [OF assms(1)], of h]
  have "waiting c (app_run h g)" using keeps assms(2) by (simp add: waiting_def)
  then obtain b where b: "g_main (app_run h g) = MainWait c b" by (auto simp: waiting_def)
  with quiet_done [OF _ _ b] keeps have "wait_done c (g_app (app_run h g))" "b" by blast+
  with b app_run_steps [of g h] show ?thesis by (cases c) (simp_all add: wait_test_def after_wait_def)
qed

theorem callbacks_return_witness:
  "\<exists>h. g_main (app_run h demo_window) = MainWait WaitWindow True \<and> g_main (wait_test WaitWindow (app_run h demo_window)) = MainIdle"
  using callbacks_return [OF demo_window_reachable] by auto



end
