(* ===== verification/Fallback_Heap.thy ===== *)
theory Fallback_Heap
  imports Prelude
begin

text \<open>
  The emergency heap of the C++ runtime, \<open>fallback_malloc.ipp\<close>: 512 bytes from which exceptions are
  allocated when \<open>malloc\<close> fails. The heap is an array of 128 nodes of four bytes; a chunk starts with a node
  that has its length in nodes, and free chunks are linked through their first nodes. A pointer to a node
  is its index, 128 is \<open>list_end\<close>; what callers store in the nodes after the first of a chunk is not
  represented. An access outside the array, and a walk that does not end, is \<^term>\<open>None\<close>.
\<close>

section \<open>The allocator\<close>

record heap_node =
  next_node :: "16 word"
  node_len :: "16 word"

record heap_state =
  heap :: "nat \<Rightarrow> heap_node"
  freelist :: "nat option"

definition list_end :: nat where
  "list_end = 128"

definition node_from_offset :: "16 word \<Rightarrow> nat" where
  "node_from_offset offset = unat offset"

definition offset_from_node :: "nat \<Rightarrow> 16 word" where
  "offset_from_node p = word_of_nat p"

text \<open>A node of the array.\<close>

definition heap_at :: "nat \<Rightarrow> heap_state \<Rightarrow> heap_node option" where
  "heap_at p st = (if p < list_end then Some (heap st p) else None)"

definition set_node :: "nat \<Rightarrow> heap_node \<Rightarrow> heap_state \<Rightarrow> heap_state option" where
  "set_node p nd st = (if p < list_end then Some (st\<lparr>heap := (heap st)(p := nd)\<rparr>) else None)"

definition init_heap :: "heap_state \<Rightarrow> heap_state" where
  "init_heap st = st\<lparr>freelist := Some 0, heap := (heap st)(0 := \<lparr>next_node = offset_from_node list_end, node_len = 128\<rparr>)\<rparr>"

text \<open>The size of a chunk in nodes; \<open>size_t\<close> has the width \<open>'w\<close>.\<close>

definition alloc_size :: "('w::len) word \<Rightarrow> 'w word" where
  "alloc_size len = (len + 4 - 1) div 4 + 1"

text \<open>The walk of \<open>fallback_malloc\<close> from \<open>p\<close> on; the result is the node after the first one of the chunk.\<close>

fun malloc_walk :: "nat \<Rightarrow> nat \<Rightarrow> nat option \<Rightarrow> nat \<Rightarrow> heap_state \<Rightarrow> (nat option \<times> heap_state) option" where
  "malloc_walk 0 nelems prev p st = None"
| "malloc_walk (Suc k) nelems prev p st =
     (if p = list_end then Some (None, st)
      else do {
        nd \<leftarrow> heap_at p st;
        if nelems < unat (node_len nd) then do {
          let nd = nd\<lparr>node_len := node_len nd - word_of_nat nelems\<rparr>;
          st \<leftarrow> set_node p nd st;
          let q = p + unat (node_len nd);
          st \<leftarrow> set_node q \<lparr>next_node = 0, node_len = word_of_nat nelems\<rparr> st;
          Some (Some (q + 1), st)
        }
        else if unat (node_len nd) = nelems then do {
          st \<leftarrow> (case prev of
             None \<Rightarrow> Some (st\<lparr>freelist := Some (node_from_offset (next_node nd))\<rparr>)
           | Some pr \<Rightarrow> do { pd \<leftarrow> heap_at pr st; set_node pr (pd\<lparr>next_node := next_node nd\<rparr>) st });
          st \<leftarrow> set_node p (nd\<lparr>next_node := 0\<rparr>) st;
          Some (Some (p + 1), st)
        }
        else malloc_walk k nelems (Some p) (node_from_offset (next_node nd)) st
      })"

definition fallback_malloc :: "('w::len) word \<Rightarrow> heap_state \<Rightarrow> (nat option \<times> heap_state) option" where
  "fallback_malloc len st =
     (let nelems = unat (alloc_size len);
          st = (if freelist st = None then init_heap st else st)
      in malloc_walk 129 nelems None (the (freelist st)) st)"

definition after :: "nat \<Rightarrow> heap_node \<Rightarrow> nat" where
  "after p nd = p + unat (node_len nd)"

fun free_walk :: "nat \<Rightarrow> nat \<Rightarrow> nat option \<Rightarrow> nat \<Rightarrow> heap_state \<Rightarrow> heap_state option" where
  "free_walk 0 cp prev p st = None"
| "free_walk (Suc k) cp prev p st =
     (if p = list_end then do {
        cd \<leftarrow> heap_at cp st;
        st \<leftarrow> set_node cp (cd\<lparr>next_node := offset_from_node (the (freelist st))\<rparr>) st;
        Some (st\<lparr>freelist := Some cp\<rparr>)
      }
      else do {
        nd \<leftarrow> heap_at p st;
        cd \<leftarrow> heap_at cp st;
        if after p nd = cp then set_node p (nd\<lparr>node_len := node_len nd + node_len cd\<rparr>) st
        else if after cp cd = p then do {
          let cd = cd\<lparr>node_len := node_len cd + node_len nd\<rparr>;
          (case prev of
             None \<Rightarrow> do {
               st \<leftarrow> set_node cp (cd\<lparr>next_node := next_node nd\<rparr>) st;
               Some (st\<lparr>freelist := Some cp\<rparr>)
             }
           | Some pr \<Rightarrow> do {
               st \<leftarrow> set_node cp cd st;
               pd \<leftarrow> heap_at pr st;
               set_node pr (pd\<lparr>next_node := offset_from_node cp\<rparr>) st
             })
        }
        else free_walk k cp (Some p) (node_from_offset (next_node nd)) st
      })"

text \<open>\<open>ptr\<close> is what \<open>fallback_malloc\<close> returned.\<close>

definition fallback_free :: "nat \<Rightarrow> heap_state \<Rightarrow> heap_state option" where
  "fallback_free ptr st =
     (case freelist st of
        None \<Rightarrow> None
      | Some f \<Rightarrow> free_walk 129 (ptr - 1) None f st)"

section \<open>Chunks\<close>

text \<open>A map of the chunks from their first node to their length tiles the heap when every node is in exactly
  one of them.\<close>

definition inside :: "(nat \<rightharpoonup> nat) \<Rightarrow> nat \<Rightarrow> nat \<Rightarrow> bool" where
  "inside m x i \<longleftrightarrow> (\<exists>n. m x = Some n \<and> x \<le> i \<and> i < x + n)"

definition tiles :: "(nat \<rightharpoonup> nat) \<Rightarrow> bool" where
  "tiles m \<longleftrightarrow> (\<forall>x n. m x = Some n \<longrightarrow> 0 < n \<and> x + n \<le> list_end) \<and> (\<forall>i < list_end. \<exists>!x. inside m x i)"

lemma tiles_bound: "tiles m \<Longrightarrow> m x = Some n \<Longrightarrow> 0 < n \<and> x + n \<le> list_end"
  by (simp add: tiles_def)

lemma tiles_unique:
  assumes "tiles m" "m x = Some n" "m y = Some k" "x \<le> i" "i < x + n" "y \<le> i" "i < y + k"
  shows "x = y"
proof -
  have "i < list_end" using tiles_bound [OF assms(1,2)] assms(5) by simp
  moreover have "inside m x i" "inside m y i" using assms by (auto simp: inside_def)
  ultimately show ?thesis using assms(1) unfolding tiles_def by blast
qed

lemma tiles_inner:
  assumes "tiles m" "m x = Some n" "0 < k" "k < n"
  shows "m (x + k) = None"
proof (rule ccontr)
  assume "m (x + k) \<noteq> None"
  then obtain l where l: "m (x + k) = Some l" by blast
  then have "x = x + k" using tiles_unique [OF assms(1,2) l, of "x + k"] tiles_bound [OF assms(1) l] assms(4) by simp
  with assms(3) show False by simp
qed

text \<open>Cutting the end off a chunk, and joining two neighbours.\<close>

lemma tiles_split:
  assumes "tiles m" "m x = Some n" "0 < k" "k < n"
  shows "tiles (m(x \<mapsto> k, x + k \<mapsto> n - k))"
proof -
  let ?m = "m(x \<mapsto> k, x + k \<mapsto> n - k)"
  have inner: "m (x + k) = None" by (rule tiles_inner [OF assms])
  have "\<exists>!y. inside ?m y i" if i: "i < list_end" for i
  proof -
    from assms(1) i obtain z where z: "inside m z i" "\<And>y. inside m y i \<Longrightarrow> y = z" unfolding tiles_def by blast
    have other: "inside ?m y i \<longleftrightarrow> inside m y i" if "y \<noteq> x" "y \<noteq> x + k" for y using that by (simp add: inside_def)
    have eqs: "inside ?m x i \<longleftrightarrow> x \<le> i \<and> i < x + k" "inside ?m (x + k) i \<longleftrightarrow> x + k \<le> i \<and> i < x + n"
      "inside m x i \<longleftrightarrow> x \<le> i \<and> i < x + n" "\<not> inside m (x + k) i"
      using assms inner by (auto simp: inside_def)
    show ?thesis
    proof (cases "z = x")
      case True
      let ?y = "if i < x + k then x else x + k"
      have "inside ?m ?y i" using True z(1) eqs by auto
      moreover have "y = ?y" if y: "inside ?m y i" for y
      proof (cases "y = x \<or> y = x + k")
        case True
        with y eqs show ?thesis by auto
      next
        case False
        with y other z(2) \<open>z = x\<close> show ?thesis by blast
      qed
      ultimately show ?thesis by blast
    next
      case False
      then have out: "\<not> inside m x i" "z \<noteq> x + k" using z eqs(4) by blast+
      then have "\<not> inside ?m x i" "\<not> inside ?m (x + k) i" using eqs assms(4) by auto
      with False out z other show ?thesis by metis
    qed
  qed
  moreover have "0 < l \<and> y + l \<le> list_end" if "?m y = Some l" for y l
    using that assms tiles_bound [OF assms(1,2)] tiles_bound [OF assms(1), of y l] by (auto split: if_splits)
  ultimately show ?thesis unfolding tiles_def by blast
qed

lemma tiles_join:
  assumes "tiles m" "m x = Some n" "m (x + n) = Some k"
  shows "tiles (m(x \<mapsto> n + k, x + n := None))"
proof -
  let ?m = "m(x \<mapsto> n + k, x + n := None)"
  have pos: "0 < n" "0 < k" "x + n + k \<le> list_end" using tiles_bound [OF assms(1,2)] tiles_bound [OF assms(1,3)] by auto
  have "\<exists>!y. inside ?m y i" if i: "i < list_end" for i
  proof -
    from assms(1) i obtain z where z: "inside m z i" "\<And>y. inside m y i \<Longrightarrow> y = z" unfolding tiles_def by blast
    have other: "inside ?m y i \<longleftrightarrow> inside m y i" if "y \<noteq> x" "y \<noteq> x + n" for y using that by (simp add: inside_def)
    have eqs: "inside ?m x i \<longleftrightarrow> x \<le> i \<and> i < x + n + k" "\<not> inside ?m (x + n) i"
      "inside m x i \<longleftrightarrow> x \<le> i \<and> i < x + n" "inside m (x + n) i \<longleftrightarrow> x + n \<le> i \<and> i < x + n + k"
      using assms pos by (auto simp: inside_def)
    show ?thesis
    proof (cases "z = x \<or> z = x + n")
      case True
      then have "inside ?m x i" using z(1) eqs by auto
      moreover have "y = x" if "inside ?m y i" for y
      proof (rule ccontr)
        assume "y \<noteq> x"
        with that eqs(2) have "y \<noteq> x + n" by blast
        with that other \<open>y \<noteq> x\<close> z(2) have "y = z" by blast
        with True \<open>y \<noteq> x\<close> \<open>y \<noteq> x + n\<close> show False by blast
      qed
      ultimately show ?thesis by blast
    next
      case False
      then have "\<not> inside ?m x i" using z eqs by (metis leI)
      with False z other eqs(2) show ?thesis by (intro ex1I [of _ z]) metis+
    qed
  qed
  moreover have "0 < l \<and> y + l \<le> list_end" if "?m y = Some l" for y l
    using that pos tiles_bound [OF assms(1), of y l] by (auto split: if_splits)
  ultimately show ?thesis unfolding tiles_def by blast
qed

section \<open>Well-formed heaps\<close>

text \<open>The links from \<open>p\<close> to \<open>q\<close> over the nodes of a list.\<close>

fun seg :: "(nat \<Rightarrow> heap_node) \<Rightarrow> nat \<Rightarrow> nat list \<Rightarrow> nat \<Rightarrow> bool" where
  "seg h p [] q \<longleftrightarrow> p = q"
| "seg h p (x # xs) q \<longleftrightarrow> p = x \<and> x < list_end \<and> seg h (node_from_offset (next_node (h x))) xs q"

definition chunks :: "(nat \<Rightarrow> heap_node) \<Rightarrow> nat list \<Rightarrow> (nat \<rightharpoonup> nat) \<Rightarrow> nat \<rightharpoonup> nat" where
  "chunks h fs A = (\<lambda>x. if x \<in> set fs then Some (unat (node_len (h x))) else A x)"

text \<open>\<open>fs\<close> are the free chunks in the order of the list, \<open>A\<close> the allocated chunks with their lengths.\<close>

definition heap_ok :: "heap_state \<Rightarrow> nat list \<Rightarrow> (nat \<rightharpoonup> nat) \<Rightarrow> bool" where
  "heap_ok st fs A \<longleftrightarrow>
     (\<exists>f. freelist st = Some f \<and> seg (heap st) f fs list_end) \<and> distinct fs \<and> set fs \<inter> dom A = {} \<and>
     tiles (chunks (heap st) fs A) \<and> (\<forall>a n. A a = Some n \<longrightarrow> unat (node_len (heap st a)) = n)"

definition heap_inv :: "heap_state \<Rightarrow> (nat \<rightharpoonup> nat) \<Rightarrow> bool" where
  "heap_inv st A \<longleftrightarrow> (freelist st = None \<and> A = Map.empty) \<or> (\<exists>fs. heap_ok st fs A)"

lemma seg_append: "seg h p (xs @ ys) q \<longleftrightarrow> (\<exists>m. seg h p xs m \<and> seg h m ys q)"
  by (induction xs arbitrary: p) auto

lemma seg_cong: "(\<And>x. x \<in> set xs \<Longrightarrow> next_node (h' x) = next_node (h x)) \<Longrightarrow> seg h' p xs q = seg h p xs q"
  by (induction xs arbitrary: p) auto

lemma seg_bound: "seg h p xs q \<Longrightarrow> x \<in> set xs \<Longrightarrow> x < list_end"
  by (induction xs arbitrary: p) auto

lemma chunks_length:
  assumes "distinct fs" "set fs \<subseteq> {..<list_end}"
  shows "length fs \<le> list_end"
  using assms card_mono [of "{..<list_end}" "set fs"] by (simp add: distinct_card)

lemma init_heap_ok: "heap_ok (init_heap st) [0] Map.empty"
  by (auto simp: heap_ok_def init_heap_def chunks_def tiles_def inside_def list_end_def node_from_offset_def offset_from_node_def
      split: if_splits)

lemma unat_len_sub:
  fixes l :: "16 word"
  assumes "n < unat l" shows "unat (l - word_of_nat n) = unat l - n"
proof -
  have "unat (word_of_nat n :: 16 word) = n" using assms unsigned_less [where ?'a = nat, of l] by (simp add: unsigned_of_nat take_bit_nat_eq_self)
  then show ?thesis using assms by (simp add: unat_sub word_le_nat_alt)
qed

lemma unat_len_add:
  fixes l k :: "16 word"
  assumes "unat l + unat k \<le> list_end" shows "unat (l + k) = unat l + unat k"
  using assms by (intro unat_add_lem [THEN iffD1]) (simp add: list_end_def)

text \<open>Cutting the end off a free chunk.\<close>

lemma cut_ok:
  assumes ok: "heap_ok st fs A" and p: "p \<in> set fs" and n: "0 < n" "n < unat (node_len (heap st p))"
    and nd: "nd = (heap st p)\<lparr>node_len := node_len (heap st p) - word_of_nat n\<rparr>" and q: "q = p + unat (node_len nd)"
  shows "heap_ok (st\<lparr>heap := (heap st)(p := nd, q := \<lparr>next_node = 0, node_len = word_of_nat n\<rparr>)\<rparr>) fs (A(q \<mapsto> n))"
    "q \<notin> dom A" "q < list_end" "p < list_end"
proof -
  let ?m = "chunks (heap st) fs A"
  let ?l = "unat (node_len (heap st p))"
  let ?h = "(heap st)(p := nd, q := \<lparr>next_node = 0, node_len = word_of_nat n\<rparr>)"
  have t: "tiles ?m" and d: "distinct fs" and dis: "set fs \<inter> dom A = {}" using ok by (simp_all add: heap_ok_def)
  have mp: "?m p = Some ?l" using p by (simp add: chunks_def)
  have len: "unat (node_len nd) = ?l - n" using unat_len_sub n by (simp add: nd)
  have bound: "p + ?l \<le> list_end" using tiles_bound [OF t mp] by simp
  have mq: "?m q = None" using tiles_inner [OF t mp, of "?l - n"] n len by (simp add: q)
  then have qf: "q \<notin> set fs" "A q = None" by (auto simp: chunks_def split: if_splits)
  show "q \<notin> dom A" "q < list_end" "p < list_end" using qf bound n len by (auto simp: q)
  have "chunks ?h fs (A(q \<mapsto> n)) = ?m(p \<mapsto> ?l - n, p + (?l - n) \<mapsto> n)"
    using p qf len dis by (auto simp: chunks_def fun_eq_iff q)
  moreover have "tiles (?m(p \<mapsto> ?l - n, p + (?l - n) \<mapsto> n))" using tiles_split [OF t mp, of "?l - n"] n by simp
  ultimately have "tiles (chunks ?h fs (A(q \<mapsto> n)))" by simp
  moreover have "\<exists>f. freelist st = Some f \<and> seg ?h f fs list_end"
  proof -
    have "seg ?h f fs list_end = seg (heap st) f fs list_end" for f by (rule seg_cong) (use qf in \<open>auto simp: nd\<close>)
    then show ?thesis using ok by (simp add: heap_ok_def)
  qed
  moreover have "unat (node_len (?h a)) = k" if "(A(q \<mapsto> n)) a = Some k" for a k
  proof (cases "a = q")
    case True
    have "n < 2 ^ 16" using n(2) unsigned_less [where ?'a = nat, of "node_len (heap st p)"] by simp
    with True that show ?thesis by (simp add: unsigned_of_nat take_bit_nat_eq_self)
  next
    case False
    with that dis p have "a \<noteq> p" by auto
    with False that ok show ?thesis by (simp add: heap_ok_def)
  qed
  ultimately show "heap_ok (st\<lparr>heap := ?h\<rparr>) fs (A(q \<mapsto> n))"
    using d dis qf(1) by (auto simp: heap_ok_def)
qed

text \<open>Taking a chunk out of the list: \<open>st'\<close> is the state with the link to it replaced.\<close>

lemma take_ok:
  assumes ok: "heap_ok st (xs @ p # ys) A"
    and st': "\<exists>f. freelist st' = Some f \<and> seg (heap st') f (xs @ ys) list_end"
    and len: "\<And>x. node_len (heap st' x) = node_len (heap st x)"
  shows "heap_ok st' (xs @ ys) (A(p \<mapsto> unat (node_len (heap st p))))" "p \<notin> dom A"
proof -
  show pA: "p \<notin> dom A" using ok by (auto simp: heap_ok_def)
  have "chunks (heap st') (xs @ ys) (A(p \<mapsto> unat (node_len (heap st p)))) = chunks (heap st) (xs @ p # ys) A"
    using ok len by (auto simp: chunks_def fun_eq_iff heap_ok_def)
  then show "heap_ok st' (xs @ ys) (A(p \<mapsto> unat (node_len (heap st p))))"
    using ok st' len pA by (auto simp: heap_ok_def)
qed

lemma malloc_walk_ok:
  assumes "heap_ok st (xs @ rest) A" "seg (heap st) p rest list_end" "0 < n" "length rest < k"
    and "prev = (if xs = [] then None else Some (last xs))"
  shows "(\<forall>x \<in> set rest. unat (node_len (heap st x)) < n) \<and> malloc_walk k n prev p st = Some (None, st) \<or>
     (\<exists>q st' fs'. malloc_walk k n prev p st = Some (Some (q + 1), st') \<and> heap_ok st' fs' (A(q \<mapsto> n)) \<and> q \<notin> dom A)"
  using assms
proof (induction rest arbitrary: xs p k prev)
  case Nil
  then show ?case by (cases k) simp_all
next
  case (Cons x rest)
  from Cons.prems(4) obtain k' where k: "k = Suc k'" by (cases k) auto
  have x: "p = x" "x < list_end" "seg (heap st) (node_from_offset (next_node (heap st x))) rest list_end" using Cons.prems(2) by auto
  let ?nd = "heap st x"
  have at: "heap_at p st = Some ?nd" using x by (simp add: heap_at_def)
  consider "n < unat (node_len ?nd)" | "unat (node_len ?nd) = n" | "unat (node_len ?nd) < n" by linarith
  then show ?case
  proof cases
    case 1
    let ?nd' = "?nd\<lparr>node_len := node_len ?nd - word_of_nat n\<rparr>"
    let ?q = "x + unat (node_len ?nd')"
    have "x \<in> set (xs @ x # rest)" by simp
    note cut = cut_ok [OF Cons.prems(1) this Cons.prems(3) 1 refl refl]
    have "malloc_walk k n prev p st =
        Some (Some (?q + 1), st\<lparr>heap := (heap st)(x := ?nd', ?q := \<lparr>next_node = 0, node_len = word_of_nat n\<rparr>)\<rparr>)"
      using 1 k x at cut(3) by (simp add: set_node_def Let_def)
    with cut(1,2) show ?thesis by blast
  next
    case 2
    let ?st1 = "case prev of None \<Rightarrow> st\<lparr>freelist := Some (node_from_offset (next_node ?nd))\<rparr>
      | Some pr \<Rightarrow> st\<lparr>heap := (heap st)(pr := (heap st pr)\<lparr>next_node := next_node ?nd\<rparr>)\<rparr>"
    let ?st2 = "?st1\<lparr>heap := (heap ?st1)(x := ?nd\<lparr>next_node := 0\<rparr>)\<rparr>"
    have d: "distinct (xs @ x # rest)" using Cons.prems(1) by (simp add: heap_ok_def)
    obtain f where f: "freelist st = Some f" "seg (heap st) f (xs @ x # rest) list_end" using Cons.prems(1) by (auto simp: heap_ok_def)
    have walk: "malloc_walk k n prev p st = Some (Some (x + 1), ?st2)"
    proof (cases xs rule: rev_cases)
      case Nil
      with 2 k x at Cons.prems(5) show ?thesis by (simp add: set_node_def)
    next
      case (snoc ys pr)
      with f(2) have "pr < list_end" by (auto dest: seg_bound)
      with snoc 2 k x at Cons.prems(5) show ?thesis by (simp add: set_node_def heap_at_def)
    qed
    have "\<exists>f. freelist ?st2 = Some f \<and> seg (heap ?st2) f (xs @ rest) list_end"
    proof (cases xs rule: rev_cases)
      case Nil
      have "seg ((heap st)(x := ?nd\<lparr>next_node := 0\<rparr>)) q rest list_end = seg (heap st) q rest list_end" for q
        by (rule seg_cong) (use d in auto)
      with Nil x Cons.prems(5) show ?thesis by simp
    next
      case (snoc ys pr)
      let ?h = "((heap st)(pr := (heap st pr)\<lparr>next_node := next_node ?nd\<rparr>))(x := ?nd\<lparr>next_node := 0\<rparr>)"
      have "seg ?h q rest list_end = seg (heap st) q rest list_end" "seg ?h q ys r = seg (heap st) q ys r" for q r
        by (rule seg_cong; use d snoc in auto)+
      with snoc f x Cons.prems(5) d show ?thesis by (auto simp: seg_append)
    qed
    moreover have "node_len (heap ?st2 y) = node_len (heap st y)" for y by (auto split: option.split)
    ultimately have "heap_ok ?st2 (xs @ rest) (A(x \<mapsto> n))" "x \<notin> dom A"
      using take_ok [OF Cons.prems(1), of ?st2] 2 by auto
    with walk show ?thesis by blast
  next
    case 3
    have "malloc_walk k n prev p st = malloc_walk k' n (Some x) (node_from_offset (next_node ?nd)) st"
      using 3 k x at by simp
    moreover have "(\<forall>y \<in> set rest. unat (node_len (heap st y)) < n) \<and>
        malloc_walk k' n (Some x) (node_from_offset (next_node ?nd)) st = Some (None, st) \<or>
      (\<exists>q st' fs'. malloc_walk k' n (Some x) (node_from_offset (next_node ?nd)) st = Some (Some (q + 1), st') \<and>
        heap_ok st' fs' (A(q \<mapsto> n)) \<and> q \<notin> dom A)"
      by (rule Cons.IH [of "xs @ [x]"]) (use Cons.prems x(3) k in simp_all)
    ultimately show ?thesis using 3 by (simp only: set_simps ball_simps simp_thms)
  qed
qed

text \<open>The walk of \<open>fallback_free\<close>: no free chunk behind the first one starts where \<open>cp\<close> ends.\<close>

lemma free_walk_ok:
  assumes "heap_ok st (xs @ rest) A" "seg (heap st) p rest list_end" "length rest < k" "A cp = Some n"
    and "prev = (if xs = [] then None else Some (last xs))" "cp + n \<notin> set (if xs = [] then tl rest else rest)"
  shows "\<exists>st' fs'. free_walk k cp prev p st = Some st' \<and> heap_ok st' fs' (A(cp := None))"
  using assms
proof (induction rest arbitrary: xs p k prev)
  case Nil
  let ?h = "(heap st)(cp := (heap st cp)\<lparr>next_node := offset_from_node (the (freelist st))\<rparr>)"
  let ?st = "st\<lparr>heap := ?h, freelist := Some cp\<rparr>"
  obtain f where f: "freelist st = Some f" "seg (heap st) f xs list_end" using Nil.prems(1) by (auto simp: heap_ok_def)
  have t: "tiles (chunks (heap st) xs A)" and cx: "cp \<notin> set xs" and d: "distinct xs" "set xs \<inter> dom A = {}"
    and len: "\<And>a m. A a = Some m \<Longrightarrow> unat (node_len (heap st a)) = m"
    using Nil.prems(1,4) by (auto simp: heap_ok_def)
  have bound: "cp < list_end" using tiles_bound [OF t, of cp n] cx Nil.prems(4) by (simp add: chunks_def)
  have "f \<le> list_end" using f(2) by (cases xs) auto
  then have same: "node_from_offset (offset_from_node f) = f"
    by (simp add: node_from_offset_def offset_from_node_def list_end_def unsigned_of_nat take_bit_nat_eq_self)
  have walk: "free_walk k cp prev p st = Some ?st"
    using Nil.prems(2,3) bound by (cases k) (auto simp: heap_at_def set_node_def)
  have "seg ?h f xs list_end = seg (heap st) f xs list_end" by (rule seg_cong) (use cx in auto)
  then have "seg ?h cp (cp # xs) list_end" using f bound same by simp
  moreover have "chunks ?h (cp # xs) (A(cp := None)) = chunks (heap st) xs A"
    using len [OF Nil.prems(4)] cx Nil.prems(4) by (auto simp: chunks_def fun_eq_iff)
  ultimately have "heap_ok ?st (cp # xs) (A(cp := None))"
    using t cx d len by (auto simp: heap_ok_def split: if_splits)
  with walk show ?case by blast
next
  case (Cons x rest)
  from Cons.prems(3) obtain k' where k: "k = Suc k'" by (cases k) auto
  have x: "p = x" "x < list_end" "seg (heap st) (node_from_offset (next_node (heap st x))) rest list_end" using Cons.prems(2) by auto
  let ?fs = "xs @ x # rest"
  let ?nd = "heap st x"
  let ?cd = "heap st cp"
  obtain f where f: "freelist st = Some f" "seg (heap st) f ?fs list_end" using Cons.prems(1) by (auto simp: heap_ok_def)
  have t: "tiles (chunks (heap st) ?fs A)" and cx: "cp \<notin> set ?fs" and d: "distinct ?fs" "set ?fs \<inter> dom A = {}"
    and len: "\<And>a m. A a = Some m \<Longrightarrow> unat (node_len (heap st a)) = m"
    using Cons.prems(1,4) by (auto simp: heap_ok_def)
  have m: "chunks (heap st) ?fs A x = Some (unat (node_len ?nd))" "chunks (heap st) ?fs A cp = Some n" "unat (node_len ?cd) = n"
    using cx Cons.prems(4) len [OF Cons.prems(4)] by (auto simp: chunks_def)
  have bound: "cp + n \<le> list_end" "cp < list_end" "x + unat (node_len ?nd) \<le> list_end"
    using tiles_bound [OF t m(2)] tiles_bound [OF t m(1)] by auto
  consider "after x ?nd = cp" | "after x ?nd \<noteq> cp" "after cp ?cd = x" | "after x ?nd \<noteq> cp" "after cp ?cd \<noteq> x" by blast
  then show ?case
  proof cases
    case 1
    let ?h = "(heap st)(x := ?nd\<lparr>node_len := node_len ?nd + node_len ?cd\<rparr>)"
    have walk: "free_walk k cp prev p st = Some (st\<lparr>heap := ?h\<rparr>)" using 1 k x bound by (simp add: heap_at_def set_node_def)
    have sum: "unat (node_len ?nd + node_len ?cd) = unat (node_len ?nd) + n"
      using unat_len_add [of "node_len ?nd" "node_len ?cd"] bound 1 m(3) by (simp add: after_def)
    have "chunks ?h ?fs (A(cp := None)) = (chunks (heap st) ?fs A)(x \<mapsto> unat (node_len ?nd) + n, x + unat (node_len ?nd) := None)"
      using 1 cx sum d by (auto simp: chunks_def fun_eq_iff after_def)
    moreover have "tiles \<dots>" using tiles_join [OF t m(1)] m(2) 1 by (simp add: after_def)
    moreover have "seg ?h f ?fs list_end = seg (heap st) f ?fs list_end" by (rule seg_cong) auto
    moreover have "a \<noteq> x" if "A a = Some l" for a l using that d by auto
    ultimately have "heap_ok (st\<lparr>heap := ?h\<rparr>) ?fs (A(cp := None))" using d f len by (auto simp: heap_ok_def split: if_splits)
    with walk show ?thesis by blast
  next
    case 2
    then have xn: "x = cp + n" using m(3) by (simp add: after_def)
    with Cons.prems(5,6) have xs: "xs = []" "prev = None" by (auto split: if_splits)
    let ?h = "(heap st)(cp := ?cd\<lparr>node_len := node_len ?cd + node_len ?nd, next_node := next_node ?nd\<rparr>)"
    have walk: "free_walk k cp prev p st = Some (st\<lparr>heap := ?h, freelist := Some cp\<rparr>)"
      using 2 k x xs bound by (simp add: heap_at_def set_node_def Let_def)
    have sum: "unat (node_len ?cd + node_len ?nd) = n + unat (node_len ?nd)"
      using unat_len_add [of "node_len ?cd" "node_len ?nd"] bound xn m(3) by simp
    have "chunks ?h (cp # rest) (A(cp := None)) = (chunks (heap st) ?fs A)(cp \<mapsto> n + unat (node_len ?nd), cp + n := None)"
      using cx sum d xs xn by (auto simp: chunks_def fun_eq_iff)
    moreover have "tiles \<dots>" using tiles_join [OF t m(2)] m(1) xn by simp
    moreover have "seg ?h q rest list_end = seg (heap st) q rest list_end" for q by (rule seg_cong) (use cx in auto)
    ultimately have "heap_ok (st\<lparr>heap := ?h, freelist := Some cp\<rparr>) (cp # rest) (A(cp := None))"
      using d x cx xs bound(2) len by (auto simp: heap_ok_def split: if_splits)
    with walk show ?thesis by blast
  next
    case 3
    then have "free_walk k cp prev p st = free_walk k' cp (Some x) (node_from_offset (next_node ?nd)) st"
      using k x bound by (simp add: heap_at_def)
    moreover have "cp + n \<notin> set rest" "heap_ok st ((xs @ [x]) @ rest) A" using Cons.prems(1,6) by (auto split: if_splits)
    ultimately show ?thesis
      using Cons.IH [of "xs @ [x]" "node_from_offset (next_node ?nd)" k' "Some x"] Cons.prems(3,4) x(3) k by simp
  qed
qed

text \<open>The size of a chunk: the header, and enough nodes for the bytes, as long as the sum does not wrap around.\<close>

lemma alloc_size_enough:
  fixes len :: "('w::len) word"
  assumes "3 \<le> LENGTH('w)" "unat len + 3 < 2 ^ LENGTH('w)"
  shows "unat (alloc_size len) = (unat len + 3) div 4 + 1"
proof -
  have four: "(8::nat) \<le> 2 ^ LENGTH('w)" using power_increasing [OF assms(1), of "2::nat"] by simp
  have "len + 4 - 1 = word_of_nat (unat len + 3)" by simp
  moreover have "unat (word_of_nat (unat len + 3) :: 'w word) = unat len + 3"
    using assms(2) by (simp add: unsigned_of_nat take_bit_nat_eq_self del: of_nat_add)
  moreover have "unat (4 :: 'w word) = 4" using four by (simp add: unsigned_numeral take_bit_nat_eq_self)
  ultimately have "unat ((len + 4 - 1) div 4) = (unat len + 3) div 4" by (simp add: unat_div add.commute)
  moreover have "(unat len + 3) div 4 + 1 < 2 ^ LENGTH('w)" using assms(2) four by linarith
  moreover have "unat (1 :: 'w word) = 1" by simp
  ultimately show ?thesis
    unfolding alloc_size_def by (subst unat_add_lem [THEN iffD1]) simp_all
qed

section \<open>An example\<close>

text \<open>Five chunks fill the heap; three of them are freed, the last one between a free chunk and the end.\<close>

definition demo_ops :: "heap_state option" where
  "demo_ops =
     do {
       (a, st) \<leftarrow> fallback_malloc (4 :: 32 word) \<lparr>heap = (\<lambda>_. \<lparr>next_node = 0, node_len = 0\<rparr>), freelist = None\<rparr>;
       (b, st) \<leftarrow> fallback_malloc (4 :: 32 word) st;
       (c, st) \<leftarrow> fallback_malloc (4 :: 32 word) st;
       (d, st) \<leftarrow> fallback_malloc (4 :: 32 word) st;
       (e, st) \<leftarrow> fallback_malloc (476 :: 32 word) st;
       st \<leftarrow> fallback_free (the a) st;
       st \<leftarrow> fallback_free (the d) st;
       fallback_free (the b) st
     }"

section \<open>Properties\<close>

text \<open>C8: On a well-formed heap \<open>fallback_malloc\<close> returns. A pointer it returns is behind the first node of a new
  chunk, which was free and has room for the bytes that were asked for; every node of the heap is in exactly one chunk, so that
  chunks never overlap. It returns \<open>NULL\<close> only when every free chunk is too small, and then nothing changes.\<close>

theorem fallback_malloc_correct:
  fixes len :: "('w::len) word"
  assumes "heap_inv st A" "3 \<le> LENGTH('w)" "unat len + 3 < 2 ^ LENGTH('w)"
  shows "(\<exists>a n st'. fallback_malloc len st = Some (Some (a + 1), st') \<and> A a = None \<and> unat len \<le> 4 * (n - 1) \<and> heap_inv st' (A(a \<mapsto> n))) \<or>
     (\<exists>fs st'. fallback_malloc len st = Some (None, st') \<and> heap_ok st' fs A \<and>
        (\<forall>x \<in> set fs. unat (node_len (heap st' x)) < unat (alloc_size len)))"
proof -
  let ?st = "if freelist st = None then init_heap st else st"
  let ?n = "unat (alloc_size len)"
  have n: "?n = (unat len + 3) div 4 + 1" by (rule alloc_size_enough [OF assms(2,3)])
  have "\<exists>fs. heap_ok ?st fs A"
  proof (cases "freelist st = None")
    case True
    with assms(1) have "A = Map.empty" by (auto simp: heap_inv_def heap_ok_def)
    with True init_heap_ok [of st] show ?thesis by (intro exI [of _ "[0]"]) simp
  next
    case False
    with assms(1) show ?thesis by (auto simp: heap_inv_def)
  qed
  then obtain fs where ok: "heap_ok ?st fs A" by blast
  then obtain f where f: "freelist ?st = Some f" "seg (heap ?st) f fs list_end" "distinct fs" by (auto simp: heap_ok_def)
  have "length fs \<le> list_end" by (rule chunks_length [OF f(3)]) (use seg_bound [OF f(2)] in auto)
  then have len: "length fs < 129" by (simp add: list_end_def)
  have walk: "fallback_malloc len st = malloc_walk 129 ?n None f ?st" using f(1) by (simp add: fallback_malloc_def Let_def)
  have "heap_ok ?st ([] @ fs) A" using ok by simp
  from malloc_walk_ok [OF this f(2) _ len, of ?n None] n
  have "(\<forall>x \<in> set fs. unat (node_len (heap ?st x)) < ?n) \<and> fallback_malloc len st = Some (None, ?st) \<or>
      (\<exists>q st' fs'. fallback_malloc len st = Some (Some (q + 1), st') \<and> heap_ok st' fs' (A(q \<mapsto> ?n)) \<and> q \<notin> dom A)"
    unfolding walk by simp
  then show ?thesis
  proof (elim disjE conjE exE)
    assume "\<forall>x \<in> set fs. unat (node_len (heap ?st x)) < ?n" "fallback_malloc len st = Some (None, ?st)"
    with ok show ?thesis by blast
  next
    fix q st' fs' assume "fallback_malloc len st = Some (Some (q + 1), st')" "heap_ok st' fs' (A(q \<mapsto> ?n))" "q \<notin> dom A"
    moreover have "unat len \<le> 4 * (?n - 1)" using n by simp
    moreover have "A q = None" using calculation(3) by blast
    ultimately show ?thesis unfolding heap_inv_def by blast
  qed
qed

theorem fallback_malloc_correct_witness:
  "\<exists>a n st'. fallback_malloc (10 :: 32 word) \<lparr>heap = (\<lambda>_. \<lparr>next_node = 0, node_len = 0\<rparr>), freelist = None\<rparr> = Some (Some (a + 1), st') \<and>
     10 \<le> 4 * (n - 1) \<and> heap_inv st' [a \<mapsto> n]"
proof -
  let ?st = "\<lparr>heap = (\<lambda>_. \<lparr>next_node = 0, node_len = 0\<rparr>), freelist = None\<rparr>"
  have "heap_inv ?st Map.empty" by (simp add: heap_inv_def)
  note ok = fallback_malloc_correct [OF this, of "10 :: 32 word"]
  have "map_option fst (fallback_malloc (10 :: 32 word) ?st) = Some (Some 125)" by code_simp
  with ok show ?thesis by auto
qed

text \<open>C29: On a well-formed heap \<open>fallback_free\<close> of an allocated chunk returns and leaves a well-formed heap in which
  the chunk is no longer allocated, unless a free chunk that is not the first one of the list starts right
  behind it.\<close>

theorem fallback_free_correct:
  assumes "heap_ok st fs A" "A cp = Some n" "cp + n \<notin> set (tl fs)"
  shows "\<exists>st'. fallback_free (cp + 1) st = Some st' \<and> heap_inv st' (A(cp := None))"
proof -
  obtain f where f: "freelist st = Some f" "seg (heap st) f fs list_end" "distinct fs" using assms(1) by (auto simp: heap_ok_def)
  have "length fs \<le> list_end" by (rule chunks_length [OF f(3)]) (use seg_bound [OF f(2)] in auto)
  then have len: "length fs < 129" by (simp add: list_end_def)
  have "heap_ok st ([] @ fs) A" using assms(1) by simp
  from free_walk_ok [OF this f(2) len assms(2), of None] assms(3) f(1) show ?thesis
    by (auto simp: fallback_free_def heap_inv_def)
qed

theorem fallback_free_correct_witness:
  "\<exists>st'. fallback_free 1 \<lparr>heap = (\<lambda>_. \<lparr>next_node = 0, node_len = 128\<rparr>), freelist = Some 128\<rparr> = Some st' \<and> heap_inv st' Map.empty"
proof -
  let ?st = "\<lparr>heap = (\<lambda>_. \<lparr>next_node = 0, node_len = 128\<rparr>), freelist = Some 128\<rparr>"
  have "heap_ok ?st [] [0 \<mapsto> 128]"
    by (auto simp: heap_ok_def chunks_def tiles_def inside_def list_end_def split: if_splits)
  from fallback_free_correct [OF this, of 0 128] show ?thesis by simp
qed


end
