(* ===== verification/Cxa_Guard.thy ===== *)
theory Cxa_Guard
  imports Prelude
begin

text \<open>
  One-time initialisation of local static variables in the C++ runtime, \<open>cxa_guard.cpp\<close>, for the platforms
  other than Apple's: a guard is a word of 32 (ARM) or 64 bits whose first byte tells that the variable
  is initialised and whose second byte is a lock. All guards share one mutex and one condition variable.
  A thread that calls \<open>__cxa_guard_acquire\<close> gets 0 when the variable is initialised, or 1, and then
  initialises it and calls \<open>__cxa_guard_release\<close>, or \<open>__cxa_guard_abort\<close> when the initialisation throws.
  A critical section is one step; the broadcast comes after the mutex is released and is a step of its own.
\<close>

section \<open>Guards\<close>

text \<open>\<open>*initialized\<close>, the first byte; the lock is the second one. \<open>set_lock\<close> overwrites the whole word.\<close>

definition initialized :: "('w::len) word \<Rightarrow> bool" where
  "initialized g \<longleftrightarrow> take_bit 8 g \<noteq> 0"

definition set_initialized :: "('w::len) word \<Rightarrow> 'w word" where
  "set_initialized g = or (and g (not (mask 8))) 1"

definition get_lock :: "('w::len) word \<Rightarrow> bool" where
  "get_lock g \<longleftrightarrow> take_bit 8 (drop_bit 8 g) \<noteq> 0"

definition set_lock :: "bool \<Rightarrow> ('w::len) word" where
  "set_lock y = (if y then push_bit 8 1 else 0)"

text \<open>The versions without threads.\<close>

definition guard_acquire_single :: "('w::len) word \<Rightarrow> int" where
  "guard_acquire_single g = (if initialized g then 0 else 1)"

definition guard_release_single :: "('w::len) word \<Rightarrow> 'w word" where
  "guard_release_single g = set_initialized 0"

definition guard_abort_single :: "('w::len) word \<Rightarrow> 'w word" where
  "guard_abort_single g = 0"

section \<open>Threads\<close>

text \<open>Where a thread is: outside, in \<open>pthread_cond_wait\<close> (and whether it was woken), between an \<open>acquire\<close> that
  returned 1 and the matching call, or between the end of a critical section and its broadcast.\<close>

datatype guard_phase = Outside | Waiting bool | Initializing | Broadcasting

text \<open>\<open>guard_runs\<close> counts the initialisations that were completed.\<close>

record 'g guard_state =
  guard :: 'g
  threads :: "nat \<Rightarrow> guard_phase"
  guard_runs :: nat

text \<open>The loop of \<open>__cxa_guard_acquire\<close> and what follows it: \<^term>\<open>None\<close> to wait, or the value returned.\<close>

definition acquire_loop :: "('w::len) word \<Rightarrow> int option \<times> 'w word" where
  "acquire_loop g =
     (if get_lock g then (None, g)
      else if \<not> initialized g then (Some 1, set_lock True)
      else (Some 0, g))"

definition guard_acquire_body :: "('w::len) word \<Rightarrow> int option \<times> 'w word" where
  "guard_acquire_body g = (if \<not> initialized g then acquire_loop g else (Some 0, g))"

definition thread_result :: "nat \<Rightarrow> int option \<times> ('w::len) word \<Rightarrow> 'w word guard_state \<Rightarrow> 'w word guard_state" where
  "thread_result t r s =
     s\<lparr>guard := snd r,
       threads := (threads s)(t := case fst r of None \<Rightarrow> Waiting False | Some v \<Rightarrow> if v = 1 then Initializing else Outside)\<rparr>"

definition guard_acquire :: "nat \<Rightarrow> ('w::len) word guard_state \<Rightarrow> 'w word guard_state" where
  "guard_acquire t s = thread_result t (guard_acquire_body (guard s)) s"

definition guard_woken :: "nat \<Rightarrow> ('w::len) word guard_state \<Rightarrow> 'w word guard_state" where
  "guard_woken t s = thread_result t (acquire_loop (guard s)) s"

definition guard_release :: "nat \<Rightarrow> ('w::len) word guard_state \<Rightarrow> 'w word guard_state" where
  "guard_release t s = s\<lparr>guard := set_initialized 0, threads := (threads s)(t := Broadcasting), guard_runs := Suc (guard_runs s)\<rparr>"

definition guard_abort :: "nat \<Rightarrow> ('w::len) word guard_state \<Rightarrow> 'w word guard_state" where
  "guard_abort t s = s\<lparr>guard := 0, threads := (threads s)(t := Broadcasting)\<rparr>"

definition guard_broadcast :: "nat \<Rightarrow> ('w::len) word guard_state \<Rightarrow> 'w word guard_state" where
  "guard_broadcast t s =
     s\<lparr>threads := (\<lambda>u. if u = t then Outside else case threads s u of Waiting _ \<Rightarrow> Waiting True | ph \<Rightarrow> ph)\<rparr>"

text \<open>A thread that waits may wake up without a broadcast.\<close>

inductive guard_step :: "('w::len) word guard_state \<Rightarrow> 'w word guard_state \<Rightarrow> bool" where
  acquire: "threads s t = Outside \<Longrightarrow> guard_step s (guard_acquire t s)"
| wake: "threads s t = Waiting woken \<Longrightarrow> guard_step s (guard_woken t s)"
| release: "threads s t = Initializing \<Longrightarrow> guard_step s (guard_release t s)"
| abort: "threads s t = Initializing \<Longrightarrow> guard_step s (guard_abort t s)"
| broadcast: "threads s t = Broadcasting \<Longrightarrow> guard_step s (guard_broadcast t s)"

inductive guard_reachable :: "('w::len) word guard_state \<Rightarrow> bool" where
  start: "guard_reachable \<lparr>guard = 0, threads = (\<lambda>_. Outside), guard_runs = 0\<rparr>"
| step: "guard_reachable s \<Longrightarrow> guard_step s s' \<Longrightarrow> guard_reachable s'"

section \<open>The values of a guard\<close>

lemma guard_fresh [simp]: "\<not> initialized (0::('w::len) word)" "\<not> get_lock (0::'w word)"
  by (simp_all add: initialized_def get_lock_def)

lemma guard_done:
  assumes "16 \<le> LENGTH('w::len)"
  shows "initialized (set_initialized (0::'w word))" "\<not> get_lock (set_initialized (0::'w word))"
    "get_lock (set_lock True :: 'w word)" "\<not> initialized (set_lock True :: 'w word)"
proof -
  have "bit (1::'w word) 0" by simp
  then show "initialized (set_initialized (0::'w word))"
    by (auto simp: initialized_def set_initialized_def bit_eq_iff bit_simps intro!: exI [of _ 0])
  show "\<not> get_lock (set_initialized (0::'w word))"
  proof -
    have "set_initialized (0::'w word) = 1" by (simp add: set_initialized_def)
    moreover have "drop_bit 8 (1::'w word) = 0" by (rule bit_word_eqI) (simp add: bit_simps)
    ultimately show ?thesis by (simp add: get_lock_def)
  qed
  show "get_lock (set_lock True :: 'w word)"
    using assms by (auto simp: get_lock_def set_lock_def bit_eq_iff bit_simps intro!: exI [of _ 0])
  show "\<not> initialized (set_lock True :: 'w word)"
    by (simp add: initialized_def set_lock_def bit_eq_iff bit_simps)
qed

section \<open>Invariant\<close>

text \<open>The lock is set exactly while one thread initialises; the variable is initialised exactly when one
  initialisation was completed; and a thread that has not been woken waits for the initialising thread or
  for a broadcast that is still to come.\<close>

definition guard_inv :: "('w::len) word guard_state \<Rightarrow> bool" where
  "guard_inv s \<longleftrightarrow>
     guard s = (if \<exists>t. threads s t = Initializing then set_lock True else if guard_runs s = 0 then 0 else set_initialized 0) \<and>
     (\<forall>t u. threads s t = Initializing \<and> threads s u = Initializing \<longrightarrow> t = u) \<and>
     guard_runs s \<le> 1 \<and> (guard_runs s = 1 \<longrightarrow> (\<forall>t. threads s t \<noteq> Initializing)) \<and>
     (\<forall>t. threads s t = Waiting False \<longrightarrow> (\<exists>u. threads s u = Initializing \<or> threads s u = Broadcasting))"

lemma guard_invD:
  assumes "guard_inv s"
  shows "threads s t = Initializing \<Longrightarrow> guard s = set_lock True" "threads s t = Initializing \<Longrightarrow> threads s u = Initializing \<Longrightarrow> t = u"
    "threads s t = Initializing \<Longrightarrow> guard_runs s = 0"
    "\<forall>t. threads s t \<noteq> Initializing \<Longrightarrow> guard s = (if guard_runs s = 0 then 0 else set_initialized 0)" "guard_runs s \<le> 1"
    "threads s t = Waiting False \<Longrightarrow> \<exists>u. threads s u = Initializing \<or> threads s u = Broadcasting"
proof -
  show "guard s = set_lock True" if "threads s t = Initializing" using assms that unfolding guard_inv_def by metis
  show "t = u" if "threads s t = Initializing" "threads s u = Initializing" using assms that unfolding guard_inv_def by metis
  show "guard_runs s \<le> 1" using assms unfolding guard_inv_def by metis
  moreover have "guard_runs s \<noteq> 1" if "threads s t = Initializing" using assms that unfolding guard_inv_def by metis
  ultimately show "guard_runs s = 0" if "threads s t = Initializing" using that by linarith
  show "guard s = (if guard_runs s = 0 then 0 else set_initialized 0)" if "\<forall>t. threads s t \<noteq> Initializing"
    using assms that unfolding guard_inv_def by metis
  show "\<exists>u. threads s u = Initializing \<or> threads s u = Broadcasting" if "threads s t = Waiting False"
    using assms that unfolding guard_inv_def by metis
qed

lemma acquire_inv:
  fixes s :: "('w::len) word guard_state"
  assumes len: "16 \<le> LENGTH('w)" and inv: "guard_inv s" and t: "threads s t \<noteq> Initializing" "threads s t \<noteq> Broadcasting"
    and r: "r = acquire_loop (guard s) \<or> r = guard_acquire_body (guard s)"
  shows "guard_inv (thread_result t r s)"
proof -
  note vals = guard_done [OF len]
  note invD = guard_invD [OF inv]
  show ?thesis
  proof (cases "\<exists>u. threads s u = Initializing")
    case True
    then obtain u where u: "threads s u = Initializing" by blast
    have r': "r = (None, set_lock True)" using r vals invD(1) [OF u] by (auto simp: acquire_loop_def guard_acquire_body_def)
    have init: "threads (thread_result t r s) x = Initializing \<longleftrightarrow> x = u" for x
      using t u invD(2) [OF u, of x] by (auto simp: r' thread_result_def)
    show ?thesis unfolding guard_inv_def init using invD(3) [OF u] by (simp add: r' thread_result_def) (metis t(1) u)
  next
    case False
    then have none: "\<forall>u. threads s u \<noteq> Initializing" by blast
    show ?thesis
    proof (cases "guard_runs s = 0")
      case True
      have r': "r = (Some 1, set_lock True)" using r True invD(4) [OF none] by (auto simp: acquire_loop_def guard_acquire_body_def)
      have init: "threads (thread_result t r s) x = Initializing \<longleftrightarrow> x = t" for x using none by (simp add: r' thread_result_def)
      show ?thesis unfolding guard_inv_def init using True by (simp add: r' thread_result_def) (metis)
    next
      case False
      then have one: "guard_runs s = 1" using invD(5) by simp
      have r': "r = (Some 0, set_initialized 0)" using r False vals invD(4) [OF none] by (auto simp: acquire_loop_def guard_acquire_body_def)
      have init: "threads (thread_result t r s) x = Initializing \<longleftrightarrow> False" for x using none by (simp add: r' thread_result_def)
      have "\<exists>u. threads (thread_result t r s) u = Broadcasting" if w: "threads (thread_result t r s) x = Waiting False" for x
      proof -
        have "threads s x = Waiting False" using w by (simp add: r' thread_result_def split: if_splits)
        with invD(6) none obtain u where u: "threads s u = Broadcasting" by blast
        with t(2) have "u \<noteq> t" by blast
        with u show ?thesis by (intro exI [of _ u]) (simp add: r' thread_result_def)
      qed
      then show ?thesis unfolding guard_inv_def init using one by (simp add: r' thread_result_def)
    qed
  qed
qed

lemma finish_inv:
  fixes s :: "('w::len) word guard_state"
  assumes "guard_inv s" "threads s t = Initializing" "s' = guard_release t s \<or> s' = guard_abort t s"
  shows "guard_inv s'"
proof -
  have runs: "guard_runs s = 0" by (rule guard_invD(3) [OF assms(1,2)])
  have init: "threads s' u = Initializing \<longleftrightarrow> False" for u
    using assms(3) guard_invD(2) [OF assms(1,2), of u] by (auto simp: guard_release_def guard_abort_def split: if_splits)
  have "threads s' t = Broadcasting" using assms(3) by (auto simp: guard_release_def guard_abort_def)
  then have some: "\<exists>u. threads s' u = Broadcasting" by blast
  have "guard s' = (if guard_runs s' = 0 then 0 else set_initialized 0)" "guard_runs s' \<le> 1"
    using assms(3) runs by (auto simp: guard_release_def guard_abort_def)
  with some show ?thesis unfolding guard_inv_def init by simp
qed

lemma broadcast_inv:
  fixes s :: "('w::len) word guard_state"
  assumes "guard_inv s" "threads s t = Broadcasting"
  shows "guard_inv (guard_broadcast t s)"
proof -
  have init: "threads (guard_broadcast t s) u = Initializing \<longleftrightarrow> threads s u = Initializing" for u
    using assms(2) by (cases "u = t"; cases "threads s u") (simp_all add: guard_broadcast_def)
  have waits: "threads (guard_broadcast t s) u = Waiting False \<longleftrightarrow> False" for u
    by (cases "u = t"; cases "threads s u") (simp_all add: guard_broadcast_def)
  have same: "guard (guard_broadcast t s) = guard s" "guard_runs (guard_broadcast t s) = guard_runs s"
    by (simp_all add: guard_broadcast_def)
  show ?thesis using assms(1) unfolding guard_inv_def init waits same by (elim conjE) (intro conjI, assumption+, simp (no_asm))
qed

lemma guard_step_inv:
  fixes s :: "('w::len) word guard_state"
  assumes "16 \<le> LENGTH('w)"
  shows "guard_step s s' \<Longrightarrow> guard_inv s \<Longrightarrow> guard_inv s'"
proof (induction rule: guard_step.induct)
  case (acquire s t)
  then show ?case unfolding guard_acquire_def by (rule_tac acquire_inv [OF assms]) simp_all
next
  case (wake s t woken)
  then show ?case unfolding guard_woken_def by (rule_tac acquire_inv [OF assms]) simp_all
next
  case (release s t)
  show ?case by (rule finish_inv [OF release(2,1)]) simp
next
  case (abort s t)
  show ?case by (rule finish_inv [OF abort(2,1)]) simp
next
  case (broadcast s t)
  then show ?case by (rule_tac broadcast_inv)
qed

lemma reachable_guard_inv:
  fixes s :: "('w::len) word guard_state"
  assumes "16 \<le> LENGTH('w)" "guard_reachable s"
  shows "guard_inv s"
  using assms(2)
proof (induction rule: guard_reachable.induct)
  case start
  show ?case by (simp add: guard_inv_def)
next
  case step
  then show ?case by (rule_tac guard_step_inv [OF assms(1)])
qed

section \<open>Properties\<close>

text \<open>C9: In every interleaving of any number of threads, at most one thread initialises the variable at a time,
  at most one initialisation is completed, and none is started afterwards; an acquire returns 0 only for an
  initialised variable; and no wake-up is lost: a thread that is not woken waits for a thread that
  initialises or for a broadcast still to come.\<close>

theorem guard_initialises_once:
  fixes s :: "('w::len) word guard_state"
  assumes "guard_reachable s" "16 \<le> LENGTH('w)"
  shows "(\<forall>t u. threads s t = Initializing \<and> threads s u = Initializing \<longrightarrow> t = u) \<and> guard_runs s \<le> 1 \<and>
     (guard_runs s = 1 \<longrightarrow> initialized (guard s) \<and> (\<forall>t. threads s t \<noteq> Initializing)) \<and>
     (fst (guard_acquire_body (guard s)) = Some 0 \<or> fst (acquire_loop (guard s)) = Some 0 \<longrightarrow> guard_runs s = 1) \<and>
     (\<forall>t. threads s t = Waiting False \<longrightarrow> (\<exists>u. threads s u = Initializing \<or> threads s u = Broadcasting))"
proof -
  note invD = guard_invD [OF reachable_guard_inv [OF assms(2,1)]]
  show ?thesis
  proof (intro conjI impI)
    show "\<forall>t u. threads s t = Initializing \<and> threads s u = Initializing \<longrightarrow> t = u" by (metis invD(2))
    show "guard_runs s \<le> 1" by (rule invD(5))
    show none: "\<forall>t. threads s t \<noteq> Initializing" if "guard_runs s = 1" using that by (metis invD(3) zero_neq_one)
    show "initialized (guard s)" if "guard_runs s = 1" using invD(4) [OF none [OF that]] guard_done(1) [OF assms(2)] that by simp
    show "\<forall>t. threads s t = Waiting False \<longrightarrow> (\<exists>u. threads s u = Initializing \<or> threads s u = Broadcasting)" by (metis invD(6))
    assume "fst (guard_acquire_body (guard s)) = Some 0 \<or> fst (acquire_loop (guard s)) = Some 0"
    then have init: "initialized (guard s)"
      by (auto simp: guard_acquire_body_def acquire_loop_def split: if_splits)
    have "\<forall>t. threads s t \<noteq> Initializing"
    proof (intro allI notI)
      fix t assume "threads s t = Initializing"
      from invD(1) [OF this] init guard_done(4) [OF assms(2)] show False by simp
    qed
    then have "guard s = (if guard_runs s = 0 then 0 else set_initialized 0)" by (rule invD(4))
    with init have "guard_runs s \<noteq> 0" by (cases "guard_runs s = 0") simp_all
    with invD(5) show "guard_runs s = 1" by linarith
  qed
qed

theorem guard_initialises_once_witness:
  "\<exists>s :: 64 word guard_state. guard_reachable s \<and> threads s 7 = Initializing \<and> guard_runs s \<le> 1"
proof -
  let ?s = "guard_acquire 7 \<lparr>guard = 0 :: 64 word, threads = (\<lambda>_. Outside), guard_runs = 0\<rparr>"
  have r: "guard_reachable ?s" by (rule guard_reachable.step [OF guard_reachable.start guard_step.acquire]) simp
  moreover have "threads ?s 7 = Initializing" by (simp add: guard_acquire_def thread_result_def guard_acquire_body_def acquire_loop_def)
  moreover have "guard_runs ?s \<le> 1" by (rule guard_initialises_once [OF r, THEN conjunct2, THEN conjunct1]) simp
  ultimately show ?thesis by (intro exI [of _ ?s] conjI)
qed

text \<open>C31: When no thread initialises and no broadcast is outstanding, every waiting thread has been woken, and its loop ends:
  it returns 0 or becomes the thread that initialises.\<close>

theorem guard_waiters_return:
  fixes s :: "('w::len) word guard_state"
  assumes "guard_reachable s" "16 \<le> LENGTH('w)" "threads s t = Waiting woken" "\<forall>u. threads s u \<noteq> Initializing \<and> threads s u \<noteq> Broadcasting"
  shows "woken \<and> threads (guard_woken t s) t \<in> {Outside, Initializing}"
proof -
  note invD = guard_invD [OF reachable_guard_inv [OF assms(2,1)]]
  have "woken" using invD(6) [of t] assms(3,4) by (cases woken) auto
  moreover have "\<not> get_lock (guard s)" using invD(4) assms(4) guard_done(2) [OF assms(2)] by simp
  ultimately show ?thesis by (simp add: guard_woken_def thread_result_def acquire_loop_def)
qed

theorem guard_waiters_return_witness:
  "\<exists>s :: 64 word guard_state. threads s 8 = Waiting True \<and> threads (guard_woken 8 s) 8 \<in> {Outside, Initializing}"
proof -
  let ?s0 = "\<lparr>guard = 0 :: 64 word, threads = (\<lambda>_. Outside), guard_runs = 0\<rparr>"
  let ?s1 = "guard_acquire 7 ?s0"
  let ?s2 = "guard_acquire 8 ?s1"
  let ?s3 = "guard_release 7 ?s2"
  let ?s4 = "guard_broadcast 7 ?s3"
  have t1: "threads ?s1 = (\<lambda>_. Outside)(7 := Initializing)" "guard ?s1 = set_lock True"
    by (simp_all add: guard_acquire_def thread_result_def guard_acquire_body_def acquire_loop_def)
  have t2: "threads ?s2 = (\<lambda>_. Outside)(7 := Initializing, 8 := Waiting False)"
    using t1 guard_done(3,4) [where ?'w = 64] by (simp add: guard_acquire_def [of 8] thread_result_def guard_acquire_body_def acquire_loop_def)
  have t3: "threads ?s3 = (\<lambda>_. Outside)(7 := Broadcasting, 8 := Waiting False)" by (auto simp: guard_release_def t2)
  have t4: "threads ?s4 = (\<lambda>_. Outside)(8 := Waiting True)" by (auto simp: guard_broadcast_def t3)
  have "guard_reachable ?s1" by (rule guard_reachable.step [OF guard_reachable.start guard_step.acquire]) simp
  then have "guard_reachable ?s2" by (rule guard_reachable.step [OF _ guard_step.acquire]) (simp add: t1)
  then have "guard_reachable ?s3" by (rule guard_reachable.step [OF _ guard_step.release]) (simp add: t2)
  then have "guard_reachable ?s4" by (rule guard_reachable.step [OF _ guard_step.broadcast]) (simp add: t3)
  then have "True \<and> threads (guard_woken 8 ?s4) 8 \<in> {Outside, Initializing}"
    by (rule guard_waiters_return) (simp_all add: t4)
  moreover have "threads ?s4 8 = Waiting True" by (simp add: t4)
  ultimately show ?thesis by (intro exI [of _ ?s4] conjI) (simp_all only: simp_thms)
qed

end
