(* ===== verification/Cxa_Vector.thy ===== *)
theory Cxa_Vector
  imports Prelude
begin

text \<open>
  Construction and destruction of arrays in the C++ runtime, \<open>cxa_vector.cpp\<close>. The constructor, the
  destructor and the allocation functions of the caller are parameters: they may throw. The state is the
  trace of the calls made so far and the memory of the cookies, the words in front of an array with the
  number of its elements. An exception, and a call of \<open>std::terminate\<close>, are values of the outcome.
\<close>

section \<open>Outcomes and calls\<close>

datatype ('e, 'r) outcome = Returns 'r | Throws 'e | Terminates

datatype 'addr vec_call = Alloc 'addr | Dealloc 'addr | DeallocSized 'addr 'addr | Ctor 'addr | CopyCtor 'addr 'addr | Dtor 'addr

record 'addr vec_state =
  vs_calls :: "'addr vec_call list"
  vs_cookie :: "'addr \<Rightarrow> 'addr"

text \<open>A function of the caller that is given the address of an element: it may throw, depending on the calls
  made before.\<close>

type_synonym ('addr, 'e) element_fun = "'addr vec_call list \<Rightarrow> 'addr \<Rightarrow> 'e option"

definition log :: "'addr vec_call \<Rightarrow> 'addr vec_state \<Rightarrow> 'addr vec_state" where
  "log c s = s\<lparr>vs_calls := vs_calls s @ [c]\<rparr>"

text \<open>The cookie is the word in front of the array.\<close>

definition get_element_count :: "('w::len) word \<Rightarrow> 'w word vec_state \<Rightarrow> 'w word" where
  "get_element_count p s = vs_cookie s (p - of_nat (LENGTH('w) div 8))"

definition set_element_count :: "('w::len) word \<Rightarrow> 'w word \<Rightarrow> 'w word vec_state \<Rightarrow> 'w word vec_state" where
  "set_element_count p n s = s\<lparr>vs_cookie := (vs_cookie s)(p - of_nat (LENGTH('w) div 8) := n)\<rparr>"

section \<open>Loops over elements\<close>

text \<open>Destructor calls for the elements \<open>idx - 1\<close> down to 0, until one throws; the index of that element is in
  the result.\<close>

fun destroy_loop ::
  "(('w::len) word, 'e) element_fun \<Rightarrow> 'w word \<Rightarrow> 'w word \<Rightarrow> nat \<Rightarrow> 'w word vec_state \<Rightarrow> (nat \<times> 'e) option \<times> 'w word vec_state" where
  "destroy_loop dtor base element_size 0 s = (None, s)"
| "destroy_loop dtor base element_size (Suc idx) s =
     (let p = base + of_nat idx * element_size in
      case dtor (vs_calls s) p of
        Some e \<Rightarrow> (Some (idx, e), log (Dtor p) s)
      | None \<Rightarrow> destroy_loop dtor base element_size idx (log (Dtor p) s))"

definition cxa_vec_cleanup ::
  "('w::len) word \<Rightarrow> nat \<Rightarrow> 'w word \<Rightarrow> ('w word, 'e) element_fun option \<Rightarrow> 'w word vec_state \<Rightarrow> ('e, unit) outcome \<times> 'w word vec_state" where
  "cxa_vec_cleanup array_address element_count element_size destructor s =
     (case destructor of
        None \<Rightarrow> (Returns (), s)
      | Some dtor \<Rightarrow>
          (case destroy_loop dtor array_address element_size element_count s of
             (Some _, s) \<Rightarrow> (Terminates, s)
           | (None, s) \<Rightarrow> (Returns (), s)))"

text \<open>The end of a scope that is left by an exception: a cleanup that terminates takes precedence.\<close>

definition rethrow :: "'e \<Rightarrow> ('e, 'a) outcome \<times> 's \<Rightarrow> ('e, 'b) outcome \<times> 's" where
  "rethrow e r = (case r of (Terminates, s) \<Rightarrow> (Terminates, s) | (_, s) \<Rightarrow> (Throws e, s))"

text \<open>Constructor calls for the elements from \<open>idx\<close> on, \<open>left\<close> of them.\<close>

fun construct_loop ::
  "('w word vec_call list \<Rightarrow> nat \<Rightarrow> 'e option) \<Rightarrow> (nat \<Rightarrow> ('w::len) word vec_call) \<Rightarrow> nat \<Rightarrow> nat \<Rightarrow> 'w word vec_state \<Rightarrow>
     (nat \<times> 'e) option \<times> 'w word vec_state" where
  "construct_loop ctor call idx 0 s = (None, s)"
| "construct_loop ctor call idx (Suc left) s =
     (case ctor (vs_calls s) idx of
        Some e \<Rightarrow> (Some (idx, e), log (call idx) s)
      | None \<Rightarrow> construct_loop ctor call (Suc idx) left (log (call idx) s))"

definition cxa_vec_ctor ::
  "('w::len) word \<Rightarrow> 'w word \<Rightarrow> 'w word \<Rightarrow> ('w word, 'e) element_fun option \<Rightarrow> ('w word, 'e) element_fun option \<Rightarrow>
     'w word vec_state \<Rightarrow> ('e, unit) outcome \<times> 'w word vec_state" where
  "cxa_vec_ctor array_address element_count element_size constructor destructor s =
     (case constructor of
        None \<Rightarrow> (Returns (), s)
      | Some ctor \<Rightarrow>
          (let element = (\<lambda>i. array_address + of_nat i * element_size) in
           case construct_loop (\<lambda>calls i. ctor calls (element i)) (\<lambda>i. Ctor (element i)) 0 (unat element_count) s of
             (None, s) \<Rightarrow> (Returns (), s)
           | (Some (idx, e), s) \<Rightarrow> rethrow e (cxa_vec_cleanup array_address idx element_size destructor s)))"

definition cxa_vec_cctor ::
  "('w::len) word \<Rightarrow> 'w word \<Rightarrow> 'w word \<Rightarrow> 'w word \<Rightarrow> ('w word vec_call list \<Rightarrow> 'w word \<Rightarrow> 'w word \<Rightarrow> 'e option) option \<Rightarrow>
     ('w word, 'e) element_fun option \<Rightarrow> 'w word vec_state \<Rightarrow> ('e, unit) outcome \<times> 'w word vec_state" where
  "cxa_vec_cctor dest_array src_array element_count element_size constructor destructor s =
     (case constructor of
        None \<Rightarrow> (Returns (), s)
      | Some ctor \<Rightarrow>
          (let dest = (\<lambda>i. dest_array + of_nat i * element_size); src = (\<lambda>i. src_array + of_nat i * element_size) in
           case construct_loop (\<lambda>calls i. ctor calls (dest i) (src i)) (\<lambda>i. CopyCtor (dest i) (src i)) 0 (unat element_count) s of
             (None, s) \<Rightarrow> (Returns (), s)
           | (Some (idx, e), s) \<Rightarrow> rethrow e (cxa_vec_cleanup dest_array idx element_size destructor s)))"

text \<open>\<open>uncaught\<close> is \<open>__cxa_uncaught_exception()\<close>: an exception of a destructor then terminates the program. Otherwise
  the remaining elements are destroyed and the exception goes on.\<close>

definition cxa_vec_dtor ::
  "bool \<Rightarrow> ('w::len) word \<Rightarrow> 'w word \<Rightarrow> 'w word \<Rightarrow> ('w word, 'e) element_fun option \<Rightarrow> 'w word vec_state \<Rightarrow>
     ('e, unit) outcome \<times> 'w word vec_state" where
  "cxa_vec_dtor uncaught array_address element_count element_size destructor s =
     (case destructor of
        None \<Rightarrow> (Returns (), s)
      | Some dtor \<Rightarrow>
          (case destroy_loop dtor array_address element_size (unat element_count) s of
             (None, s) \<Rightarrow> (Returns (), s)
           | (Some (idx, e), s) \<Rightarrow>
               if uncaught then (Terminates, s)
               else rethrow e (cxa_vec_cleanup array_address idx element_size destructor s)))"

section \<open>Arrays on the heap\<close>

text \<open>\<open>alloc\<close> gives a block, \<open>NULL\<close> (0), or throws; \<open>dealloc\<close> is the call that frees a block of a size.\<close>

definition vec_new ::
  "('w word \<Rightarrow> 'w word \<Rightarrow> 'w word vec_call) \<Rightarrow> ('w::len) word \<Rightarrow> 'w word \<Rightarrow> 'w word \<Rightarrow> ('w word, 'e) element_fun option \<Rightarrow>
     ('w word, 'e) element_fun option \<Rightarrow> ('w word \<Rightarrow> 'e + 'w word) \<Rightarrow> 'w word vec_state \<Rightarrow> ('e, 'w word) outcome \<times> 'w word vec_state" where
  "vec_new dealloc element_count element_size padding_size constructor destructor alloc s =
     (let heap_size = element_count * element_size + padding_size;
          s = log (Alloc heap_size) s
      in case alloc heap_size of
           Inl e \<Rightarrow> (Throws e, s)
         | Inr heap_block \<Rightarrow>
             if heap_block = 0 then (Returns 0, s)
             else
               let vec_base = (if padding_size \<noteq> 0 then heap_block + padding_size else heap_block);
                   s = (if padding_size \<noteq> 0 then set_element_count vec_base element_count s else s)
               in case cxa_vec_ctor vec_base element_count element_size constructor destructor s of
                    (Returns _, s) \<Rightarrow> (Returns vec_base, s)
                  | (Throws e, s) \<Rightarrow> (Throws e, log (dealloc heap_block heap_size) s)
                  | (Terminates, s) \<Rightarrow> (Terminates, s))"

definition cxa_vec_new2 ::
  "('w::len) word \<Rightarrow> 'w word \<Rightarrow> 'w word \<Rightarrow> ('w word, 'e) element_fun option \<Rightarrow>
     ('w word, 'e) element_fun option \<Rightarrow> ('w word \<Rightarrow> 'e + 'w word) \<Rightarrow> 'w word vec_state \<Rightarrow> ('e, 'w word) outcome \<times> 'w word vec_state" where
  "cxa_vec_new2 = vec_new (\<lambda>p _. Dealloc p)"

definition cxa_vec_new3 ::
  "('w::len) word \<Rightarrow> 'w word \<Rightarrow> 'w word \<Rightarrow> ('w word, 'e) element_fun option \<Rightarrow>
     ('w word, 'e) element_fun option \<Rightarrow> ('w word \<Rightarrow> 'e + 'w word) \<Rightarrow> 'w word vec_state \<Rightarrow> ('e, 'w word) outcome \<times> 'w word vec_state" where
  "cxa_vec_new3 = vec_new DeallocSized"

text \<open>With the allocation functions of the language.\<close>

definition cxa_vec_new ::
  "('w word \<Rightarrow> 'e + 'w word) \<Rightarrow> ('w::len) word \<Rightarrow> 'w word \<Rightarrow> 'w word \<Rightarrow> ('w word, 'e) element_fun option \<Rightarrow>
     ('w word, 'e) element_fun option \<Rightarrow> 'w word vec_state \<Rightarrow> ('e, 'w word) outcome \<times> 'w word vec_state" where
  "cxa_vec_new operator_new element_count element_size padding_size constructor destructor =
     cxa_vec_new2 element_count element_size padding_size constructor destructor operator_new"

text \<open>The block is freed when the destructors have run, and when one of them throws, but not when the program
  is terminated.\<close>

definition free_block :: "'w word vec_call \<Rightarrow> ('e, unit) outcome \<times> ('w::len) word vec_state \<Rightarrow> ('e, unit) outcome \<times> 'w word vec_state" where
  "free_block call r = (case r of (Terminates, s) \<Rightarrow> (Terminates, s) | (out, s) \<Rightarrow> (out, log call s))"

definition cxa_vec_delete2 ::
  "bool \<Rightarrow> ('w::len) word \<Rightarrow> 'w word \<Rightarrow> 'w word \<Rightarrow> ('w word, 'e) element_fun option \<Rightarrow> 'w word vec_state \<Rightarrow>
     ('e, unit) outcome \<times> 'w word vec_state" where
  "cxa_vec_delete2 uncaught array_address element_size padding_size destructor s =
     (if array_address \<noteq> 0 then
        free_block (Dealloc (array_address - padding_size))
          (if padding_size \<noteq> 0 \<and> destructor \<noteq> None
           then cxa_vec_dtor uncaught array_address (get_element_count array_address s) element_size destructor s
           else (Returns (), s))
      else (Returns (), s))"

definition cxa_vec_delete ::
  "bool \<Rightarrow> ('w::len) word \<Rightarrow> 'w word \<Rightarrow> 'w word \<Rightarrow> ('w word, 'e) element_fun option \<Rightarrow> 'w word vec_state \<Rightarrow>
     ('e, unit) outcome \<times> 'w word vec_state" where
  "cxa_vec_delete = cxa_vec_delete2"

definition cxa_vec_delete3 ::
  "bool \<Rightarrow> ('w::len) word \<Rightarrow> 'w word \<Rightarrow> 'w word \<Rightarrow> ('w word, 'e) element_fun option \<Rightarrow> 'w word vec_state \<Rightarrow>
     ('e, unit) outcome \<times> 'w word vec_state" where
  "cxa_vec_delete3 uncaught array_address element_size padding_size destructor s =
     (if array_address \<noteq> 0 then
        (let element_count = (if padding_size \<noteq> 0 then get_element_count array_address s else 0);
             heap_block_size = element_size * element_count + padding_size
         in free_block (DeallocSized (array_address - padding_size) heap_block_size)
              (if padding_size \<noteq> 0 \<and> destructor \<noteq> None
               then cxa_vec_dtor uncaught array_address element_count element_size destructor s
               else (Returns (), s)))
      else (Returns (), s))"

section \<open>The calls of the loops\<close>

lemma log_simps [simp]: "vs_calls (log c s) = vs_calls s @ [c]" "vs_cookie (log c s) = vs_cookie s"
  by (simp_all add: log_def)

lemma construct_loop_calls:
  assumes "construct_loop ctor call idx left s = (r, s')"
  shows "vs_cookie s' = vs_cookie s \<and>
     (case r of
        None \<Rightarrow> vs_calls s' = vs_calls s @ map call [idx..<idx + left]
      | Some (i, e) \<Rightarrow> idx \<le> i \<and> i < idx + left \<and> vs_calls s' = vs_calls s @ map call [idx..<Suc i] \<and>
          ctor (vs_calls s @ map call [idx..<i]) i = Some e)"
  using assms
proof (induction left arbitrary: idx s)
  case (Suc left)
  show ?case
  proof (cases "ctor (vs_calls s) idx")
    case None
    with Suc.prems have "construct_loop ctor call (Suc idx) left (log (call idx) s) = (r, s')" by simp
    note ih = Suc.IH [OF this]
    have up: "[idx..<j] = idx # [Suc idx..<j]" if "idx < j" for j using that by (rule upt_conv_Cons)
    show ?thesis
      using ih up [of "idx + Suc left"] by (cases r) (auto simp: up split: prod.splits)
  next
    case (Some e)
    with Suc.prems show ?thesis by auto
  qed
qed simp

definition dtors :: "('w::len) word \<Rightarrow> 'w word \<Rightarrow> nat \<Rightarrow> 'w word vec_call list" where
  "dtors base element_size n = map (\<lambda>i. Dtor (base + of_nat i * element_size)) (rev [0..<n])"

definition ctors :: "('w::len) word \<Rightarrow> 'w word \<Rightarrow> nat \<Rightarrow> 'w word vec_call list" where
  "ctors base element_size n = map (\<lambda>i. Ctor (base + of_nat i * element_size)) [0..<n]"

lemma destroy_loop_calls:
  assumes "destroy_loop dtor base element_size n s = (r, s')"
  shows "vs_cookie s' = vs_cookie s \<and>
     (case r of
        None \<Rightarrow> vs_calls s' = vs_calls s @ dtors base element_size n
      | Some (i, e) \<Rightarrow> i < n \<and> vs_calls s @ dtors base element_size n = vs_calls s' @ dtors base element_size i \<and>
          (\<exists>calls. dtor calls (base + of_nat i * element_size) = Some e))"
  using assms
proof (induction n arbitrary: s)
  case (Suc n)
  let ?p = "base + of_nat n * element_size"
  have step: "dtors base element_size (Suc n) = Dtor ?p # dtors base element_size n" by (simp add: dtors_def)
  show ?case
  proof (cases "dtor (vs_calls s) ?p")
    case None
    with Suc.prems have "destroy_loop dtor base element_size n (log (Dtor ?p) s) = (r, s')" by (simp add: Let_def)
    from Suc.IH [OF this] step show ?thesis by (cases r) (auto split: prod.splits)
  next
    case (Some e)
    with Suc.prems step show ?thesis by (auto simp: Let_def)
  qed
qed (simp add: dtors_def)

definition no_throw :: "('addr, 'e) element_fun \<Rightarrow> bool" where
  "no_throw f \<longleftrightarrow> (\<forall>calls p. f calls p = None)"

lemma cleanup_calls:
  assumes "cxa_vec_cleanup base n element_size (Some dtor) s = (out, s')"
  shows "out = Returns () \<and> vs_calls s' = vs_calls s @ dtors base element_size n \<and> vs_cookie s' = vs_cookie s \<or>
     out = Terminates \<and> \<not> no_throw dtor"
proof -
  obtain r s1 where loop: "destroy_loop dtor base element_size n s = (r, s1)" by fastforce
  note calls = destroy_loop_calls [OF this]
  show ?thesis
    using assms loop calls by (cases r) (fastforce simp: cxa_vec_cleanup_def no_throw_def)+
qed

text \<open>An array is constructed as a whole, or not at all.\<close>

lemma ctor_calls:
  assumes "cxa_vec_ctor base n element_size (Some ctor) (Some dtor) s = (out, s')"
  shows "out = Returns () \<and> vs_calls s' = vs_calls s @ ctors base element_size (unat n) \<and> vs_cookie s' = vs_cookie s \<or>
     (\<exists>e i. out = Throws e \<and> i < unat n \<and> vs_cookie s' = vs_cookie s \<and>
        vs_calls s' = vs_calls s @ ctors base element_size (Suc i) @ dtors base element_size i) \<or>
     out = Terminates \<and> \<not> no_throw dtor"
proof -
  let ?element = "\<lambda>i. base + of_nat i * element_size"
  obtain r s1 where loop: "construct_loop (\<lambda>calls i. ctor calls (?element i)) (\<lambda>i. Ctor (?element i)) 0 (unat n) s = (r, s1)"
    by fastforce
  note calls = construct_loop_calls [OF this]
  show ?thesis
  proof (cases r)
    case None
    with assms loop calls show ?thesis by (simp add: cxa_vec_ctor_def ctors_def)
  next
    case (Some ie)
    obtain i e where ie: "ie = (i, e)" by (cases ie)
    obtain o1 s2 where clean: "cxa_vec_cleanup base i element_size (Some dtor) s1 = (o1, s2)" by fastforce
    have out: "(out, s') = rethrow e (o1, s2)" using assms loop Some ie clean by (simp add: cxa_vec_ctor_def)
    from cleanup_calls [OF clean] show ?thesis
    proof
      assume c: "o1 = Returns () \<and> vs_calls s2 = vs_calls s1 @ dtors base element_size i \<and> vs_cookie s2 = vs_cookie s1"
      with calls Some ie out show ?thesis by (auto simp: rethrow_def ctors_def)
    next
      assume "o1 = Terminates \<and> \<not> no_throw dtor"
      with out show ?thesis by (simp add: rethrow_def)
    qed
  qed
qed

lemma dtor_calls:
  assumes "cxa_vec_dtor False base n element_size (Some dtor) s = (out, s')" "out \<noteq> Terminates"
  shows "vs_calls s' = vs_calls s @ dtors base element_size (unat n) \<and> (no_throw dtor \<longrightarrow> out = Returns ())"
proof -
  obtain r s1 where loop: "destroy_loop dtor base element_size (unat n) s = (r, s1)" by fastforce
  note calls = destroy_loop_calls [OF this]
  show ?thesis
  proof (cases r)
    case None
    with assms loop calls show ?thesis by (simp add: cxa_vec_dtor_def)
  next
    case (Some ie)
    obtain i e where ie: "ie = (i, e)" by (cases ie)
    obtain o1 s2 where clean: "cxa_vec_cleanup base i element_size (Some dtor) s1 = (o1, s2)" by fastforce
    have out: "(out, s') = rethrow e (o1, s2)" using assms loop Some ie clean by (simp add: cxa_vec_dtor_def)
    with assms(2) cleanup_calls [OF clean] have "out = Throws e" "vs_calls s' = vs_calls s1 @ dtors base element_size i"
      by (auto simp: rethrow_def)
    with calls Some ie show ?thesis by (auto simp: no_throw_def)
  qed
qed

lemma new_calls:
  assumes "cxa_vec_new2 n element_size padding (Some ctor) (Some dtor) alloc s = (out, s')" "n * element_size + padding = bytes"
  shows "(\<exists>e. out = Throws e \<and> alloc bytes = Inl e \<and> vs_calls s' = vs_calls s @ [Alloc bytes]) \<or>
     (out = Returns 0 \<and> alloc bytes = Inr 0 \<and> vs_calls s' = vs_calls s @ [Alloc bytes]) \<or>
     (\<exists>block. alloc bytes = Inr block \<and> block \<noteq> 0 \<and>
        (out = Returns (block + padding) \<and> vs_calls s' = vs_calls s @ Alloc bytes # ctors (block + padding) element_size (unat n) \<and>
           (padding \<noteq> 0 \<longrightarrow> get_element_count (block + padding) s' = n) \<or>
         (\<exists>e i. out = Throws e \<and> i < unat n \<and>
           vs_calls s' = vs_calls s @ Alloc bytes # ctors (block + padding) element_size (Suc i) @
             dtors (block + padding) element_size i @ [Dealloc block]) \<or>
         out = Terminates \<and> \<not> no_throw dtor))"
proof (cases "alloc bytes")
  case (Inl e)
  with assms show ?thesis by (auto simp: cxa_vec_new2_def vec_new_def Let_def)
next
  case (Inr block)
  show ?thesis
  proof (cases "block = 0")
    case True
    with Inr assms show ?thesis by (auto simp: cxa_vec_new2_def vec_new_def Let_def)
  next
    case False
    let ?base = "block + padding"
    let ?s = "if padding \<noteq> 0 then set_element_count ?base n (log (Alloc bytes) s) else log (Alloc bytes) s"
    have calls: "vs_calls ?s = vs_calls s @ [Alloc bytes]" by (simp add: set_element_count_def)
    have cookie: "padding \<noteq> 0 \<longrightarrow> get_element_count ?base ?s = n" by (simp add: set_element_count_def get_element_count_def)
    obtain o1 s1 where ctor: "cxa_vec_ctor ?base n element_size (Some ctor) (Some dtor) ?s = (o1, s1)" by fastforce
    have out: "(out, s') = (case o1 of Returns _ \<Rightarrow> (Returns ?base, s1) | Throws e \<Rightarrow> (Throws e, log (Dealloc block) s1) | Terminates \<Rightarrow> (Terminates, s1))"
      using assms Inr False ctor
      by (cases "padding = 0") (auto simp: cxa_vec_new2_def vec_new_def Let_def split: outcome.splits)
    from ctor_calls [OF ctor] show ?thesis
    proof (elim disjE)
      assume "o1 = Returns () \<and> vs_calls s1 = vs_calls ?s @ ctors ?base element_size (unat n) \<and> vs_cookie s1 = vs_cookie ?s"
      with out calls cookie Inr False show ?thesis by (simp add: get_element_count_def)
    next
      assume "\<exists>e i. o1 = Throws e \<and> i < unat n \<and> vs_cookie s1 = vs_cookie ?s \<and>
        vs_calls s1 = vs_calls ?s @ ctors ?base element_size (Suc i) @ dtors ?base element_size i"
      with out calls Inr False show ?thesis by fastforce
    next
      assume "o1 = Terminates \<and> \<not> no_throw dtor"
      with out Inr False show ?thesis by simp
    qed
  qed
qed

lemma new_returns:
  assumes "cxa_vec_new2 n element_size padding (Some ctor) (Some dtor) alloc s = (Returns p, s')" "p \<noteq> 0" "padding \<noteq> 0"
  shows "\<exists>block. alloc (n * element_size + padding) = Inr block \<and> p = block + padding \<and>
     vs_calls s' = vs_calls s @ Alloc (n * element_size + padding) # ctors p element_size (unat n) \<and> get_element_count p s' = n"
  using new_calls [OF assms(1) refl] assms(2,3) by auto

section \<open>Properties\<close>

text \<open>CX: \<open>__cxa_vec_new2\<close> either returns an array of which every element is constructed once, in order, with the
  number of elements in its cookie; or returns \<open>NULL\<close> because the allocation did; or throws, and then either nothing was
  allocated, or exactly the elements that were constructed are destroyed again, in the reverse order, and the
  block is freed; or terminates the program because a destructor threw.\<close>

theorem vec_new_all_or_nothing:
  assumes "cxa_vec_new2 n element_size padding (Some ctor) (Some dtor) alloc s = (out, s')" "n * element_size + padding = bytes"
  shows "(\<exists>e. out = Throws e \<and> alloc bytes = Inl e \<and> vs_calls s' = vs_calls s @ [Alloc bytes]) \<or>
     (out = Returns 0 \<and> alloc bytes = Inr 0 \<and> vs_calls s' = vs_calls s @ [Alloc bytes]) \<or>
     (\<exists>block. alloc bytes = Inr block \<and> block \<noteq> 0 \<and>
        (out = Returns (block + padding) \<and> vs_calls s' = vs_calls s @ Alloc bytes # ctors (block + padding) element_size (unat n) \<and>
           (padding \<noteq> 0 \<longrightarrow> get_element_count (block + padding) s' = n) \<or>
         (\<exists>e i. out = Throws e \<and> i < unat n \<and>
           vs_calls s' = vs_calls s @ Alloc bytes # ctors (block + padding) element_size (Suc i) @
             dtors (block + padding) element_size i @ [Dealloc block]) \<or>
         out = Terminates \<and> \<not> no_throw dtor))"
  by (rule new_calls [OF assms])

theorem vec_new_all_or_nothing_witness:
  "\<exists>s'. cxa_vec_new2 (3 :: 32 word) 8 4 (Some (\<lambda>_ p. if p = 0x114 then Some ''boom'' else None)) (Some (\<lambda>_ _. None)) (\<lambda>_. Inr 0x100)
       \<lparr>vs_calls = [], vs_cookie = (\<lambda>_. 0)\<rparr> = (Throws ''boom'', s') \<and>
     vs_calls s' = [Alloc 28, Ctor 0x104, Ctor 0x10c, Ctor 0x114, Dtor 0x10c, Dtor 0x104, Dealloc 0x100]"
proof -
  let ?ctor = "\<lambda>_ p. if p = 0x114 then Some ''boom'' else None"
  let ?s = "\<lparr>vs_calls = [], vs_cookie = (\<lambda>_. 0)\<rparr> :: 32 word vec_state"
  let ?r = "cxa_vec_new2 (3 :: 32 word) 8 4 (Some ?ctor) (Some (\<lambda>_ _. None)) (\<lambda>_. Inr 0x100) ?s"
  have three_eq: "unat (3 :: 32 word) = 3" by simp
  have out: "fst ?r = Throws ''boom''"
    by code_simp
  have r: "?r = (Throws ''boom'', snd ?r)" using out by (metis prod.collapse)
  have "\<exists>i. i < unat (3 :: 32 word) \<and> vs_calls (snd ?r) = Alloc 28 # ctors 0x104 8 (Suc i) @ dtors 0x104 8 i @ [Dealloc 0x100]"
    using vec_new_all_or_nothing [OF r, of 28] by simp
  then obtain i where i: "i < 3" "vs_calls (snd ?r) = Alloc 28 # ctors 0x104 8 (Suc i) @ dtors 0x104 8 i @ [Dealloc 0x100]"
    by (simp only: three_eq) blast
  have "Ctor 0x114 \<in> set (vs_calls (snd ?r))"
    by code_simp
  with i have "i = 2" by (auto simp: numeral_3_eq_3 less_Suc_eq ctors_def dtors_def)
  with i(2) r show ?thesis by (intro exI [of _ "snd ?r"] conjI) (assumption, simp add: ctors_def dtors_def numeral_2_eq_2)
qed

text \<open>CX: An array from \<open>__cxa_vec_new2\<close> with a cookie is destroyed by \<open>__cxa_vec_delete2\<close> as a whole: every element once, the
  last one first, and then the block of the allocation is freed. When a destructor throws once, the
  other elements are destroyed and the block is freed all the same, and the exception goes on.\<close>

theorem vec_delete_matches_new:
  assumes "cxa_vec_new2 n element_size padding (Some ctor) (Some dtor) alloc s = (Returns p, s1)" "p \<noteq> 0" "padding \<noteq> 0"
    and "cxa_vec_delete2 False p element_size padding (Some dtor) s1 = (out, s2)" "out \<noteq> Terminates"
  shows "\<exists>block. alloc (n * element_size + padding) = Inr block \<and> p = block + padding \<and>
     vs_calls s2 = vs_calls s @ Alloc (n * element_size + padding) # ctors p element_size (unat n) @
       dtors p element_size (unat n) @ [Dealloc block] \<and> (no_throw dtor \<longrightarrow> out = Returns ())"
proof -
  obtain block where new: "alloc (n * element_size + padding) = Inr block" "p = block + padding"
      "vs_calls s1 = vs_calls s @ Alloc (n * element_size + padding) # ctors p element_size (unat n)" "get_element_count p s1 = n"
    using new_returns [OF assms(1-3)] by blast
  obtain o1 s' where d: "cxa_vec_dtor False p n element_size (Some dtor) s1 = (o1, s')" by fastforce
  have out: "(out, s2) = free_block (Dealloc block) (o1, s')"
    using assms(2-4) d new by (simp add: cxa_vec_delete2_def)
  with assms(5) have o1: "o1 \<noteq> Terminates" "out = o1" "vs_calls s2 = vs_calls s' @ [Dealloc block]"
    by (auto simp: free_block_def split: outcome.splits)
  have "vs_calls s' = vs_calls s1 @ dtors p element_size (unat n) \<and> (no_throw dtor \<longrightarrow> o1 = Returns ())"
    by (rule dtor_calls [OF d o1(1)])
  with new o1 show ?thesis by auto
qed

theorem vec_delete_matches_new_witness:
  "\<exists>s1 s2. cxa_vec_new2 (2 :: 32 word) 8 4 (Some (\<lambda>_ _. None)) (Some (\<lambda>_ _. None :: unit option)) (\<lambda>_. Inr 0x100)
       \<lparr>vs_calls = [], vs_cookie = (\<lambda>_. 0)\<rparr> = (Returns 0x104, s1) \<and>
     cxa_vec_delete2 False 0x104 8 4 (Some (\<lambda>_ _. None :: unit option)) s1 = (Returns (), s2) \<and>
     vs_calls s2 = [Alloc 20, Ctor 0x104, Ctor 0x10c, Dtor 0x10c, Dtor 0x104, Dealloc 0x100]"
proof -
  let ?f = "\<lambda>_ _. None :: unit option"
  let ?s = "\<lparr>vs_calls = [], vs_cookie = (\<lambda>_. 0)\<rparr> :: 32 word vec_state"
  let ?r = "cxa_vec_new2 (2 :: 32 word) 8 4 (Some ?f) (Some ?f) (\<lambda>_. Inr 0x100) ?s"
  let ?d = "cxa_vec_delete2 False 0x104 8 4 (Some ?f) (snd ?r)"
  have "fst ?r = Returns 0x104" by code_simp
  then have r: "?r = (Returns 0x104, snd ?r)" by (metis prod.collapse)
  have "fst ?d = Returns ()" by code_simp
  then have d: "?d = (Returns (), snd ?d)" by (metis prod.collapse)
  have "vs_calls (snd ?d) = [Alloc 20, Ctor 0x104, Ctor 0x10c, Dtor 0x10c, Dtor 0x104, Dealloc 0x100]"
    using vec_delete_matches_new [OF r _ _ d] upt_rec [of 0 2] upt_rec [of 1 2] by (auto simp: ctors_def dtors_def)
  with r d show ?thesis by (intro exI conjI)
qed

text \<open>The size of the block is not checked for wrap-around: an array of more than a thousand million elements of 4 bytes
  is constructed in a block of 12 bytes.\<close>

lemma vec_new_size_wraps:
  assumes "cxa_vec_new2 (0x40000001 :: 32 word) 4 8 (Some ctor) (Some dtor) (\<lambda>_. Inr 0x100) s = (Returns p, s')"
  shows "vs_calls s' = vs_calls s @ Alloc 12 # ctors 0x108 4 0x40000001"
  using new_calls [OF assms, of 12] by auto

end
