(* ===== verification/Spec2Isabelle.thy ===== *)
theory Spec2Isabelle
  imports Crazy_Util Search_Path Crazy_System Line_Reader Proc_Maps Linker_Phdr Elf_Loader Elf_View
    Elf_Symbols Elf_Relocations Elf_Relro Rdebug Shared_Library Breadth_First Library_List Library_Objects Linker_Errors Linker_Api App_Glue
    Fallback_Heap Cxa_Guard Cxa_Vector
begin

text \<open>
  A verification development for the native code of the CrystaX NDK: the crazy linker,
  \<^verbatim>\<open>src/sources/crystax/crazy_linker\<close>, which is a dynamic linker that applications use in place of the
  one of the system, and the native application glue, \<^verbatim>\<open>src/sources/android/native_app_glue\<close>.

  \<^bold>\<open>The program and its parts.\<close>
  An application calls the API of the linker (\<^verbatim>\<open>crazy_linker_api.cpp\<close>), and the libraries it loads call
  wrapped versions of \<^verbatim>\<open>dlopen\<close>, \<^verbatim>\<open>dlsym\<close> and so on (\<^verbatim>\<open>crazy_linker_wrappers.cpp\<close>). Both work on one list of
  libraries (\<^verbatim>\<open>crazy_linker_library_list.cpp\<close>) under one lock. To load a library, the list finds its file
  (search paths), maps it (ELF loader), reads its dynamic table (shared library, symbols), loads the
  libraries it depends on, relocates it, tells the debugger (\<^verbatim>\<open>r_debug\<close>) and runs its constructors. Shared
  RELRO sections let several processes share the relocated read-only data of a library. The glue is
  independent of the linker: it runs an application in a thread of its own and passes it the events of the
  activity.

  \<^bold>\<open>Theories and sources.\<close> File names are those under \<^verbatim>\<open>src/sources/crystax/crazy_linker/src\<close>; definitions have
  the names of the functions they model, or name a part of one.
  \<^item> \<^verbatim>\<open>Prelude\<close>: the C library functions on buffers, and generic lemmas.
  \<^item> \<^verbatim>\<open>Crazy_Util\<close>: \<^verbatim>\<open>crazy_linker_util\<close> (\<^verbatim>\<open>String\<close>, \<^verbatim>\<open>Vector\<close>, \<^verbatim>\<open>Set\<close>). A buffer is a list; an access outside it is
    \<^term>\<open>None\<close>. The classes refine lists and sets.
  \<^item> \<^verbatim>\<open>Search_Path\<close>, \<^verbatim>\<open>Crazy_System\<close>, \<^verbatim>\<open>Line_Reader\<close>, \<^verbatim>\<open>Proc_Maps\<close>: the files of these names. The reader of lines is
    complete for every source of bytes; the parser of maps inverts a printer; the searches return first matches.
  \<^item> \<^verbatim>\<open>Elf_Types\<close>, \<^verbatim>\<open>Linker_Phdr\<close>, \<^verbatim>\<open>Elf_Loader\<close>, \<^verbatim>\<open>Elf_View\<close>: \<^verbatim>\<open>elf_traits.h\<close>, \<^verbatim>\<open>linker_phdr.cpp\<close>, \<^verbatim>\<open>crazy_linker_elf_loader.cpp\<close>,
    \<^verbatim>\<open>crazy_linker_elf_view.cpp\<close>. Memory is a map from addresses to bytes with the protection of every page.
    A successful load has the pages the program headers ask for, a failed one leaves nothing mapped.
  \<^item> \<^verbatim>\<open>Elf_Symbols\<close>, \<^verbatim>\<open>Elf_Memory\<close>, \<^verbatim>\<open>Elf_Relocations\<close>: the symbol and hash tables, words in memory behind the
    locale of a memory interface, and the relocations of four processors with their specification.
  \<^item> \<^verbatim>\<open>Elf_Relro\<close>: \<^verbatim>\<open>crazy_linker_elf_relro\<close>, \<^verbatim>\<open>crazy_linker_ashmem\<close>, \<^verbatim>\<open>crazy_linker_memory_mapping.h\<close>. Sharing keeps every
    byte of a section; the descriptors are balanced.
  \<^item> \<^verbatim>\<open>Rdebug\<close>: \<^verbatim>\<open>crazy_linker_rdebug\<close>, with the entries as words in memory; it refines an abstract list.
  \<^item> \<^verbatim>\<open>Shared_Library\<close>: \<^verbatim>\<open>crazy_linker_shared_library\<close>, \<^verbatim>\<open>crazy_linker_library_view.h\<close>, and the table of
    \<^verbatim>\<open>WrapLinkerSymbol\<close>: binding of symbols, order of constructors, shared RELRO of a library.
  \<^item> \<^verbatim>\<open>Breadth_First\<close>, \<^verbatim>\<open>Library_List\<close>, \<^verbatim>\<open>Library_Objects\<close>: \<^verbatim>\<open>crazy_linker_library_list\<close> and the rest of
    \<^verbatim>\<open>crazy_linker_library_view\<close>. The state is a heap of views and libraries. The search for a symbol is an instance
    of a breadth-first search over a locale of graphs. The invariant of the heap (views alive and counted,
    objects owned once, chain of the libraries in use) holds in every reachable state; unloading ends also
    for cyclic dependencies.
  \<^item> \<^verbatim>\<open>Linker_Errors\<close>: \<^verbatim>\<open>crazy_linker_error\<close>, \<^verbatim>\<open>crazy_linker_thread\<close>: message buffers stay within their bounds.
  \<^item> \<^verbatim>\<open>Linker_Api\<close>: \<^verbatim>\<open>crazy_linker_api.cpp\<close>, \<^verbatim>\<open>crazy_linker_globals\<close>, \<^verbatim>\<open>crazy_linker_wrappers.cpp\<close>: every sequence of calls
    leaves the lock free and the invariant intact; handles that are found can be closed; calls block
    while the lock is held.
  \<^item> \<^verbatim>\<open>App_Glue\<close>: \<^verbatim>\<open>android_native_app_glue.c\<close>: two threads as a step relation, with the safety of the shared
    object and of the window and input queue in all interleavings, and the return of every callback.

  \<^bold>\<open>Conventions.\<close>
  Addresses are words of a width that is a parameter of the definitions; arithmetic on them wraps around. An error of the source is a value
  of a sum or option type. \<^term>\<open>None\<close> as the result of a whole operation is undefined behaviour, an access to
  freed memory, a lock that is never granted, or an allocation that does not return; the statements say where
  an operation does return. The kernel, the file system, the system linker, the code inside loaded libraries
  and the application are parameters.

  \<^bold>\<open>Bounds and fuel.\<close>
  \<^const>\<open>LoadLibrary\<close> and \<^const>\<open>UnloadLibrary\<close> recurse over the dependencies; their first argument bounds the depth.
  For unloading, the number of known libraries plus one is enough. Loading has no such bound:
  two libraries that need each other are loaded over and over, since a library is known only after its
  dependencies are loaded. The loops over the chain of libraries run at most once for every known library,
  plus one. The other loops are structural or have a termination proof. The theorems on the containers assume
  fewer operations than make a 32-bit count wrap around, and say so.

  \<^bold>\<open>Simplifications.\<close>
  Calls into loaded code (constructors, destructors, JNI hooks) change memory only; a call of the linker
  from there would find the lock taken and wait forever, which is a theorem. \<^verbatim>\<open>operator new\<close> returns an unused
  address. Formatted messages are the text the format stands for. A shared mapping is copied when it is made
  and when it is removed. In the glue a critical section is one step.

  \<^bold>\<open>Not modelled.\<close>
  The log output and the unit tests of the linker; \<^verbatim>\<open>libthread_db\<close>, \<^verbatim>\<open>ndk_helper\<close> (drivers, JNI, floating point);
  \<^verbatim>\<open>cpufeatures\<close>; the C library additions, locale tables and virtual file system of libcrystax, which are
  system calls, generated tables and drivers; the C++ runtime, which works on tables of the
  compiler; the host tools \<^verbatim>\<open>make\<close>, \<^verbatim>\<open>nawk\<close>, \<^verbatim>\<open>ndk-stack\<close>, \<^verbatim>\<open>ndk-depends\<close> and \<^verbatim>\<open>toolbox\<close>; test frameworks, tests,
  samples, headers and build scripts.
\<close>

end
